(* ===== verification/Bridget_Prelude.thy ===== *)
theory Bridget_Prelude
  imports Main "HOL-Library.Word" "HOL-Library.Char_ord" "HOL-Library.List_Lexorder"
begin

text \<open>
  Shared ground of the Bridget development: the names of the machine types the Rust
  sources use, saturating and checked arithmetic on \<open>i64\<close>, the semantics of the SQL
  statements (\<open>UPDATE\<close>, \<open>DELETE\<close>, \<open>EXISTS\<close>) on tables kept as lists of rows, and the
  generic lemmas that the component theories share.

  Conventions. A Rust \<open>String\<close>/\<open>&str\<close>/\<open>Vec<u8>\<close> is a \<open>string\<close>, that is a list of bytes
  (\<open>char\<close> has 256 values); \<open>i64\<close> timestamps are \<open>int\<close> with the saturation or the
  overflow check written out where the code performs it; counters that the code
  increments with a plain \<open>+= 1\<close> are words of their width. \<open>Result<T, E>\<close> is
  \<open>'e + 't\<close> with \<open>Inl\<close> for the error.
\<close>

named_theorems table_simps \<open>rewriting of the table operations\<close>
named_theorems i64_simps \<open>definitions of the i64 operations\<close>

section \<open>Machine integers\<close>

type_synonym u64 = "64 word"
type_synonym u32 = "32 word"
type_synonym i32 = "32 word"

definition i64_max :: int where
  "i64_max = 9223372036854775807"

definition i64_min :: int where
  "i64_min = - 9223372036854775808"

definition is_i64 :: "int \<Rightarrow> bool" where
  "is_i64 x \<longleftrightarrow> i64_min \<le> x \<and> x \<le> i64_max"

definition u64_max :: nat where
  "u64_max = 18446744073709551615"

definition i64_saturate :: "int \<Rightarrow> int" where
  "i64_saturate x = max i64_min (min i64_max x)"

definition saturating_add :: "int \<Rightarrow> int \<Rightarrow> int" where
  "saturating_add a b = i64_saturate (a + b)"

definition saturating_sub :: "int \<Rightarrow> int \<Rightarrow> int" where
  "saturating_sub a b = i64_saturate (a - b)"

definition saturating_mul :: "int \<Rightarrow> int \<Rightarrow> int" where
  "saturating_mul a b = i64_saturate (a * b)"

definition checked_add :: "int \<Rightarrow> int \<Rightarrow> int option" where
  "checked_add a b = (if is_i64 (a + b) then Some (a + b) else None)"

text \<open>\<open>x as i64\<close> of a \<open>u64\<close>: the same bits, read as two's complement.\<close>

definition as_i64 :: "nat \<Rightarrow> int" where
  "as_i64 x = (int x + 9223372036854775808) mod 18446744073709551616 - 9223372036854775808"

text \<open>\<open>x as u64\<close> of an \<open>i64\<close>, and an \<open>i64\<close> sum that wraps around.\<close>

definition as_u64 :: "int \<Rightarrow> nat" where
  "as_u64 x = nat (x mod 18446744073709551616)"

definition i64_wrap :: "int \<Rightarrow> int" where
  "i64_wrap x = (x + 9223372036854775808) mod 18446744073709551616 - 9223372036854775808"

definition u64_saturating_add :: "nat \<Rightarrow> nat \<Rightarrow> nat" where
  "u64_saturating_add a b = min u64_max (a + b)"

declare i64_max_def [i64_simps] i64_min_def [i64_simps] is_i64_def [i64_simps]
  i64_saturate_def [i64_simps] saturating_add_def [i64_simps] saturating_sub_def [i64_simps]
  saturating_mul_def [i64_simps] checked_add_def [i64_simps]

section \<open>Tables\<close>

text \<open>
  A SQL table is the list of its rows in insertion order. \<open>UPDATE t SET f WHERE p\<close>
  returns the number of rows it matched beside the new table, as \<open>Connection::execute\<close>
  does; \<open>DELETE FROM t WHERE p\<close> likewise.
\<close>

type_synonym 'r table = "'r list"

definition sql_matches :: "('r \<Rightarrow> bool) \<Rightarrow> 'r table \<Rightarrow> nat" where
  "sql_matches p rows = length (filter p rows)"

definition sql_update :: "('r \<Rightarrow> bool) \<Rightarrow> ('r \<Rightarrow> 'r) \<Rightarrow> 'r table \<Rightarrow> 'r table" where
  "sql_update p f rows = map (\<lambda>r. if p r then f r else r) rows"

definition sql_delete :: "('r \<Rightarrow> bool) \<Rightarrow> 'r table \<Rightarrow> 'r table" where
  "sql_delete p rows = filter (\<lambda>r. \<not> p r) rows"

definition sql_exists :: "('r \<Rightarrow> bool) \<Rightarrow> 'r table \<Rightarrow> bool" where
  "sql_exists p rows = list_ex p rows"

text \<open>\<open>query_row(..).optional()\<close>: the first row that matches, if any.\<close>

definition sql_row :: "('r \<Rightarrow> bool) \<Rightarrow> 'r table \<Rightarrow> 'r option" where
  "sql_row p rows = List.find p rows"

section \<open>Lemmas\<close>

lemma i64_saturate_bounds [simp]: "is_i64 (i64_saturate x)"
  by (simp add: i64_simps)

lemma as_i64_id: "int x \<le> i64_max \<Longrightarrow> as_i64 x = int x"
  by (simp add: as_i64_def i64_max_def)

lemma i64_saturate_id: "is_i64 x \<Longrightarrow> i64_saturate x = x"
  by (simp add: i64_simps)

lemma i64_saturate_mono: "x \<le> y \<Longrightarrow> i64_saturate x \<le> i64_saturate y"
  by (simp add: i64_saturate_def max_def min_def)

lemma checked_add_Some_iff:
  "checked_add a b = Some c \<longleftrightarrow> c = a + b \<and> is_i64 (a + b)"
  by (auto simp: checked_add_def)

lemma sql_update_Nil [simp]: "sql_update p f [] = []"
  by (simp add: sql_update_def)

lemma sql_update_Cons [simp]:
  "sql_update p f (r # rs) = (if p r then f r else r) # sql_update p f rs"
  by (simp add: sql_update_def)

lemma length_sql_update [simp]: "length (sql_update p f rows) = length rows"
  by (simp add: sql_update_def)

lemma set_sql_update: "set (sql_update p f rows) = (\<lambda>r. if p r then f r else r) ` set rows"
  by (simp add: sql_update_def)

lemma in_sql_updateE:
  assumes "r' \<in> set (sql_update p f rows)"
  obtains r where "r \<in> set rows" and "r' = (if p r then f r else r)"
  using assms by (auto simp: set_sql_update)

lemma map_sql_update:
  assumes "\<And>r. p r \<Longrightarrow> g (f r) = g r"
  shows "map g (sql_update p f rows) = map g rows"
  using assms by (simp add: sql_update_def)

lemma set_sql_delete [table_simps]: "set (sql_delete p rows) = {r \<in> set rows. \<not> p r}"
  by (auto simp: sql_delete_def)

lemma distinct_map_sql_delete:
  "distinct (map g rows) \<Longrightarrow> distinct (map g (sql_delete p rows))"
  by (simp add: sql_delete_def distinct_map_filter)

lemma sql_exists_iff [table_simps]: "sql_exists p rows \<longleftrightarrow> (\<exists>r \<in> set rows. p r)"
  by (simp add: sql_exists_def list_ex_iff)

lemma sql_matches_0_iff: "sql_matches p rows = 0 \<longleftrightarrow> (\<forall>r \<in> set rows. \<not> p r)"
  by (simp add: sql_matches_def filter_empty_conv)

lemma sql_row_SomeD: "sql_row p rows = Some r \<Longrightarrow> r \<in> set rows \<and> p r"
  by (auto simp: sql_row_def find_Some_iff)

lemma sql_row_None_iff: "sql_row p rows = None \<longleftrightarrow> (\<forall>r \<in> set rows. \<not> p r)"
  by (auto simp: sql_row_def find_None_iff)

text \<open>On a key that is unique, the selected row is the only one that matches.\<close>

lemma sql_row_unique:
  assumes "distinct (map g rows)" and "r \<in> set rows"
  shows "sql_row (\<lambda>r'. g r' = g r) rows = Some r"
  using assms unfolding sql_row_def
  by (induction rows) (auto simp: image_iff)

lemma sql_matches_le_1:
  assumes "distinct (map g rows)" and "\<And>r r'. p r \<Longrightarrow> p r' \<Longrightarrow> g r = g r'"
  shows "sql_matches p rows \<le> 1"
proof (rule ccontr)
  assume "\<not> sql_matches p rows \<le> 1"
  then obtain a b cs where fs: "filter p rows = a # b # cs"
    unfolding sql_matches_def by (cases "filter p rows"; cases "tl (filter p rows)") auto
  have "distinct (map g (filter p rows))"
    using assms(1) by (rule distinct_map_filter)
  then have "g a \<noteq> g b" by (simp add: fs)
  moreover have "a \<in> set (filter p rows)" "b \<in> set (filter p rows)"
    by (simp_all add: fs)
  then have "p a" "p b" by simp_all
  ultimately show False using assms(2) by blast
qed

text \<open>Selection by key after the four ways a statement changes a table.\<close>

lemma sql_row_append:
  "sql_row p (xs @ ys) = (case sql_row p xs of Some x \<Rightarrow> Some x | None \<Rightarrow> sql_row p ys)"
  by (induction xs) (simp_all add: sql_row_def)

lemma sql_row_update:
  assumes "\<And>r. key (f r) = key r"
  shows "sql_row (\<lambda>r. key r = k) (sql_update p f rows) =
    map_option (\<lambda>r. if p r then f r else r) (sql_row (\<lambda>r. key r = k) rows)"
  using assms by (induction rows) (simp_all add: sql_row_def)

lemma sql_row_delete:
  assumes "distinct (map key rows)"
  shows "sql_row (\<lambda>r. key r = k) (sql_delete p rows) =
    (case sql_row (\<lambda>r. key r = k) rows of Some r \<Rightarrow> if p r then None else Some r | None \<Rightarrow> None)"
  using assms
proof (induction rows)
  case (Cons r rows)
  have others: "\<forall>x\<in>set rows. key x \<noteq> k" if "key r = k"
    using Cons.prems that image_eqI [of _ key _ "set rows"] by (metis distinct.simps(2) list.simps(9) set_map)
  have "sql_row (\<lambda>x. key x = k) (sql_delete p rows) = None" if "key r = k"
    using others [OF that] by (simp add: sql_row_None_iff set_sql_delete)
  with Cons show ?case by (auto simp: sql_row_def sql_delete_def)
qed (simp add: sql_row_def sql_delete_def)

lemma sql_matches_key:
  assumes "distinct (map key rows)"
  shows "sql_matches (\<lambda>r. key r = k \<and> q r) rows =
    (case sql_row (\<lambda>r. key r = k) rows of Some r \<Rightarrow> if q r then 1 else 0 | None \<Rightarrow> 0)"
  using assms
proof (induction rows)
  case (Cons r rows)
  have others: "\<forall>x\<in>set rows. key x \<noteq> k" if "key r = k"
    using Cons.prems that image_eqI [of _ key _ "set rows"] by (metis distinct.simps(2) list.simps(9) set_map)
  have "filter (\<lambda>x. key x = k \<and> q x) rows = []" if "key r = k"
    using others [OF that] by (simp add: filter_empty_conv)
  with Cons show ?case by (auto simp: sql_row_def sql_matches_def)
qed (simp add: sql_row_def sql_matches_def)

lemma distinct_map_sql_update:
  assumes "\<And>r. p r \<Longrightarrow> g (f r) = g r" and "distinct (map g rows)"
  shows "distinct (map g (sql_update p f rows))"
  using assms by (simp add: map_sql_update)

lemma distinct_map_eq: "distinct (map g xs) \<Longrightarrow> x \<in> set xs \<Longrightarrow> y \<in> set xs \<Longrightarrow> g x = g y \<Longrightarrow> x = y"
  by (auto simp: distinct_map dest: inj_onD)

lemma sql_row_member:
  assumes "distinct (map key rows)" and "r \<in> set rows" and "key r = k"
  shows "sql_row (\<lambda>r. key r = k) rows = Some r"
  using sql_row_unique [OF assms(1,2)] assms(3) by simp

end
