(* ===== verification/Rust_Text.thy ===== *)
theory Rust_Text
  imports Bridget_Prelude
begin

text \<open>
  The parts of Rust's \<open>str\<close> that the Bridget sources use, on UTF-8 byte strings:
  iteration over characters, \<open>trim\<close>, prefix tests, ASCII classes, and the decimal
  printing and parsing of \<open>i64\<close>.
\<close>

section \<open>Characters\<close>

definition byte :: "char \<Rightarrow> nat" where
  "byte c = of_char c"

definition is_continuation :: "char \<Rightarrow> bool" where
  "is_continuation c \<longleftrightarrow> 128 \<le> byte c \<and> byte c < 192"

text \<open>\<open>str::chars\<close>, each character kept as its UTF-8 bytes.\<close>

function utf8_chars :: "string \<Rightarrow> string list" where
  "utf8_chars [] = []"
| "utf8_chars (c # cs) =
     (c # takeWhile is_continuation cs) # utf8_chars (dropWhile is_continuation cs)"
  by pat_completeness auto
termination
  by (relation "measure length") (auto simp: less_Suc_eq_le length_dropWhile_le)

definition code_point :: "string \<Rightarrow> nat" where
  "code_point c = (case map byte c of
      [a] \<Rightarrow> a
    | [a, b] \<Rightarrow> (a - 192) * 64 + (b - 128)
    | [a, b, d] \<Rightarrow> (a - 224) * 4096 + (b - 128) * 64 + (d - 128)
    | [a, b, d, e] \<Rightarrow> (a - 240) * 262144 + (b - 128) * 4096 + (d - 128) * 64 + (e - 128)
    | _ \<Rightarrow> 65533)"

definition char_count :: "string \<Rightarrow> nat" where
  "char_count s = length (utf8_chars s)"

text \<open>\<open>s.chars().take(n).collect()\<close>\<close>

definition take_chars :: "nat \<Rightarrow> string \<Rightarrow> string" where
  "take_chars n s = concat (take n (utf8_chars s))"

text \<open>\<open>char::is_whitespace\<close>: the Unicode property White\_Space, by code point.\<close>

definition is_whitespace :: "nat \<Rightarrow> bool" where
  "is_whitespace cp \<longleftrightarrow>
     9 \<le> cp \<and> cp \<le> 13 \<or> cp = 32 \<or> cp = 133 \<or> cp = 160 \<or> cp = 5760 \<or>
     8192 \<le> cp \<and> cp \<le> 8202 \<or> cp = 8232 \<or> cp = 8233 \<or> cp = 8239 \<or> cp = 8287 \<or> cp = 12288"

text \<open>\<open>char::is_control\<close>: the Unicode category Cc.\<close>

definition is_control :: "nat \<Rightarrow> bool" where
  "is_control cp \<longleftrightarrow> cp \<le> 31 \<or> 127 \<le> cp \<and> cp \<le> 159"

definition trim_start_chars :: "string list \<Rightarrow> string list" where
  "trim_start_chars cs = dropWhile (\<lambda>c. is_whitespace (code_point c)) cs"

definition trim_end_chars :: "string list \<Rightarrow> string list" where
  "trim_end_chars cs = rev (trim_start_chars (rev cs))"

definition trim_start :: "string \<Rightarrow> string" where
  "trim_start s = concat (trim_start_chars (utf8_chars s))"

definition trim_end :: "string \<Rightarrow> string" where
  "trim_end s = concat (trim_end_chars (utf8_chars s))"

definition trim :: "string \<Rightarrow> string" where
  "trim s = concat (trim_end_chars (trim_start_chars (utf8_chars s)))"

section \<open>Prefixes, substrings, ASCII classes\<close>

fun strip_prefix :: "string \<Rightarrow> string \<Rightarrow> string option" where
  "strip_prefix [] s = Some s"
| "strip_prefix (p # ps) [] = None"
| "strip_prefix (p # ps) (c # cs) = (if p = c then strip_prefix ps cs else None)"

definition starts_with :: "string \<Rightarrow> string \<Rightarrow> bool" where
  "starts_with s p \<longleftrightarrow> strip_prefix p s \<noteq> None"

fun str_contains :: "string \<Rightarrow> string \<Rightarrow> bool" where
  "str_contains [] p \<longleftrightarrow> p = []"
| "str_contains (c # cs) p \<longleftrightarrow> starts_with (c # cs) p \<or> str_contains cs p"

definition is_ascii_digit :: "char \<Rightarrow> bool" where
  "is_ascii_digit c \<longleftrightarrow> 48 \<le> byte c \<and> byte c \<le> 57"

definition is_ascii_alphanumeric :: "char \<Rightarrow> bool" where
  "is_ascii_alphanumeric c \<longleftrightarrow> is_ascii_digit c \<or>
     65 \<le> byte c \<and> byte c \<le> 90 \<or> 97 \<le> byte c \<and> byte c \<le> 122"

definition is_ascii_graphic :: "char \<Rightarrow> bool" where
  "is_ascii_graphic c \<longleftrightarrow> 33 \<le> byte c \<and> byte c \<le> 126"

section \<open>Decimal numbers\<close>

definition digit_char :: "nat \<Rightarrow> char" where
  "digit_char d = char_of (48 + d)"

definition digit_value :: "char \<Rightarrow> int" where
  "digit_value c = int (byte c) - 48"

fun show_nat :: "nat \<Rightarrow> string" where
  "show_nat n = (if n < 10 then [digit_char n] else show_nat (n div 10) @ [digit_char (n mod 10)])"

declare show_nat.simps [simp del]

text \<open>\<open>i64::to_string\<close>\<close>

definition show_int :: "int \<Rightarrow> string" where
  "show_int x = (if x < 0 then CHR ''-'' # show_nat (nat (- x)) else show_nat (nat x))"

fun digits_value :: "int \<Rightarrow> string \<Rightarrow> int" where
  "digits_value acc [] = acc"
| "digits_value acc (c # cs) = digits_value (acc * 10 + digit_value c) cs"

text \<open>\<open>str::parse::<i64>\<close>: an optional sign, at least one digit, digits only, no overflow.\<close>

definition parse_i64 :: "string \<Rightarrow> int option" where
  "parse_i64 s =
     (let (neg, ds) = (case s of
            CHR ''-'' # cs \<Rightarrow> (True, cs)
          | CHR ''+'' # cs \<Rightarrow> (False, cs)
          | _ \<Rightarrow> (False, s))
      in if ds \<noteq> [] \<and> list_all is_ascii_digit ds
         then let v = (if neg then - digits_value 0 ds else digits_value 0 ds)
              in if is_i64 v then Some v else None
         else None)"

section \<open>Lemmas\<close>

lemma concat_utf8_chars [simp]: "concat (utf8_chars s) = s"
  by (induction s rule: utf8_chars.induct) auto

lemma char_count_le_length: "char_count s \<le> length s"
proof -
  have "length (utf8_chars s) \<le> length s"
  proof (induction s rule: utf8_chars.induct)
    case (2 c cs)
    have "length (dropWhile is_continuation cs) \<le> length cs"
      by (rule length_dropWhile_le)
    with 2 show ?case by simp
  qed simp
  then show ?thesis by (simp add: char_count_def)
qed

text \<open>A prefix of the characters of a text has exactly these characters.\<close>

lemma utf8_chars_split:
  assumes "list_all is_continuation cs" and "ys = [] \<or> \<not> is_continuation (hd ys)"
  shows "utf8_chars (c # cs @ ys) = (c # cs) # utf8_chars ys"
proof -
  have "takeWhile is_continuation (cs @ ys) = cs" "dropWhile is_continuation (cs @ ys) = ys"
    using assms by (induction cs) (cases ys; auto)+
  then show ?thesis by simp
qed

lemma hd_concat_take_utf8_chars:
  assumes "s = [] \<or> \<not> is_continuation (hd s)"
  shows "concat (take n (utf8_chars s)) = [] \<or> \<not> is_continuation (hd (concat (take n (utf8_chars s))))"
  using assms by (cases s; cases n) auto

lemma utf8_chars_take: "utf8_chars (concat (take n (utf8_chars s))) = take n (utf8_chars s)"
proof (induction s arbitrary: n rule: utf8_chars.induct)
  case (2 c cs)
  show ?case
  proof (cases n)
    case (Suc m)
    let ?rest = "dropWhile is_continuation cs"
    let ?ys = "concat (take m (utf8_chars ?rest))"
    have "?ys = [] \<or> \<not> is_continuation (hd ?ys)"
      using hd_dropWhile [of is_continuation cs] by (intro hd_concat_take_utf8_chars) blast
    moreover have "list_all is_continuation (takeWhile is_continuation cs)"
      by (auto simp: list_all_iff dest: set_takeWhileD)
    ultimately have "utf8_chars (c # takeWhile is_continuation cs @ ?ys) =
      (c # takeWhile is_continuation cs) # utf8_chars ?ys" by (intro utf8_chars_split)
    then show ?thesis using 2 by (simp add: Suc)
  qed simp
qed simp

lemma char_count_take_chars: "char_count (take_chars n s) \<le> n"
  by (simp add: char_count_def take_chars_def utf8_chars_take)

lemma strip_prefix_Some_iff: "strip_prefix p s = Some r \<longleftrightarrow> s = p @ r"
  by (induction p s rule: strip_prefix.induct) auto

lemma strip_prefix_append [simp]: "strip_prefix p (p @ r) = Some r"
  by (simp add: strip_prefix_Some_iff)

lemma byte_digit_char [simp]: "d < 10 \<Longrightarrow> byte (digit_char d) = 48 + d"
  by (simp add: byte_def digit_char_def)

lemma is_ascii_digit_digit_char [simp]: "d < 10 \<Longrightarrow> is_ascii_digit (digit_char d)"
  by (simp add: is_ascii_digit_def)

lemma digit_value_digit_char [simp]: "d < 10 \<Longrightarrow> digit_value (digit_char d) = int d"
  by (simp add: digit_value_def)

lemma show_nat_digits: "list_all is_ascii_digit (show_nat n)"
proof (induction n rule: show_nat.induct)
  case (1 n)
  then show ?case by (subst show_nat.simps) auto
qed

lemma show_nat_not_Nil [simp]: "show_nat n \<noteq> []"
  by (subst show_nat.simps) simp

lemma length_show_nat: "n < 10 ^ k \<Longrightarrow> 0 < k \<Longrightarrow> length (show_nat n) \<le> k"
proof (induction n arbitrary: k rule: show_nat.induct)
  case (1 n)
  show ?case
  proof (cases "n < 10")
    case True
    then show ?thesis using 1(3) by (subst show_nat.simps) simp
  next
    case False
    obtain m where m: "k = Suc m" using 1(3) by (cases k) auto
    have "n div 10 < 10 ^ m" using 1(2) m by (simp add: less_mult_imp_div_less mult.commute)
    moreover from this False have "0 < m" by (cases m) auto
    ultimately have "length (show_nat (n div 10)) \<le> m" using 1(1) False by blast
    then show ?thesis using False by (subst show_nat.simps) (simp add: m)
  qed
qed

lemma digits_value_append:
  "digits_value acc (ds @ es) = digits_value (digits_value acc ds) es"
  by (induction ds arbitrary: acc) auto

lemma digits_value_show_nat: "digits_value 0 (show_nat n) = int n"
proof (induction n rule: show_nat.induct)
  case (1 n)
  show ?case
  proof (cases "n < 10")
    case True
    then show ?thesis by (subst show_nat.simps) simp
  next
    case False
    with 1 have "digits_value 0 (show_nat (n div 10)) = int (n div 10)" by simp
    moreover have "int (n div 10) * 10 + int (n mod 10) = int n" by presburger
    ultimately show ?thesis
      using False by (subst show_nat.simps) (simp add: digits_value_append)
  qed
qed

lemma show_nat_head:
  obtains c cs where "show_nat n = c # cs" and "is_ascii_digit c"
  using show_nat_digits [of n] show_nat_not_Nil [of n] by (cases "show_nat n") auto

text \<open>What is printed is parsed back.\<close>

lemma parse_show_int:
  assumes "is_i64 x"
  shows "parse_i64 (show_int x) = Some x"
proof (cases "x < 0")
  case True
  then show ?thesis
    using assms show_nat_digits [of "nat (- x)"]
    by (simp add: show_int_def parse_i64_def digits_value_show_nat)
next
  case False
  obtain c cs where s: "show_nat (nat x) = c # cs" and d: "is_ascii_digit c"
    by (rule show_nat_head)
  have "c \<noteq> CHR ''-''" "c \<noteq> CHR ''+''"
    using d by (auto simp: is_ascii_digit_def byte_def)
  then have "(case show_nat (nat x) of
        CHR ''-'' # cs \<Rightarrow> (True, cs) | CHR ''+'' # cs \<Rightarrow> (False, cs)
      | _ \<Rightarrow> (False, show_nat (nat x))) = (False, show_nat (nat x))"
    by (simp add: s split: char.splits bool.splits)
  then show ?thesis
    using assms False show_nat_digits [of "nat x"]
    by (simp add: show_int_def parse_i64_def digits_value_show_nat)
qed

lemma parse_i64_bounds: "parse_i64 s = Some x \<Longrightarrow> is_i64 x"
  by (auto simp: parse_i64_def Let_def split: if_splits prod.splits)

end
