(* ===== verification/Contracts.thy ===== *)
theory Contracts
  imports Rust_Text
begin

text \<open>
  The interfaces that several components of Bridget share, as locales. Each locale fixes
  the operations a client calls, assumes the laws the provider promises and proves once
  what every client may conclude; the component theories interpret them on the model of
  the code.

  \<^item> \<open>closed_vocabulary\<close>: an enum with a list \<open>ALL\<close> of its variants and a wire name per
    variant (\<open>JournalUpdateKind\<close>, \<open>RefusalLayer\<close>, \<open>RecordState\<close>, \<open>ControlEventKind\<close>).
  \<^item> \<open>absorbing_machine\<close>: a step relation with terminal states that nothing leaves
    (executions, records, deliveries).
  \<^item> \<open>window_guard\<close>: a memory of marked keys that answers "seen within the window"
    (the deduplicator and the envelope guard).
  \<^item> \<open>transactional_store\<close> and \<open>durable_store\<close>: a state changed only by operations that
    either fail and change nothing or succeed and keep the invariant, and whose settled
    facts survive every later operation.
\<close>

section \<open>Generic runs\<close>

text \<open>
  A transaction that fails is rolled back: the state after an \<open>Inl\<close> is the state before.
\<close>

fun run_ops :: "('op \<Rightarrow> 's \<Rightarrow> 'e + 'r \<times> 's) \<Rightarrow> 'op list \<Rightarrow> 's \<Rightarrow> 's" where
  "run_ops exec [] s = s"
| "run_ops exec (x # xs) s =
     run_ops exec xs (case exec x s of Inl _ \<Rightarrow> s | Inr (_, s') \<Rightarrow> s')"

text \<open>No operation of the run removes \<open>k\<close>.\<close>

fun kept_ops ::
  "('op \<Rightarrow> 's \<Rightarrow> 'e + 'r \<times> 's) \<Rightarrow> ('op \<Rightarrow> 'k \<Rightarrow> 's \<Rightarrow> bool) \<Rightarrow> 'k \<Rightarrow> 'op list \<Rightarrow> 's \<Rightarrow> bool"
where
  "kept_ops exec forgets k [] s = True"
| "kept_ops exec forgets k (x # xs) s =
     (\<not> forgets x k s \<and>
      kept_ops exec forgets k xs (case exec x s of Inl _ \<Rightarrow> s | Inr (_, s') \<Rightarrow> s'))"

datatype 'k guard_event = Mark 'k int | Query 'k int

fun guard_time :: "'k guard_event \<Rightarrow> int" where
  "guard_time (Mark k t) = t"
| "guard_time (Query k t) = t"

fun guard_step ::
  "('k \<Rightarrow> int \<Rightarrow> 's \<Rightarrow> 's) \<Rightarrow> ('k \<Rightarrow> int \<Rightarrow> 's \<Rightarrow> bool \<times> 's) \<Rightarrow> 'k guard_event \<Rightarrow> 's \<Rightarrow> 's"
where
  "guard_step mark query (Mark k t) s = mark k t s"
| "guard_step mark query (Query k t) s = snd (query k t s)"

fun guard_run ::
  "('k \<Rightarrow> int \<Rightarrow> 's \<Rightarrow> 's) \<Rightarrow> ('k \<Rightarrow> int \<Rightarrow> 's \<Rightarrow> bool \<times> 's) \<Rightarrow> 'k guard_event list \<Rightarrow> 's \<Rightarrow> 's"
where
  "guard_run mark query [] s = s"
| "guard_run mark query (e # es) s = guard_run mark query es (guard_step mark query e s)"

section \<open>Closed vocabularies\<close>

locale closed_vocabulary =
  fixes all :: "'k list"
    and name :: "'k \<Rightarrow> string"
  assumes complete: "k \<in> set all"
    and names_distinct: "distinct (map name all)"
begin

lemma name_inj: "name k = name k' \<Longrightarrow> k = k'"
  using names_distinct complete [of k] complete [of k'] by (auto simp: distinct_map inj_on_def)

lemma find_name [simp]: "List.find (\<lambda>k. name k = name k') all = Some k'"
proof -
  obtain k where "List.find (\<lambda>k. name k = name k') all = Some k"
    using complete [of k'] by (cases "List.find (\<lambda>k. name k = name k') all")
      (auto simp: find_None_iff)
  moreover from this have "name k = name k'" by (auto simp: find_Some_iff)
  ultimately show ?thesis by (auto dest: name_inj)
qed

lemma find_name_iff: "List.find (\<lambda>k. name k = raw) all = Some k' \<longleftrightarrow> name k' = raw"
proof
  assume "List.find (\<lambda>k. name k = raw) all = Some k'"
  then show "name k' = raw" by (auto simp: find_Some_iff)
next
  assume "name k' = raw"
  then show "List.find (\<lambda>k. name k = raw) all = Some k'" using find_name [of k'] by simp
qed

lemma find_name_None: "List.find (\<lambda>k. name k = raw) all = None \<longleftrightarrow> raw \<notin> range name"
  using complete by (auto simp: find_None_iff)

end

section \<open>Machines with absorbing states\<close>

locale absorbing_machine =
  fixes step :: "'s \<Rightarrow> 's \<Rightarrow> bool"
    and terminal :: "'s \<Rightarrow> bool"
  assumes terminal_stuck: "terminal s \<Longrightarrow> \<not> step s t"
begin

lemma terminal_absorbing: "step\<^sup>*\<^sup>* s t \<Longrightarrow> terminal s \<Longrightarrow> t = s"
  by (induction rule: rtranclp_induct) (auto dest: terminal_stuck)

lemma terminal_unique:
  assumes "step\<^sup>*\<^sup>* s t" and "step\<^sup>*\<^sup>* t u" and "terminal t"
  shows "u = t"
  using assms terminal_absorbing by blast

end

section \<open>Window guards\<close>

text \<open>
  \<open>remembered k t s\<close>: the state holds key \<open>k\<close> with the instant \<open>t\<close>. Two keys conflict
  when marking one may forget the other.
\<close>

locale window_guard =
  fixes mark :: "'k \<Rightarrow> int \<Rightarrow> 's \<Rightarrow> 's"
    and query :: "'k \<Rightarrow> int \<Rightarrow> 's \<Rightarrow> bool \<times> 's"
    and window :: "'s \<Rightarrow> int"
    and remembered :: "'k \<Rightarrow> int \<Rightarrow> 's \<Rightarrow> bool"
    and conflict :: "'k \<Rightarrow> 'k \<Rightarrow> bool"
    and wf :: "'s \<Rightarrow> bool"
  assumes mark_fresh:
      "wf s \<Longrightarrow> \<not> fst (query k now s) \<Longrightarrow> remembered k now (mark k now (snd (query k now s)))"
    and mark_keeps:
      "wf s \<Longrightarrow> remembered k t s \<Longrightarrow> t \<le> now \<Longrightarrow> \<not> conflict k k' \<Longrightarrow>
       \<exists>t'. t \<le> t' \<and> t' \<le> now \<and> remembered k t' (mark k' now s)"
    and query_keeps:
      "wf s \<Longrightarrow> remembered k t s \<Longrightarrow> now - window s < t \<Longrightarrow> remembered k t (snd (query k' now s))"
    and query_sound:
      "wf s \<Longrightarrow> fst (query k now s) \<longleftrightarrow> (\<exists>t. remembered k t s \<and> now - window s < t)"
    and window_mark: "window (mark k now s) = window s"
    and window_query: "window (snd (query k now s)) = window s"
    and wf_mark: "wf s \<Longrightarrow> wf (mark k now s)"
    and wf_query: "wf s \<Longrightarrow> wf (snd (query k now s))"
begin

lemma window_step [simp]: "window (guard_step mark query e s) = window s"
  by (cases e) (auto simp: window_mark window_query)

lemma wf_step: "wf s \<Longrightarrow> wf (guard_step mark query e s)"
  by (cases e) (auto simp: wf_mark wf_query)

lemma wf_run: "wf s \<Longrightarrow> wf (guard_run mark query es s)"
  by (induction es arbitrary: s) (auto simp: wf_step)

lemma step_keeps:
  assumes "wf s" and "remembered k t s" and "t \<le> guard_time e"
    and "guard_time e - window s < t"
    and "\<forall>k' u. e = Mark k' u \<longrightarrow> \<not> conflict k k'"
  shows "\<exists>t'. t \<le> t' \<and> t' \<le> guard_time e \<and> remembered k t' (guard_step mark query e s)"
proof (cases e)
  case (Mark k' u)
  with assms show ?thesis using mark_keeps [of s k t u k'] by simp
next
  case (Query k' u)
  with assms have "remembered k t (snd (query k' u s))" by (intro query_keeps) simp_all
  with Query assms(3) show ?thesis by auto
qed

text \<open>
  A key once remembered stays so until its window has passed, whatever marks and
  queries of other, non-conflicting keys come in between.
\<close>

lemma run_keeps:
  assumes "wf s" and "remembered k t s" and "sorted (t # map guard_time es @ [now])"
    and "now - window s < t"
    and "\<forall>k' u. Mark k' u \<in> set es \<longrightarrow> \<not> conflict k k'"
  shows "\<exists>t' \<ge> t. remembered k t' (guard_run mark query es s)"
  using assms
proof (induction es arbitrary: s t)
  case Nil
  then show ?case by auto
next
  case (Cons e es)
  have e: "guard_time e \<le> now" "t \<le> guard_time e" using Cons.prems(3) by auto
  then have "\<exists>t'. t \<le> t' \<and> t' \<le> guard_time e \<and> remembered k t' (guard_step mark query e s)"
    using Cons.prems by (intro step_keeps) auto
  then obtain t' where t': "t \<le> t'" "t' \<le> guard_time e"
    "remembered k t' (guard_step mark query e s)" by blast
  have "\<exists>t'' \<ge> t'. remembered k t'' (guard_run mark query es (guard_step mark query e s))"
  proof (rule Cons.IH)
    show "wf (guard_step mark query e s)" using Cons.prems(1) by (rule wf_step)
    show "remembered k t' (guard_step mark query e s)" by (fact t'(3))
    show "sorted (t' # map guard_time es @ [now])" using Cons.prems(3) t'(2) by fastforce
    show "now - window (guard_step mark query e s) < t'" using Cons.prems(4) t'(1) by simp
    show "\<forall>k' u. Mark k' u \<in> set es \<longrightarrow> \<not> conflict k k'" using Cons.prems(5) by simp
  qed
  then obtain t'' where "t' \<le> t''"
    "remembered k t'' (guard_run mark query es (guard_step mark query e s))" by blast
  with t'(1) show ?case by (intro exI [of _ t'']) simp
qed

lemma window_run [simp]: "window (guard_run mark query es s) = window s"
  by (induction es arbitrary: s) auto

text \<open>
  The client's guarantee: after a query that let the key through and the mark that
  follows it, every query of that key within the window answers "blocked".
\<close>

lemma marked_stays_blocked:
  assumes "wf s" and "\<not> fst (query k t s)"
    and "sorted (t # map guard_time es @ [now])" and "now - window s < t"
    and "\<forall>k' u. Mark k' u \<in> set es \<longrightarrow> \<not> conflict k k'"
  shows "fst (query k now (guard_run mark query es (mark k t (snd (query k t s)))))"
proof -
  let ?s = "mark k t (snd (query k t s))"
  have "\<exists>t' \<ge> t. remembered k t' (guard_run mark query es ?s)"
  proof (rule run_keeps)
    show "wf ?s" using assms(1) by (intro wf_mark wf_query)
    show "remembered k t ?s" using assms(1,2) by (rule mark_fresh)
    show "now - window ?s < t" using assms(4) by (simp add: window_mark window_query)
  qed (use assms(3,5) in simp_all)
  then obtain t' where "t \<le> t'" "remembered k t' (guard_run mark query es ?s)" by blast
  moreover have "wf (guard_run mark query es ?s)"
    using assms(1) by (intro wf_run wf_mark wf_query)
  moreover have "now - window (guard_run mark query es ?s) < t'"
    using assms(4) \<open>t \<le> t'\<close> by (simp add: window_mark window_query)
  ultimately show ?thesis using query_sound by blast
qed

end

section \<open>Stores\<close>

locale transactional_store =
  fixes exec :: "'op \<Rightarrow> 's \<Rightarrow> 'e + 'r \<times> 's"
    and inv :: "'s \<Rightarrow> bool"
  assumes exec_inv: "inv s \<Longrightarrow> exec x s = Inr (r, s') \<Longrightarrow> inv s'"
begin

lemma run_inv: "inv s \<Longrightarrow> inv (run_ops exec xs s)"
proof (induction xs arbitrary: s)
  case (Cons x xs)
  have "inv (case exec x s of Inl _ \<Rightarrow> s | Inr (_, s') \<Rightarrow> s')"
    using Cons.prems by (cases "exec x s") (auto intro: exec_inv)
  then show ?case using Cons.IH by simp
qed simp

end

text \<open>
  \<open>fact k s\<close> is the settled fact about \<open>k\<close>, if there is one; \<open>forgets x k s\<close> says that
  operation \<open>x\<close> is the removal of \<open>k\<close> (a purge past its retention).
\<close>

locale durable_store = transactional_store exec inv
  for exec :: "'op \<Rightarrow> 's \<Rightarrow> 'e + 'r \<times> 's" and inv :: "'s \<Rightarrow> bool" +
  fixes fact :: "'k \<Rightarrow> 's \<Rightarrow> 'v option"
    and forgets :: "'op \<Rightarrow> 'k \<Rightarrow> 's \<Rightarrow> bool"
  assumes fact_stable:
    "inv s \<Longrightarrow> fact k s = Some v \<Longrightarrow> exec x s = Inr (r, s') \<Longrightarrow> \<not> forgets x k s \<Longrightarrow>
     fact k s' = Some v"
begin

lemma run_fact:
  assumes "inv s" and "fact k s = Some v" and "kept_ops exec forgets k xs s"
  shows "fact k (run_ops exec xs s) = Some v"
  using assms
proof (induction xs arbitrary: s)
  case (Cons x xs)
  let ?s' = "case exec x s of Inl _ \<Rightarrow> s | Inr (_, s') \<Rightarrow> s'"
  have "inv ?s'"
    using Cons.prems(1) by (cases "exec x s") (auto intro: exec_inv)
  moreover have "fact k ?s' = Some v"
  proof (cases "exec x s")
    case (Inr p)
    obtain r s' where "p = (r, s')" by (cases p)
    with Inr Cons.prems show ?thesis using fact_stable [of s k v x r s'] by simp
  qed (use Cons.prems in simp)
  moreover have "kept_ops exec forgets k xs ?s'" using Cons.prems(3) by simp
  ultimately show ?case using Cons.IH by simp
qed simp

end

end
