(* ===== verification/Circuit_Breaker.thy ===== *)
theory Circuit_Breaker
  imports Contracts
begin

text \<open>
  The circuit breaker of \<open>crates/bridget-core/src/circuit_breaker.rs\<close>: a sliding window
  of exchange instants per conversation. An \<open>Instant\<close> is an \<open>int\<close> of nanoseconds, a
  \<open>Duration\<close> likewise; \<open>HashMap<String, VecDeque<Instant>>\<close> is a map from keys to lists.
  The variants without a clock (\<open>check\<close>, \<open>record\<close>, \<open>count\<close>) are the \<open>_at\<close> ones at
  \<open>Instant::now()\<close>.

  The abstract specification is the log of all exchanges ever recorded; the refinement
  lemma says that pruning the deque never changes an answer.
\<close>

record circuit_breaker =
  cb_window :: int
  cb_limit :: nat
  cb_history :: "string \<rightharpoonup> int list"

definition conv_key :: "string \<Rightarrow> string \<Rightarrow> string" where
  "conv_key from to =
     (if from \<le> to then from @ ''|'' @ to else to @ ''|'' @ from)"

definition cb_new :: "nat \<Rightarrow> nat \<Rightarrow> circuit_breaker" where
  "cb_new window_secs limit =
     \<lparr>cb_window = int window_secs * 1000000000, cb_limit = limit, cb_history = Map.empty\<rparr>"

definition check_at :: "circuit_breaker \<Rightarrow> string \<Rightarrow> string \<Rightarrow> int \<Rightarrow> bool" where
  "check_at cb from to now =
     (let key = conv_key from to; cutoff = now - cb_window cb
      in case cb_history cb key of
           None \<Rightarrow> True
         | Some entries \<Rightarrow> length (filter (\<lambda>ts. cutoff < ts) entries) < cb_limit cb)"

definition record_at :: "circuit_breaker \<Rightarrow> string \<Rightarrow> string \<Rightarrow> int \<Rightarrow> circuit_breaker" where
  "record_at cb from to now =
     (let key = conv_key from to; cutoff = now - cb_window cb;
          entries = (case cb_history cb key of None \<Rightarrow> [] | Some es \<Rightarrow> es) @ [now]
      in cb\<lparr>cb_history := (cb_history cb)(key \<mapsto> dropWhile (\<lambda>front. front \<le> cutoff) entries)\<rparr>)"

definition count_at :: "circuit_breaker \<Rightarrow> string \<Rightarrow> string \<Rightarrow> int \<Rightarrow> nat" where
  "count_at cb from to now =
     (let key = conv_key from to; cutoff = now - cb_window cb
      in case cb_history cb key of
           None \<Rightarrow> 0
         | Some entries \<Rightarrow> length (filter (\<lambda>ts. cutoff < ts) entries))"

definition window_secs :: "circuit_breaker \<Rightarrow> int" where
  "window_secs cb = cb_window cb div 1000000000"

subsection \<open>Specification: the log of all exchanges\<close>

type_synonym exchange = "string \<times> string \<times> int"

definition log_count :: "exchange list \<Rightarrow> int \<Rightarrow> string \<Rightarrow> int \<Rightarrow> nat" where
  "log_count log window key now =
     length (filter (\<lambda>(f, t, ts). conv_key f t = key \<and> now - window < ts) log)"

definition cb_records :: "circuit_breaker \<Rightarrow> exchange list \<Rightarrow> circuit_breaker" where
  "cb_records cb log = fold (\<lambda>(f, t, ts) cb. record_at cb f t ts) log cb"

text \<open>
  The daemon records an exchange only after the check let it through
  (\<open>prepare_dispatch\<close>, then \<open>record\<close> once the delivery is durable).
\<close>

definition cb_exchange :: "exchange \<Rightarrow> circuit_breaker \<Rightarrow> circuit_breaker" where
  "cb_exchange = (\<lambda>(f, t, ts) cb. if check_at cb f t ts then record_at cb f t ts else cb)"

definition exchange_times :: "exchange list \<Rightarrow> int list" where
  "exchange_times log = map (\<lambda>(f, t, ts). ts) log"

text \<open>\<open>cb_refines cb log now\<close>: for every query from \<open>now\<close> on, deque and log agree.\<close>

definition cb_refines :: "circuit_breaker \<Rightarrow> exchange list \<Rightarrow> int \<Rightarrow> bool" where
  "cb_refines cb log now \<longleftrightarrow>
     (\<forall>f t at. now \<le> at \<longrightarrow> count_at cb f t at = log_count log (cb_window cb) (conv_key f t) at)"

subsection \<open>Lemmas\<close>

lemma conv_key_commute: "conv_key a b = conv_key b a"
  by (auto simp: conv_key_def)

lemma conv_key_split:
  obtains x y where "conv_key a b = x @ ''|'' @ y" and "(x, y) \<in> {(a, b), (b, a)}"
  using that [of a b] that [of b a] by (cases "a \<le> b") (simp_all add: conv_key_def)

lemma conv_key_inject:
  assumes "CHR ''|'' \<notin> set a" "CHR ''|'' \<notin> set b" "CHR ''|'' \<notin> set c" "CHR ''|'' \<notin> set d"
    and "conv_key a b = conv_key c d"
  shows "{a, b} = {c, d}"
proof -
  have split: "x = x' \<and> y = y'"
    if "x @ ''|'' @ y = x' @ ''|'' @ y'" "CHR ''|'' \<notin> set x" "CHR ''|'' \<notin> set x'" for x y x' y'
  proof -
    have "x = takeWhile (\<lambda>ch. ch \<noteq> CHR ''|'') (x @ ''|'' @ y)"
      using that(2) by (induction x) auto
    moreover have "x' = takeWhile (\<lambda>ch. ch \<noteq> CHR ''|'') (x' @ ''|'' @ y')"
      using that(3) by (induction x') auto
    ultimately have "x = x'" using that(1) by simp
    then show ?thesis using that(1) by simp
  qed
  obtain x y where xy: "conv_key a b = x @ ''|'' @ y" "(x, y) \<in> {(a, b), (b, a)}"
    by (rule conv_key_split)
  obtain x' y' where xy': "conv_key c d = x' @ ''|'' @ y'" "(x', y') \<in> {(c, d), (d, c)}"
    by (rule conv_key_split)
  have "x = x' \<and> y = y'"
  proof (rule split)
    show "x @ ''|'' @ y = x' @ ''|'' @ y'" using assms(5) by (simp only: xy(1) xy'(1))
    show "CHR ''|'' \<notin> set x" using xy(2) assms(1,2) by blast
    show "CHR ''|'' \<notin> set x'" using xy'(2) assms(3,4) by blast
  qed
  with xy(2) xy'(2) show ?thesis by blast
qed

lemma cb_window_record_at [simp]: "cb_window (record_at cb f t now) = cb_window cb"
  by (simp add: record_at_def Let_def)

lemma cb_limit_record_at [simp]: "cb_limit (record_at cb f t now) = cb_limit cb"
  by (simp add: record_at_def Let_def)

lemma cb_window_exchange [simp]: "cb_window (cb_exchange e cb) = cb_window cb"
  by (cases e) (simp add: cb_exchange_def)

lemma cb_limit_exchange [simp]: "cb_limit (cb_exchange e cb) = cb_limit cb"
  by (cases e) (simp add: cb_exchange_def)

lemma check_at_count: "0 < cb_limit cb \<Longrightarrow> check_at cb f t now \<longleftrightarrow> count_at cb f t now < cb_limit cb"
  by (auto simp: check_at_def count_at_def Let_def split: option.splits)

lemma filter_dropWhile_below:
  assumes "(c::int) \<le> d"
  shows "filter (\<lambda>ts. d < ts) (dropWhile (\<lambda>x. x \<le> c) xs) = filter (\<lambda>ts. d < ts) xs"
  using assms by (induction xs) auto

lemma count_at_record_at:
  assumes "now \<le> at"
  shows "count_at (record_at cb f t now) f' t' at =
    count_at cb f' t' at +
    (if conv_key f' t' = conv_key f t \<and> at - cb_window cb < now then 1 else 0)"
  using assms
  by (auto simp: count_at_def record_at_def Let_def filter_dropWhile_below split: option.splits)

lemma cb_refines_new: "cb_refines (cb_new w l) [] now"
  by (simp add: cb_refines_def cb_new_def count_at_def log_count_def Let_def)

lemma cb_refines_later: "cb_refines cb log now \<Longrightarrow> now \<le> now' \<Longrightarrow> cb_refines cb log now'"
  by (auto simp: cb_refines_def)

lemma cb_refines_record:
  assumes "cb_refines cb log now" and "now \<le> ts"
  shows "cb_refines (record_at cb f t ts) (log @ [(f, t, ts)]) ts"
  using assms by (auto simp: cb_refines_def count_at_record_at log_count_def)

lemma cb_refines_records:
  assumes "cb_refines cb log now" and "sorted (now # exchange_times es)"
  shows "cb_refines (cb_records cb es) (log @ es) (last (now # exchange_times es))"
  using assms
proof (induction es arbitrary: cb log now)
  case Nil
  then show ?case by (simp add: cb_records_def exchange_times_def)
next
  case (Cons e es)
  obtain f t ts where e: "e = (f, t, ts)" by (cases e)
  have "cb_refines (record_at cb f t ts) (log @ [(f, t, ts)]) ts"
    using Cons.prems by (intro cb_refines_record) (auto simp: e exchange_times_def)
  then have "cb_refines (cb_records (record_at cb f t ts) es) ((log @ [(f, t, ts)]) @ es)
      (last (ts # exchange_times es))"
    using Cons.prems by (intro Cons.IH) (auto simp: e exchange_times_def)
  then show ?case by (simp add: e cb_records_def exchange_times_def)
qed

lemma cb_window_records [simp]: "cb_window (cb_records cb es) = cb_window cb"
  by (induction es arbitrary: cb) (auto simp: cb_records_def)

text \<open>One guarded exchange keeps every later count within the limit.\<close>

lemma count_at_mono_time:
  assumes "at \<le> at'"
  shows "count_at cb f t at' \<le> count_at cb f t at"
proof -
  have "length (filter (\<lambda>ts. at' - w < ts) es) \<le> length (filter (\<lambda>ts. at - w < ts) es)"
    for es :: "int list" and w
    using assms by (induction es) auto
  then show ?thesis by (auto simp: count_at_def Let_def split: option.splits)
qed

lemma cb_exchange_count_le:
  assumes "\<forall>f t. count_at cb f t now \<le> cb_limit cb" and "now \<le> ts" and "ts \<le> at"
    and "0 < cb_limit cb"
  shows "count_at (cb_exchange (f', t', ts) cb) f t at \<le> cb_limit cb"
proof -
  have le: "count_at cb f t at \<le> count_at cb f t ts" "count_at cb f t ts \<le> cb_limit cb"
    using assms count_at_mono_time by (blast, meson order_trans)
  show ?thesis
  proof (cases "check_at cb f' t' ts")
    case True
    then have "count_at cb f' t' ts < cb_limit cb" using assms(4) by (simp add: check_at_count)
    moreover have "count_at cb f t ts = count_at cb f' t' ts" if "conv_key f t = conv_key f' t'"
      using that by (simp add: count_at_def)
    ultimately show ?thesis
      using True assms(3) le by (auto simp: cb_exchange_def count_at_record_at)
  next
    case False
    with le show ?thesis by (simp add: cb_exchange_def)
  qed
qed

lemma cb_exchanges_count_le:
  assumes "\<forall>f t. count_at cb f t now \<le> cb_limit cb" and "0 < cb_limit cb"
    and "sorted (now # exchange_times es @ [at])"
  shows "count_at (fold cb_exchange es cb) f t at \<le> cb_limit cb"
  using assms
proof (induction es arbitrary: cb now)
  case Nil
  then have "count_at cb f t at \<le> count_at cb f t now" "count_at cb f t now \<le> cb_limit cb"
    using count_at_mono_time [of now at cb f t] by (simp_all add: exchange_times_def)
  then show ?case by simp
next
  case (Cons e es)
  obtain f' t' ts where e: "e = (f', t', ts)" by (cases e)
  have "\<forall>f t. count_at (cb_exchange e cb) f t ts \<le> cb_limit (cb_exchange e cb)"
    using Cons.prems by (auto simp: e exchange_times_def intro: cb_exchange_count_le)
  then have "count_at (fold cb_exchange es (cb_exchange e cb)) f t at \<le> cb_limit (cb_exchange e cb)"
    using Cons.prems by (intro Cons.IH) (auto simp: e exchange_times_def)
  then show ?case by simp
qed

section \<open>Properties\<close>

text \<open>
  C25. Refinement. After any sequence of recorded exchanges in time order, on a fresh
  breaker, the number of recent exchanges it reports for a conversation at any later
  instant is the number of exchanges of the whole log between the same two agents, in
  either direction, that are younger than the window: the pruning of the deque loses
  nothing that a later query could still count.
\<close>

theorem circuit_breaker_refines_log:
  assumes "sorted (t0 # exchange_times es)" and "last (t0 # exchange_times es) \<le> at"
  shows "count_at (cb_records (cb_new w l) es) f t at =
    log_count es (int w * 1000000000) (conv_key f t) at"
proof -
  have "cb_refines (cb_records (cb_new w l) es) ([] @ es) (last (t0 # exchange_times es))"
    using cb_refines_new assms(1) by (rule cb_refines_records)
  then show ?thesis
    using assms(2) by (simp add: cb_refines_def) (simp add: cb_new_def)
qed

theorem circuit_breaker_refines_log_witness:
  "count_at (cb_records (cb_new 1 3) [(''a'', ''b'', 5), (''b'', ''a'', 7)]) ''a'' ''b'' 1000000006 = 1"
  using circuit_breaker_refines_log [of 0 "[(''a'', ''b'', 5), (''b'', ''a'', 7)]" 1000000006 1 3 "''a''" "''b''"]
  by (simp add: exchange_times_def log_count_def conv_key_def)

text \<open>
  C26. The bound the breaker promises. When the daemon records only what the check let
  through, then at every instant, in every conversation, at most \<open>limit\<close> recorded
  exchanges are younger than the window, for every positive limit and every sequence of
  attempts in time order.
\<close>

theorem circuit_breaker_bounds_conversations:
  assumes "0 < l" and "sorted (t0 # exchange_times es @ [at])"
  shows "count_at (fold cb_exchange es (cb_new w l)) f t at \<le> l"
proof -
  have "count_at (fold cb_exchange es (cb_new w l)) f t at \<le> cb_limit (cb_new w l)"
    using assms by (intro cb_exchanges_count_le)
      (auto simp: cb_new_def count_at_def Let_def)
  then show ?thesis by (simp add: cb_new_def)
qed

theorem circuit_breaker_bounds_conversations_witness:
  "count_at (fold cb_exchange [(''a'', ''b'', 1), (''b'', ''a'', 2), (''a'', ''b'', 3)] (cb_new 60 2))
     ''a'' ''b'' 4 \<le> 2"
  by (rule circuit_breaker_bounds_conversations [of _ 0]) (simp_all add: exchange_times_def)

end
