(* ===== verification/Message.thy ===== *)
theory Message
  imports Rust_Text
begin

text \<open>
  The message that travels between agents (\<open>crates/bridget-core/src/message.rs\<close>), the
  characters that lie on display (\<open>text_guards.rs\<close>) and the name of a machine
  (\<open>host.rs\<close>). \<open>hops\<close> is an \<open>i32\<close> and is decremented with wrap-around, as in a release
  build. Two things come from outside: the text of a fresh UUID (\<open>message_new\<close>) and the
  standard library's unspecified \<open>DefaultHasher\<close> (\<open>content_key\<close>); both are arguments.
\<close>

datatype AgentType = Codex | Claude | Gemini | Shell | Custom string

fun agent_type_display :: "AgentType \<Rightarrow> string" where
  "agent_type_display Codex = ''codex''"
| "agent_type_display Claude = ''claude''"
| "agent_type_display Gemini = ''gemini''"
| "agent_type_display Shell = ''shell''"
| "agent_type_display (Custom s) = s"

datatype MessageOrigin = Human | Agent | Routine | System

datatype MessageIntent =
  QueueOnly | TriggerTurn | SteerCurrent | InterruptAndStart | ControlOnly

record DelegatedOrigin =
  do_provider :: string
  do_child_ref :: string

record ThreadNotice =
  tn_version :: nat
  tn_thread_id :: string
  tn_through_seq :: nat
  tn_generation :: nat

record BridgetMessage =
  cross_project_reason :: "string option"
  msg_id :: string
  msg_from :: string
  from_display_name :: "string option"
  thread_display_title :: "string option"
  msg_to :: string
  body :: string
  reply :: bool
  hops :: i32
  reply_timeout :: "nat option"
  deadline_at :: "nat option"
  in_reply_to :: "string option"
  from_declared :: bool
  origin :: "MessageOrigin option"
  intent :: "MessageIntent option"
  references :: "string list"
  delegated_origin :: "DelegatedOrigin option"
  thread_notice :: "ThreadNotice option"

definition default_hops :: i32 where
  "default_hops = 4"

definition message_new :: "string \<Rightarrow> string \<Rightarrow> string \<Rightarrow> string \<Rightarrow> BridgetMessage" where
  "message_new uuid from to bdy =
     \<lparr>cross_project_reason = None,
      msg_id = take_chars 13 (filter (\<lambda>c. c \<noteq> CHR ''-'') uuid),
      msg_from = from, from_display_name = None, thread_display_title = None,
      msg_to = to, body = bdy, reply = False, hops = default_hops,
      reply_timeout = None, deadline_at = None, in_reply_to = None, from_declared = False,
      origin = None, intent = None, references = [], delegated_origin = None,
      thread_notice = None\<rparr>"

definition decrement_hops :: "BridgetMessage \<Rightarrow> bool \<times> BridgetMessage" where
  "decrement_hops msg =
     (let msg' = msg\<lparr>hops := hops msg - 1\<rparr> in (0 <s hops msg', msg'))"

definition content_key ::
  "(string \<times> string \<times> string option \<Rightarrow> string) \<Rightarrow> BridgetMessage \<Rightarrow> string"
where
  "content_key hasher msg = hasher (msg_to msg, body msg, in_reply_to msg)"

definition sender_label :: "BridgetMessage \<Rightarrow> string" where
  "sender_label msg =
     (let sender = (case map_option trim (from_display_name msg) of
            Some display_name \<Rightarrow>
              if display_name \<noteq> [] \<and> display_name \<noteq> msg_from msg
              then display_name @ '' ('' @ msg_from msg @ '')'' else msg_from msg
          | None \<Rightarrow> msg_from msg)
      in case delegated_origin msg of
           Some orig \<Rightarrow>
             sender @ '' (via sous-agent '' @ do_provider orig @ '' '' @ do_child_ref orig @ '')''
         | None \<Rightarrow> sender)"

subsection \<open>\<open>text_guards.rs\<close>\<close>

definition is_format_character :: "nat \<Rightarrow> bool" where
  "is_format_character c \<longleftrightarrow>
     c = 0x00AD \<or> c = 0x061C \<or> c = 0x06DD \<or> c = 0x070F \<or> 0x0890 \<le> c \<and> c \<le> 0x0891 \<or>
     c = 0x08E2 \<or> c = 0x180E \<or> 0x200B \<le> c \<and> c \<le> 0x200F \<or> 0x202A \<le> c \<and> c \<le> 0x202E \<or>
     0x2060 \<le> c \<and> c \<le> 0x2064 \<or> 0x2066 \<le> c \<and> c \<le> 0x206F \<or> c = 0xFEFF \<or>
     0xFFF9 \<le> c \<and> c \<le> 0xFFFB \<or> c = 0x110BD \<or> c = 0x110CD \<or>
     0x13430 \<le> c \<and> c \<le> 0x1345F \<or> 0x1BCA0 \<le> c \<and> c \<le> 0x1BCA3 \<or>
     0x1D173 \<le> c \<and> c \<le> 0x1D17A \<or> c = 0xE0001 \<or> 0xE0020 \<le> c \<and> c \<le> 0xE007F \<or>
     0xFE00 \<le> c \<and> c \<le> 0xFE0F \<or> 0xE0100 \<le> c \<and> c \<le> 0xE01EF \<or>
     0x0600 \<le> c \<and> c \<le> 0x0605 \<or> c = 0x2065"

definition is_disallowed_control :: "nat \<Rightarrow> bool" where
  "is_disallowed_control c \<longleftrightarrow> is_control c \<or> is_format_character c"

subsection \<open>\<open>host.rs\<close>\<close>

definition HOTE_NON_ATTESTE :: string where
  "HOTE_NON_ATTESTE = ''inconnu''"

definition host_is_attested :: "string \<Rightarrow> bool" where
  "host_is_attested host = (let h = trim host in h \<noteq> [] \<and> h \<noteq> HOTE_NON_ATTESTE)"

text \<open>The environment variable and the output of the \<open>hostname\<close> command are arguments.\<close>

definition local_host :: "string option \<Rightarrow> string option \<Rightarrow> string" where
  "local_host env output =
     (case env of
        Some host \<Rightarrow>
          if trim host \<noteq> [] then trim host
          else (case map_option trim output of
                  Some h \<Rightarrow> if h \<noteq> [] then h else HOTE_NON_ATTESTE
                | None \<Rightarrow> HOTE_NON_ATTESTE)
      | None \<Rightarrow>
          (case map_option trim output of
             Some h \<Rightarrow> if h \<noteq> [] then h else HOTE_NON_ATTESTE
           | None \<Rightarrow> HOTE_NON_ATTESTE))"

subsection \<open>\<open>envelope.rs\<close>: the text shown to the recipient\<close>

definition HUMAN_REPLY_NOTICE :: string where
  "HUMAN_REPLY_NOTICE =
     ''Instruction de l'' @ [CHR 0xE2, CHR 0x80, CHR 0x99] @ ''utilisateur : r'' @
     [CHR 0xC3, CHR 0xA9] @ ''ponds normalement dans ce fil, que l'' @
     [CHR 0xE2, CHR 0x80, CHR 0x99] @ ''utilisateur lit depuis Bridget. N'' @
     [CHR 0xE2, CHR 0x80, CHR 0x99] @ ''envoie pas de message au destinataire '' @
     [CHR 0xC2, CHR 0xAB] @ '' human '' @ [CHR 0xC2, CHR 0xBB] @ '' : ce nom n'' @
     [CHR 0xE2, CHR 0x80, CHR 0x99] @ ''est pas routable. Pour une demande simple, r'' @
     [CHR 0xC3, CHR 0xA9] @ ''ponds directement ; aucun outil Bridget n'' @
     [CHR 0xE2, CHR 0x80, CHR 0x99] @ ''est n'' @ [CHR 0xC3, CHR 0xA9] @
     ''cessaire pour transmettre ta r'' @ [CHR 0xC3, CHR 0xA9] @ ''ponse.''"

definition NO_REPLY_NOTICE :: string where
  "NO_REPLY_NOTICE =
     ''Pas d'' @ [CHR 0x27] @ ''accus'' @ [CHR 0xC3, CHR 0xA9] @ '' de r'' @ [CHR 0xC3, CHR 0xA9] @
     ''ception : n'' @ [CHR 0x27] @ ''envoie aucun '' @ [CHR 0xC2, CHR 0xAB] @ '' bien re'' @
     [CHR 0xC3, CHR 0xA7] @ ''u '' @ [CHR 0xC2, CHR 0xBB] @ '', m'' @ [CHR 0xC3, CHR 0xAA] @
     ''me pour annoncer ton silence. Ce n'' @ [CHR 0x27] @ ''est pas une absence de t'' @
     [CHR 0xC3, CHR 0xA2] @ ''che : si ce message demande une action, fais-la. Ta r'' @
     [CHR 0xC3, CHR 0xA9] @ ''ponse finale ne sera pas relay'' @ [CHR 0xC3, CHR 0xA9] @
     ''e ; pour transmettre un r'' @ [CHR 0xC3, CHR 0xA9] @ ''sultat '' @ [CHR 0xC3, CHR 0xA0] @
     '' l'' @ [CHR 0x27] @ ''exp'' @ [CHR 0xC3, CHR 0xA9] @
     ''diteur, fais un nouvel envoi Bridget.''"

definition is_human_instruction :: "BridgetMessage \<Rightarrow> bool" where
  "is_human_instruction msg \<longleftrightarrow>
     origin msg = Some Human \<or>
     (origin msg = None \<and> (msg_from msg = ''human'' \<or> msg_from msg = ''humain'') \<and>
      delegated_origin msg = None)"

definition no_reply_notice :: "BridgetMessage \<Rightarrow> string" where
  "no_reply_notice msg = (if is_human_instruction msg then HUMAN_REPLY_NOTICE else NO_REPLY_NOTICE)"

definition wrap_envelope :: "BridgetMessage \<Rightarrow> string" where
  "wrap_envelope msg =
     (if \<not> reply msg \<and> is_human_instruction msg then
        [CHR 0xF0, CHR 0x9F, CHR 0x92, CHR 0xAC] @ '' Instruction de l'' @
        [CHR 0xE2, CHR 0x80, CHR 0x99] @ ''utilisateur (id='' @ msg_id msg @ '')'' @ [CHR 0x0A] @
        body msg @ [CHR 0x0A, CHR 0x0A] @ HUMAN_REPLY_NOTICE
      else if reply msg then
        [CHR 0xF0, CHR 0x9F, CHR 0x92, CHR 0xAC] @ '' '' @ msg_from msg @ '' '' @
        [CHR 0xE2, CHR 0x86, CHR 0x92] @ '' '' @ msg_to msg @ '' (reply=yes, id='' @ msg_id msg @ '')'' @
        [CHR 0x0A] @ body msg @ [CHR 0x0A, CHR 0x0A, CHR 0xE2, CHR 0x9A, CHR 0xA0] @ '' Tu DOIS r'' @
        [CHR 0xC3, CHR 0xA9] @ ''pondre '' @ [CHR 0xC3, CHR 0xA0] @ '' '' @ msg_from msg @
        '' avec: bridget reply '' @ [CHR 0x22] @ ''ta r'' @ [CHR 0xC3, CHR 0xA9] @ ''ponse'' @
        [CHR 0x22, CHR 0x0A] @ ''Ne r'' @ [CHR 0xC3, CHR 0xA9] @ ''ponds pas ici. Ne dis pas '' @
        [CHR 0x22] @ ''bien re'' @ [CHR 0xC3, CHR 0xA7] @ ''u'' @ [CHR 0x22] @ ''. R'' @
        [CHR 0xC3, CHR 0xA9] @ ''ponds avec du contenu utile.''
      else
        [CHR 0xF0, CHR 0x9F, CHR 0x92, CHR 0xAC] @ '' '' @ msg_from msg @ '' '' @
        [CHR 0xE2, CHR 0x86, CHR 0x92] @ '' '' @ msg_to msg @ '' (reply=no, id='' @ msg_id msg @ '')'' @
        [CHR 0x0A] @ body msg @ [CHR 0x0A, CHR 0x0A] @ NO_REPLY_NOTICE)"

subsection \<open>Lemmas\<close>

lemma decrement_hops_hops [simp]: "hops (snd (decrement_hops msg)) = hops msg - 1"
  by (simp add: decrement_hops_def Let_def)

lemma content_key_snd_decrement [simp]:
  "content_key h (snd (decrement_hops msg)) = content_key h msg"
  by (simp add: content_key_def decrement_hops_def Let_def)

lemma sint_decrement:
  fixes w :: i32
  assumes "- 2147483648 < sint w"
  shows "sint (w - 1) = sint w - 1"
proof -
  have "sint w < 2 ^ 31" using sint_less [of w] by simp
  then have "- (2 ^ 31) \<le> sint w - 1 \<and> sint w - 1 < 2 ^ 31" using assms by simp
  then show ?thesis
    by (simp add: sint_word_ariths signed_take_bit_int_eq_self)
qed

lemma decrement_hops_live_iff:
  assumes "- 2147483648 < sint (hops msg)"
  shows "fst (decrement_hops msg) \<longleftrightarrow> 1 < sint (hops msg)"
  using assms by (simp add: decrement_hops_def Let_def word_sless_alt sint_decrement)

lemma local_host_never_blank: "local_host env output \<noteq> []"
  by (auto simp: local_host_def HOTE_NON_ATTESTE_def split: option.splits)

end
