(* ===== verification/Window_Guards.thy ===== *)
theory Window_Guards
  imports Contracts Message
begin

text \<open>
  The two memories that stop a message from being sent twice: the content deduplicator of
  \<open>crates/bridget-core/src/dedup.rs\<close> and the quarantine of relayed message ids of
  \<open>crates/bridget-core/src/envelope.rs\<close>. \<open>Instant::now()\<close> is the argument \<open>now\<close>. Both
  implement the interface \<open>window_guard\<close>.
\<close>

section \<open>Deduplicator\<close>

record Deduplicator =
  dd_window :: int
  dd_entries :: "string \<rightharpoonup> int \<times> string"

definition dedup_new :: "nat \<Rightarrow> Deduplicator" where
  "dedup_new window_secs = \<lparr>dd_window = int window_secs * 1000000000, dd_entries = Map.empty\<rparr>"

definition dedup_prune :: "int \<Rightarrow> Deduplicator \<Rightarrow> Deduplicator" where
  "dedup_prune now d =
     (let cutoff = now - dd_window d
      in d\<lparr>dd_entries := (\<lambda>k. case dd_entries d k of
             Some (ts, tgt) \<Rightarrow> if cutoff < ts then Some (ts, tgt) else None
           | None \<Rightarrow> None)\<rparr>)"

definition is_duplicate :: "string \<times> string \<Rightarrow> int \<Rightarrow> Deduplicator \<Rightarrow> bool \<times> Deduplicator" where
  "is_duplicate kt now d =
     (let d' = dedup_prune now d
      in ((case dd_entries d' (fst kt) of
             Some (_, stored_target) \<Rightarrow> stored_target = snd kt
           | None \<Rightarrow> False), d'))"

definition mark_sent :: "string \<times> string \<Rightarrow> int \<Rightarrow> Deduplicator \<Rightarrow> Deduplicator" where
  "mark_sent kt now d = d\<lparr>dd_entries := (dd_entries d)(fst kt \<mapsto> (now, snd kt))\<rparr>"

section \<open>Envelope guard\<close>

record EnvelopeGuard =
  seen_ids :: "(string \<times> string) set"
  eg_window :: int
  eg_entries :: "(int \<times> string \<times> string) list"

definition envelope_guard_new :: "int \<Rightarrow> EnvelopeGuard" where
  "envelope_guard_new window = \<lparr>seen_ids = {}, eg_window = window, eg_entries = []\<rparr>"

definition envelope_prune :: "int \<Rightarrow> EnvelopeGuard \<Rightarrow> EnvelopeGuard" where
  "envelope_prune now g =
     (let cutoff = now - eg_window g;
          kept = filter (\<lambda>(ts, _). cutoff < ts) (eg_entries g)
      in g\<lparr>eg_entries := kept, seen_ids := fold (\<lambda>(_, key) seen. insert key seen) kept {}\<rparr>)"

definition is_quarantined :: "string \<times> string \<Rightarrow> int \<Rightarrow> EnvelopeGuard \<Rightarrow> bool \<times> EnvelopeGuard" where
  "is_quarantined key now g = (let g' = envelope_prune now g in (key \<in> seen_ids g', g'))"

definition mark_relayed :: "string \<times> string \<Rightarrow> int \<Rightarrow> EnvelopeGuard \<Rightarrow> EnvelopeGuard" where
  "mark_relayed key now g =
     (if key \<notin> seen_ids g
      then g\<lparr>seen_ids := insert key (seen_ids g), eg_entries := eg_entries g @ [(now, key)]\<rparr>
      else g)"

section \<open>The contract\<close>

definition dedup_remembered :: "string \<times> string \<Rightarrow> int \<Rightarrow> Deduplicator \<Rightarrow> bool" where
  "dedup_remembered kt t d \<longleftrightarrow> dd_entries d (fst kt) = Some (t, snd kt)"

text \<open>
  One content key holds one target: sending the same content to another target replaces
  the memory of the first.
\<close>

definition dedup_conflict :: "string \<times> string \<Rightarrow> string \<times> string \<Rightarrow> bool" where
  "dedup_conflict k k' \<longleftrightarrow> fst k = fst k' \<and> snd k \<noteq> snd k'"

definition envelope_remembered :: "string \<times> string \<Rightarrow> int \<Rightarrow> EnvelopeGuard \<Rightarrow> bool" where
  "envelope_remembered key t g \<longleftrightarrow> (t, key) \<in> set (eg_entries g)"

definition envelope_wf :: "EnvelopeGuard \<Rightarrow> bool" where
  "envelope_wf g \<longleftrightarrow> seen_ids g = snd ` set (eg_entries g) \<and> distinct (map snd (eg_entries g))"

lemma fold_insert_keys: "fold (\<lambda>(_, key) seen. insert key seen) xs S = snd ` set xs \<union> S"
  by (induction xs arbitrary: S) auto

lemma seen_ids_prune:
  "seen_ids (envelope_prune now g) = snd ` {e \<in> set (eg_entries g). now - eg_window g < fst e}"
  by (auto simp: envelope_prune_def Let_def fold_insert_keys)

lemma eg_entries_prune:
  "set (eg_entries (envelope_prune now g)) = {e \<in> set (eg_entries g). now - eg_window g < fst e}"
  by (auto simp: envelope_prune_def Let_def)

lemma envelope_wf_prune: "envelope_wf g \<Longrightarrow> envelope_wf (envelope_prune now g)"
  by (auto simp: envelope_wf_def envelope_prune_def Let_def fold_insert_keys distinct_map_filter)

lemma envelope_wf_new: "envelope_wf (envelope_guard_new w)"
  by (simp add: envelope_wf_def envelope_guard_new_def)

lemma envelope_wf_mark: "envelope_wf g \<Longrightarrow> envelope_wf (mark_relayed key now g)"
  by (auto simp: envelope_wf_def mark_relayed_def)

interpretation dedup: window_guard mark_sent is_duplicate dd_window dedup_remembered
  dedup_conflict "\<lambda>_. True"
proof
  show "\<exists>t'. t \<le> t' \<and> t' \<le> now \<and> dedup_remembered k t' (mark_sent k' now s)"
    if "dedup_remembered k t s" "t \<le> now" "\<not> dedup_conflict k k'" for s k t now k'
    using that
    by (cases "fst k = fst k'") (auto simp: dedup_remembered_def dedup_conflict_def mark_sent_def)
  show "fst (is_duplicate k now s) \<longleftrightarrow> (\<exists>t. dedup_remembered k t s \<and> now - dd_window s < t)" for k now s
    by (auto simp: is_duplicate_def dedup_prune_def dedup_remembered_def Let_def split: option.splits)
qed (auto simp: is_duplicate_def dedup_prune_def dedup_remembered_def mark_sent_def Let_def
       split: option.splits)

interpretation quarantine: window_guard mark_relayed is_quarantined eg_window envelope_remembered
  "\<lambda>_ _. False" envelope_wf
proof
  show "envelope_remembered k now (mark_relayed k now (snd (is_quarantined k now s)))"
    if "\<not> fst (is_quarantined k now s)" for s k now
    using that by (simp add: is_quarantined_def mark_relayed_def envelope_remembered_def Let_def)
  show "\<exists>t'. t \<le> t' \<and> t' \<le> now \<and> envelope_remembered k t' (mark_relayed k' now s)"
    if "envelope_remembered k t s" "t \<le> now" for s k t now k'
    using that by (auto simp: envelope_remembered_def mark_relayed_def)
  show "envelope_remembered k t (snd (is_quarantined k' now s))"
    if "envelope_remembered k t s" "now - eg_window s < t" for s k t now k'
    using that by (simp add: envelope_remembered_def is_quarantined_def Let_def eg_entries_prune)
  show "fst (is_quarantined k now s) \<longleftrightarrow> (\<exists>t. envelope_remembered k t s \<and> now - eg_window s < t)"
    for k now s
    by (force simp: is_quarantined_def envelope_remembered_def Let_def seen_ids_prune)
  show "envelope_wf (snd (is_quarantined k now s))" if "envelope_wf s" for s k now
    using that by (simp add: is_quarantined_def Let_def envelope_wf_prune)
  show "envelope_wf (mark_relayed k now s)" if "envelope_wf s" for s k now
    using that by (rule envelope_wf_mark)
qed (auto simp: is_quarantined_def mark_relayed_def envelope_prune_def Let_def)

section \<open>Properties\<close>

text \<open>
  C37. Deduplication. Once a content that the deduplicator let through has been marked as
  sent to a target, every query of the same content for the same target within the window
  answers "duplicate", whatever queries and marks come in between, unless one of them
  marks the same content for another target.
\<close>

theorem dedup_blocks_repeats:
  assumes "\<not> fst (is_duplicate (key, target) t d)"
    and "sorted (t # map guard_time es @ [now])" and "now - dd_window d < t"
    and "\<forall>key' target' u. Mark (key', target') u \<in> set es \<longrightarrow> key' = key \<longrightarrow> target' = target"
  shows "fst (is_duplicate (key, target) now
    (guard_run mark_sent is_duplicate es (mark_sent (key, target) t (snd (is_duplicate (key, target) t d)))))"
  using assms by (intro dedup.marked_stays_blocked) (auto simp: dedup_conflict_def)

theorem dedup_blocks_repeats_witness:
  "fst (is_duplicate (''k'', ''b'') 9000000000
    (guard_run mark_sent is_duplicate [Mark (''other'', ''c'') 2, Query (''k'', ''c'') 5]
      (mark_sent (''k'', ''b'') 1 (snd (is_duplicate (''k'', ''b'') 1 (dedup_new 10))))))"
  by (rule dedup_blocks_repeats)
    (auto simp: dedup_new_def is_duplicate_def dedup_prune_def Let_def)

text \<open>
  C38. Quarantine of relayed ids. After a message id passed the quarantine query for a
  target and was marked as relayed, every query of the same pair within the window is
  blocked, whatever other queries and marks come in between (marks of the same pair
  included).
\<close>

theorem quarantine_blocks_repeats:
  assumes "envelope_wf g" and "\<not> fst (is_quarantined (mid, target) t g)"
    and "sorted (t # map guard_time es @ [now])" and "now - eg_window g < t"
  shows "fst (is_quarantined (mid, target) now
    (guard_run mark_relayed is_quarantined es
      (mark_relayed (mid, target) t (snd (is_quarantined (mid, target) t g)))))"
  using assms by (intro quarantine.marked_stays_blocked) auto

theorem quarantine_blocks_repeats_witness:
  "fst (is_quarantined (''m'', ''b'') 500
    (guard_run mark_relayed is_quarantined [Mark (''m'', ''c'') 200, Query (''n'', ''b'') 300]
      (mark_relayed (''m'', ''b'') 100
        (snd (is_quarantined (''m'', ''b'') 100 (envelope_guard_new 1000))))))"
  by (rule quarantine_blocks_repeats)
    (auto simp: envelope_wf_def envelope_guard_new_def is_quarantined_def envelope_prune_def Let_def)

end
