(* ===== verification/Router.thy ===== *)
theory Router
  imports Contracts Message
begin

text \<open>
  The table of connected agents of \<open>crates/bridget-core/src/router.rs\<close>. The \<open>uuid\<close> crate
  is a parameter: \<open>uuid_parse\<close> gives, for a text it accepts, whether the version is
  \<open>Random\<close> and the canonical hyphenated form. The iteration order of the \<open>HashMap\<close> in
  \<open>unregister_by_conn\<close> is the order of the association list; keys are unique.
\<close>

type_synonym uuid_parse = "string \<Rightarrow> (bool \<times> string) option"

definition invalid_agent_id :: string where
  "invalid_agent_id = ''agent_id doit '' @ [CHR 0xC3, CHR 0xAA] @ ''tre un UUID v4 canonique''"

definition validate_agent_id :: "uuid_parse \<Rightarrow> string \<Rightarrow> string + unit" where
  "validate_agent_id parse agent_id =
     (case parse agent_id of
        None \<Rightarrow> Inl invalid_agent_id
      | Some (random, canonical) \<Rightarrow>
          if \<not> random \<or> canonical \<noteq> agent_id then Inl invalid_agent_id else Inr ())"

definition validate_technical_label :: "string \<Rightarrow> string + unit" where
  "validate_technical_label v =
     (if v = [] \<or> 100 < length v
      then Inl (''libell'' @ [CHR 0xC3, CHR 0xA9] @ '' technique vide ou trop long'')
      else if \<not> list_all (\<lambda>b. is_ascii_alphanumeric b \<or> b = CHR ''-'' \<or> b = CHR ''_'') v
      then Inl (''libell'' @ [CHR 0xC3, CHR 0xA9] @ '' technique invalide'')
      else Inr ())"

record RegisteredAgent =
  ra_agent_id :: string
  ra_agent_type :: AgentType
  ra_connection_id :: string

datatype RouterError =
    AgentNotFound string
  | AgentAmbiguous string "string list"
  | HopsExhausted
  | SelfSend
  | InvalidAgentId string
  | AgentIdTaken string

datatype RouterAction = Deliver string | Reject RouterError

type_synonym Router = "(string \<times> RegisteredAgent) list"

definition router_new :: Router where
  "router_new = []"

definition register ::
  "uuid_parse \<Rightarrow> string \<Rightarrow> AgentType \<Rightarrow> string \<Rightarrow> Router \<Rightarrow> RouterError + Router"
where
  "register parse agent_id agent_type connection_id agents =
     (case validate_agent_id parse agent_id of
        Inl _ \<Rightarrow> Inl (InvalidAgentId agent_id)
      | Inr _ \<Rightarrow>
          if map_of agents agent_id \<noteq> None then Inl (AgentIdTaken agent_id)
          else Inr ((agent_id, \<lparr>ra_agent_id = agent_id, ra_agent_type = agent_type,
                                ra_connection_id = connection_id\<rparr>) # agents))"

definition unregister_by_conn :: "string \<Rightarrow> Router \<Rightarrow> RegisteredAgent option \<times> Router" where
  "unregister_by_conn connection_id agents =
     (case List.find (\<lambda>(_, agent). ra_connection_id agent = connection_id) agents of
        None \<Rightarrow> (None, agents)
      | Some (agent_id, _) \<Rightarrow>
          (map_of agents agent_id, filter (\<lambda>(k, _). k \<noteq> agent_id) agents))"

definition resolve :: "string \<Rightarrow> string \<Rightarrow> i32 \<Rightarrow> string \<Rightarrow> Router \<Rightarrow> RouterAction" where
  "resolve from_agent_id to_agent_id h from_conn agents =
     (if h \<le>s 0 then Reject HopsExhausted
      else case map_of agents to_agent_id of
             None \<Rightarrow> Reject (AgentNotFound to_agent_id)
           | Some tgt \<Rightarrow>
               if ra_connection_id tgt = from_conn then Reject SelfSend
               else Deliver (ra_connection_id tgt))"

definition list_agents :: "Router \<Rightarrow> RegisteredAgent list" where
  "list_agents agents = map snd agents"

definition get_agent :: "string \<Rightarrow> Router \<Rightarrow> RegisteredAgent option" where
  "get_agent agent_id agents = map_of agents agent_id"

definition agent_count :: "Router \<Rightarrow> nat" where
  "agent_count agents = length agents"

subsection \<open>Runs of the router\<close>

datatype router_op = Register string AgentType string | UnregisterConn string

fun router_exec :: "uuid_parse \<Rightarrow> router_op \<Rightarrow> Router \<Rightarrow> RouterError + unit \<times> Router" where
  "router_exec parse (Register i ty c) r = map_sum id (\<lambda>r'. ((), r')) (register parse i ty c r)"
| "router_exec parse (UnregisterConn c) r = Inr ((), snd (unregister_by_conn c r))"

text \<open>
  The table is well formed: one entry per identifier, each entry filed under its own
  identifier, every identifier accepted by the validation.
\<close>

definition router_wf :: "uuid_parse \<Rightarrow> Router \<Rightarrow> bool" where
  "router_wf parse r \<longleftrightarrow>
     distinct (map fst r) \<and>
     list_all (\<lambda>(k, a). ra_agent_id a = k \<and> validate_agent_id parse k = Inr ()) r"

subsection \<open>Lemmas\<close>

lemma register_InrD:
  assumes "register parse i ty c r = Inr r'"
  shows "validate_agent_id parse i = Inr ()" and "map_of r i = None"
    and "r' = (i, \<lparr>ra_agent_id = i, ra_agent_type = ty, ra_connection_id = c\<rparr>) # r"
  using assms by (auto simp: register_def split: sum.splits if_splits)

lemma router_wf_register:
  assumes "router_wf parse r" and "register parse i ty c r = Inr r'"
  shows "router_wf parse r'"
  using assms(1) register_InrD [OF assms(2)]
  by (auto simp: router_wf_def map_of_eq_None_iff)

lemma router_wf_filter: "router_wf parse r \<Longrightarrow> router_wf parse (filter P r)"
  by (auto simp: router_wf_def distinct_map_filter list_all_iff)

lemma router_wf_unregister: "router_wf parse r \<Longrightarrow> router_wf parse (snd (unregister_by_conn c r))"
  by (auto simp: unregister_by_conn_def router_wf_filter split: option.splits)

interpretation router_store: transactional_store "router_exec parse" "router_wf parse" for parse
proof
  fix s x r s'
  assume "router_wf parse s" and "router_exec parse x s = Inr (r, s')"
  then show "router_wf parse s'"
    by (cases x) (auto simp: map_sum_def router_wf_unregister split: sum.splits
        intro: router_wf_register)
qed

lemma resolve_Deliver_iff:
  "resolve from to h conn r = Deliver tc \<longleftrightarrow>
     0 <s h \<and> (\<exists>a. get_agent to r = Some a \<and> ra_connection_id a = tc \<and> tc \<noteq> conn)"
  by (auto simp: resolve_def get_agent_def word_sle_eq word_sless_alt split: option.splits)

lemma unregister_other:
  assumes "router_wf parse r" and "get_agent i r = Some a" and "ra_connection_id a \<noteq> c"
  shows "get_agent i (snd (unregister_by_conn c r)) = Some a"
proof (cases "List.find (\<lambda>(_, agent). ra_connection_id agent = c) r")
  case None
  with assms(2) show ?thesis by (simp add: unregister_by_conn_def)
next
  case (Some p)
  obtain k b where p: "p = (k, b)" by (cases p)
  have "(k, b) \<in> set r" "ra_connection_id b = c"
    using Some by (auto simp: find_Some_iff p in_set_conv_nth)
  then have "map_of r k = Some b"
    using assms(1) by (intro map_of_is_SomeI) (auto simp: router_wf_def)
  then have "k \<noteq> i"
    using assms(2,3) \<open>ra_connection_id b = c\<close> by (auto simp: get_agent_def)
  moreover have "map_of (filter (\<lambda>(k', _). k' \<noteq> k) r) i = map_of r i" if "k \<noteq> i"
    using that by (induction r) auto
  ultimately show ?thesis
    using assms(2) Some by (simp add: unregister_by_conn_def p get_agent_def)
qed

text \<open>An agent stays in the table until its connection is unregistered.\<close>

definition disconnects :: "router_op \<Rightarrow> string \<Rightarrow> Router \<Rightarrow> bool" where
  "disconnects x i r \<longleftrightarrow> (\<exists>a. get_agent i r = Some a \<and> x = UnregisterConn (ra_connection_id a))"

interpretation router_table: durable_store "router_exec parse" "router_wf parse" get_agent disconnects for parse
proof unfold_locales
  fix s k v x r s'
  assume "router_wf parse s" and found: "get_agent k s = Some v" and exec: "router_exec parse x s = Inr (r, s')"
    and "\<not> disconnects x k s"
  then show "get_agent k s' = Some v"
  proof (cases x)
    case (Register i ty c)
    with exec obtain s1 where reg: "register parse i ty c s = Inr s1" "s' = s1"
      by (auto simp: map_sum_def split: sum.splits)
    with found register_InrD(2,3) [OF reg(1)] show ?thesis by (auto simp: get_agent_def)
  next
    case (UnregisterConn c)
    with found \<open>\<not> disconnects x k s\<close> have "ra_connection_id v \<noteq> c" by (auto simp: disconnects_def)
    from unregister_other [OF \<open>router_wf parse s\<close> found this] UnregisterConn exec show ?thesis by auto
  qed
qed

lemma kept_connection:
  assumes "router_wf parse r" and "get_agent i r = Some a" and "\<forall>x\<in>set later. x \<noteq> UnregisterConn (ra_connection_id a)"
  shows "kept_ops (router_exec parse) disconnects i later r"
  using assms
proof (induction later arbitrary: r)
  case (Cons x later)
  have kept: "\<not> disconnects x i r" using Cons.prems(2,3) by (auto simp: disconnects_def)
  moreover have "kept_ops (router_exec parse) disconnects i later r1" if "router_exec parse x r = Inr (u, r1)" for u r1
    using Cons router_store.exec_inv [OF Cons.prems(1) that] router_table.fact_stable [OF Cons.prems(1,2) that kept] by simp
  ultimately show ?case using Cons by (auto split: sum.splits)
qed simp



end
