(* ===== verification/Execution_Machine.thy ===== *)
theory Execution_Machine
  imports Contracts Message
begin

text \<open>
  The pure machine of submissions and executions,
  \<open>crates/bridget-core/src/execution.rs\<close>. \<open>revision\<close>, a \<open>u64\<close> incremented by every
  transition, is a \<open>64 word\<close>; the other \<open>u64\<close> fields are never computed with and are
  \<open>nat\<close>.
\<close>

datatype SubmissionState =
  Prepared | Admitted | Queued | BoundToExecution | Rejected | Cancelled

definition submission_is_terminal :: "SubmissionState \<Rightarrow> bool" where
  "submission_is_terminal s \<longleftrightarrow> s = Rejected \<or> s = Cancelled"

datatype ExecutionState =
    Queued
  | Starting
  | Running
  | WaitingApproval
  | WaitingUserInput
  | Interrupting
  | Interrupted
  | Completed
  | Failed
  | Unreachable

fun is_terminal :: "ExecutionState \<Rightarrow> bool" where
  "is_terminal Interrupted = True"
| "is_terminal Completed = True"
| "is_terminal Failed = True"
| "is_terminal Unreachable = True"
| "is_terminal _ = False"

datatype ExecutionReason =
    RAccepted
  | RDelivered
  | RProviderAccepted
  | RMessageVisible
  | RCompleted
  | RInterrupted
  | RProviderFailed
  | RProviderUnavailable
  | RDeadlineExceeded
  | RPermissionRequired
  | RUserInputRequired
  | RCapabilityMissing
  | RStaleEvent
  | RRevisionMismatch
  | RInvalidTransition

datatype ExecutionTransitionError =
    StateMismatch ExecutionState ExecutionState
  | RevisionMismatch u64 u64
  | TerminalState ExecutionState
  | InvalidTransition ExecutionState ExecutionState

record WorkSubmission =
  ws_submission_id :: string
  ws_origin :: "MessageOrigin option"
  ws_intent :: "MessageIntent option"
  ws_priority_class :: string
  ws_objective_id :: "string option"
  ws_delegation_id :: "string option"
  ws_requested_agent :: string
  ws_pinned_instance_id :: "string option"
  ws_generation :: "nat option"
  ws_payload_digest :: string
  ws_delivery_deadline_at :: "nat option"
  ws_execution_deadline_at :: "nat option"
  ws_fallback_policy :: "string option"
  ws_created_at :: nat
  ws_state :: SubmissionState
  ws_revision :: u64

definition submission_prepared :: "string \<Rightarrow> string \<Rightarrow> string \<Rightarrow> nat \<Rightarrow> WorkSubmission" where
  "submission_prepared submission_id requested_agent payload_digest created_at =
     \<lparr>ws_submission_id = submission_id, ws_origin = None, ws_intent = None,
      ws_priority_class = ''normal'', ws_objective_id = None, ws_delegation_id = None,
      ws_requested_agent = requested_agent, ws_pinned_instance_id = None,
      ws_generation = None, ws_payload_digest = payload_digest,
      ws_delivery_deadline_at = None, ws_execution_deadline_at = None,
      ws_fallback_policy = None, ws_created_at = created_at, ws_state = Prepared,
      ws_revision = 0\<rparr>"

record Execution =
  execution_id :: string
  submission_id :: string
  agent_instance_id :: string
  generation :: nat
  ex_state :: ExecutionState
  ex_reason :: ExecutionReason
  started_at :: "nat option"
  last_progress_at :: "nat option"
  ended_at :: "nat option"
  provider_binding_id :: "string option"
  ex_revision :: u64

definition execution_queued :: "string \<Rightarrow> string \<Rightarrow> string \<Rightarrow> nat \<Rightarrow> Execution" where
  "execution_queued eid sid instance_id gen =
     \<lparr>execution_id = eid, submission_id = sid, agent_instance_id = instance_id,
      generation = gen, ex_state = Queued, ex_reason = RAccepted, started_at = None,
      last_progress_at = None, ended_at = None, provider_binding_id = None, ex_revision = 0\<rparr>"

fun transition_allowed :: "ExecutionState \<Rightarrow> ExecutionState \<Rightarrow> bool" where
  "transition_allowed Queued to = (to = Starting \<or> to = Unreachable)"
| "transition_allowed Starting to = (to = Running \<or> to = Failed \<or> to = Unreachable)"
| "transition_allowed Running to =
     (to = WaitingApproval \<or> to = WaitingUserInput \<or> to = Interrupting \<or> to = Completed \<or>
      to = Failed \<or> to = Unreachable)"
| "transition_allowed WaitingApproval to = (to = Running \<or> to = Failed \<or> to = Unreachable)"
| "transition_allowed WaitingUserInput to = (to = Running \<or> to = Failed \<or> to = Unreachable)"
| "transition_allowed Interrupting to = (to = Interrupted \<or> to = Failed \<or> to = Unreachable)"
| "transition_allowed _ to = False"

definition transition ::
  "ExecutionState \<Rightarrow> u64 \<Rightarrow> ExecutionState \<Rightarrow> ExecutionReason \<Rightarrow> nat \<Rightarrow> Execution \<Rightarrow>
   ExecutionTransitionError + Execution"
where
  "transition expected_state expected_revision next_state reason observed_at e =
     (if ex_revision e \<noteq> expected_revision then Inl (RevisionMismatch expected_revision (ex_revision e))
      else if ex_state e \<noteq> expected_state then Inl (StateMismatch expected_state (ex_state e))
      else if is_terminal (ex_state e) then Inl (TerminalState (ex_state e))
      else if \<not> transition_allowed (ex_state e) next_state
      then Inl (InvalidTransition (ex_state e) next_state)
      else
        let e1 = (if next_state = Starting \<and> started_at e = None
                  then e\<lparr>started_at := Some observed_at\<rparr> else e);
            e2 = (if is_terminal next_state then e1\<lparr>ended_at := Some observed_at\<rparr> else e1)
        in Inr (e2\<lparr>ex_state := next_state, ex_reason := reason,
                   last_progress_at := Some observed_at, ex_revision := ex_revision e2 + 1\<rparr>))"

subsection \<open>The step relation\<close>

inductive execution_step :: "Execution \<Rightarrow> Execution \<Rightarrow> bool" where
  step: "transition es er ns r at e = Inr e' \<Longrightarrow> execution_step e e'"

inductive_cases execution_stepE: "execution_step e e'"

text \<open>The facts that hold of every execution the machine can reach.\<close>

definition execution_wf :: "Execution \<Rightarrow> bool" where
  "execution_wf e \<longleftrightarrow>
     (ended_at e \<noteq> None \<longleftrightarrow> is_terminal (ex_state e)) \<and>
     (ended_at e \<noteq> None \<longrightarrow> ended_at e = last_progress_at e) \<and>
     (ex_state e = Queued \<longleftrightarrow> last_progress_at e = None) \<and>
     (ex_state e = Queued \<longrightarrow> started_at e = None \<and> ex_revision e = 0) \<and>
     (ex_state e \<noteq> Queued \<and> ex_state e \<noteq> Unreachable \<longrightarrow> started_at e \<noteq> None)"

subsection \<open>Lemmas\<close>

lemma transition_InrE:
  assumes "transition es er ns r at e = Inr e'"
  obtains "ex_revision e = er" "ex_state e = es" "\<not> is_terminal es" "transition_allowed es ns"
    "ex_state e' = ns" "ex_reason e' = r" "last_progress_at e' = Some at"
    "ex_revision e' = ex_revision e + 1"
    "started_at e' = (if ns = Starting \<and> started_at e = None then Some at else started_at e)"
    "ended_at e' = (if is_terminal ns then Some at else ended_at e)"
    "execution_id e' = execution_id e" "submission_id e' = submission_id e"
    "agent_instance_id e' = agent_instance_id e" "generation e' = generation e"
  using assms by (auto simp: transition_def Let_def split: if_splits)

lemma transition_allowed_not_Queued: "transition_allowed s t \<Longrightarrow> t \<noteq> Queued"
  by (cases s) auto

lemma transition_allowed_from_Queued: "transition_allowed Queued t \<longleftrightarrow> t = Starting \<or> t = Unreachable"
  by simp

lemma execution_wf_queued: "execution_wf (execution_queued a b c d)"
  by (simp add: execution_wf_def execution_queued_def)

lemma execution_wf_step:
  assumes "execution_step e e'" and "execution_wf e"
  shows "execution_wf e'"
proof -
  obtain es er ns r at where "transition es er ns r at e = Inr e'"
    using assms(1) by (rule execution_stepE)
  then show ?thesis
    using assms(2) transition_allowed_not_Queued [of es ns]
    by (elim transition_InrE) (cases "es = Queued"; auto simp: execution_wf_def)
qed

lemma execution_wf_reachable: "execution_step\<^sup>*\<^sup>* e e' \<Longrightarrow> execution_wf e \<Longrightarrow> execution_wf e'"
  by (induction rule: rtranclp_induct) (auto intro: execution_wf_step)

interpretation execution_machine: absorbing_machine execution_step "\<lambda>e. is_terminal (ex_state e)"
proof
  fix s t :: Execution
  assume "is_terminal (ex_state s)"
  then show "\<not> execution_step s t"
    by (auto elim!: execution_stepE transition_InrE)
qed

lemma transition_identity:
  assumes "execution_step e e'"
  shows "execution_id e' = execution_id e \<and> submission_id e' = submission_id e \<and>
    agent_instance_id e' = agent_instance_id e \<and> generation e' = generation e"
  using assms by (auto elim!: execution_stepE transition_InrE)

lemma transition_identity_reachable:
  "execution_step\<^sup>*\<^sup>* e e' \<Longrightarrow>
    execution_id e' = execution_id e \<and> submission_id e' = submission_id e \<and>
    agent_instance_id e' = agent_instance_id e \<and> generation e' = generation e"
  by (induction rule: rtranclp_induct) (auto dest: transition_identity)

section \<open>Properties\<close>

text \<open>
  C32. Life cycle of an execution. Every execution reachable from \<open>Execution::queued\<close> by
  accepted transitions has an end date exactly when its state is terminal, that date being
  the one of its last progress; it has no progress date exactly while it is still queued;
  it has a start date in every state but \<open>Queued\<close> and \<open>Unreachable\<close>; and it keeps its
  identity, submission, instance and generation.
\<close>

theorem execution_life_cycle:
  assumes "execution_step\<^sup>*\<^sup>* (execution_queued a b c d) e"
  shows "execution_wf e \<and> execution_id e = a \<and> submission_id e = b \<and>
    agent_instance_id e = c \<and> generation e = d"
  using execution_wf_reachable [OF assms execution_wf_queued] transition_identity_reachable [OF assms]
  by (simp add: execution_queued_def)

theorem execution_life_cycle_witness:
  "\<exists>e. ex_state e = Starting \<and> execution_wf e \<and> execution_id e = ''e''"
proof -
  let ?q = "execution_queued ''e'' ''s'' ''i'' 1"
  let ?e = "?q\<lparr>ex_state := Starting, ex_reason := RDelivered, started_at := Some 5,
    last_progress_at := Some 5, ex_revision := 1\<rparr>"
  have "transition Queued 0 Starting RDelivered 5 ?q = Inr ?e"
    by (simp add: transition_def execution_queued_def)
  then have "execution_step\<^sup>*\<^sup>* ?q ?e" by (intro r_into_rtranclp step)
  from execution_life_cycle [OF this] show ?thesis
    by (intro exI [of _ ?e]) simp
qed

text \<open>
  C33. Compare and set. When a transition has been accepted, a second one that was computed
  from the same observed revision is refused with a revision mismatch, whatever states
  it names; and a terminal execution refuses every transition, so nothing reachable from
  it differs from it.
\<close>

theorem execution_compare_and_set:
  assumes "transition es er ns r at e = Inr e'"
  shows "transition es' er ns' r' at' e' = Inl (RevisionMismatch er (er + 1)) \<and>
    (is_terminal ns \<longrightarrow> (\<forall>e''. execution_step\<^sup>*\<^sup>* e' e'' \<longrightarrow> e'' = e'))"
proof -
  have "ex_revision e' = er + 1" "ex_state e' = ns"
    using assms by (auto elim!: transition_InrE)
  then show ?thesis
    using execution_machine.terminal_absorbing [of e'] by (auto simp: transition_def)
qed

theorem execution_compare_and_set_witness:
  "transition Starting 0 Running RDelivered 9
     ((execution_queued ''e'' ''s'' ''i'' 1)\<lparr>ex_state := Unreachable, ex_reason := RDelivered,
        last_progress_at := Some 5, ended_at := Some 5, ex_revision := 1\<rparr>)
   = Inl (RevisionMismatch 0 1)"
  using execution_compare_and_set [of Queued 0 Unreachable RDelivered 5 "execution_queued ''e'' ''s'' ''i'' 1"
      "(execution_queued ''e'' ''s'' ''i'' 1)\<lparr>ex_state := Unreachable, ex_reason := RDelivered,
        last_progress_at := Some 5, ended_at := Some 5, ex_revision := 1\<rparr>"
      Starting Running RDelivered 9]
  by (simp add: transition_def execution_queued_def)

end
