(* ===== verification/Journal_Vocabulary.thy ===== *)
theory Journal_Vocabulary
  imports Contracts
begin

text \<open>
  The closed vocabulary of journal updates (\<open>crates/bridget-transport/src/act_kind.rs\<close>) and
  the single form of a refusal (\<open>crates/bridget-transport/src/refusals.rs\<close>). A payload is a
  \<open>serde_json::Value\<close>, seen only through \<open>get\<close> and \<open>as_str\<close>, which are arguments. Error
  texts are constructors of \<open>JournalWriteError\<close>.
\<close>

section \<open>Update kinds\<close>

datatype JournalUpdateKind =
    Text
  | Command
  | File
  | Tool
  | Artifact
  | ToolCallLegacy
  | Plan
  | Approval
  | Refusal

definition kind_ALL :: "JournalUpdateKind list" where
  "kind_ALL = [Text, Command, File, Tool, Artifact, ToolCallLegacy, Plan, Approval, Refusal]"

definition kind_ACTS :: "JournalUpdateKind list" where
  "kind_ACTS = [Command, File, Tool, Artifact, ToolCallLegacy, Plan, Approval, Refusal]"

fun kind_as_str :: "JournalUpdateKind \<Rightarrow> string" where
  "kind_as_str Text = ''text''"
| "kind_as_str Command = ''command''"
| "kind_as_str File = ''file''"
| "kind_as_str Tool = ''tool''"
| "kind_as_str Artifact = ''artifact''"
| "kind_as_str ToolCallLegacy = ''tool_call''"
| "kind_as_str Plan = ''plan''"
| "kind_as_str Approval = ''approval''"
| "kind_as_str Refusal = ''refusal''"

definition kind_parse :: "string \<Rightarrow> JournalUpdateKind option" where
  "kind_parse raw = List.find (\<lambda>kind. kind_as_str kind = raw) kind_ALL"

definition is_act :: "JournalUpdateKind \<Rightarrow> bool" where
  "is_act kind \<longleftrightarrow> kind \<noteq> Text"

definition act_names :: "string list" where
  "act_names = map kind_as_str kind_ACTS"

definition all_names :: "string list" where
  "all_names = map kind_as_str kind_ALL"

section \<open>Refusals\<close>

definition MAX_RAW_CHARS :: nat where
  "MAX_RAW_CHARS = 512"

datatype RefusalLayer =
    BrowserContent
  | ArtifactSandbox
  | ProviderSandbox
  | ServerRuntime
  | BridgetSystem
  | ReferentControl
  | BridgetPolicy
  | Unknown

definition layer_ALL :: "RefusalLayer list" where
  "layer_ALL = [BrowserContent, ArtifactSandbox, ProviderSandbox, ServerRuntime, BridgetSystem,
     ReferentControl, BridgetPolicy, Unknown]"

fun layer_as_str :: "RefusalLayer \<Rightarrow> string" where
  "layer_as_str BrowserContent = ''browser_content''"
| "layer_as_str ArtifactSandbox = ''artifact_sandbox''"
| "layer_as_str ProviderSandbox = ''provider_sandbox''"
| "layer_as_str ServerRuntime = ''server_runtime''"
| "layer_as_str BridgetSystem = ''bridget_system''"
| "layer_as_str ReferentControl = ''referent_control''"
| "layer_as_str BridgetPolicy = ''bridget_policy''"
| "layer_as_str Unknown = ''unknown''"

definition layer_parse :: "string \<Rightarrow> RefusalLayer option" where
  "layer_parse raw = List.find (\<lambda>layer. layer_as_str layer = raw) layer_ALL"

datatype RefusalGesture = LocalToggle string | RightsLine string | NoGesture

datatype RefusalAttribution = Bridget | Agent

record Refusal =
  rf_layer :: RefusalLayer
  rf_prevented :: string
  rf_gesture :: RefusalGesture
  rf_raw :: string
  rf_at :: int
  rf_attributed_to :: RefusalAttribution

definition SANDBOX_PATTERNS :: "(string \<times> string list) list" where
  "SANDBOX_PATTERNS =
     [(''bwrap: '', [''Operation not permitted'', ''Permission denied'']),
      (''sandbox-exec: '', [''deny'']),
      (''Sandbox: '', [''deny''])]"

definition bounded_raw :: "string \<Rightarrow> string" where
  "bounded_raw line = take_chars MAX_RAW_CHARS (trim_end line)"

fun recognize_in :: "(string \<times> string list) list \<Rightarrow> string \<Rightarrow> int \<Rightarrow> Refusal option" where
  "recognize_in [] trimmed at = None"
| "recognize_in ((prefix, fragments) # patterns) trimmed at =
     (case strip_prefix prefix trimmed of
        Some rest \<Rightarrow>
          if list_ex (\<lambda>fragment. str_contains rest fragment) fragments
          then Some \<lparr>rf_layer = ProviderSandbox, rf_prevented = ''shell'',
                     rf_gesture = RightsLine ''shell'', rf_raw = bounded_raw trimmed,
                     rf_at = at, rf_attributed_to = Bridget\<rparr>
          else recognize_in patterns trimmed at
      | None \<Rightarrow> recognize_in patterns trimmed at)"

definition recognize_sandbox_refusal :: "string \<Rightarrow> int \<Rightarrow> Refusal option" where
  "recognize_sandbox_refusal line at = recognize_in SANDBOX_PATTERNS (trim_start line) at"

section \<open>The write guard\<close>

datatype JournalWriteError =
    KindMissing
  | KindNotString
  | KindOutOfVocabulary string
  | LayerMissing
  | LayerOutOfVocabulary string
  | RawMissing
  | RawTooLong

definition parse_update_kind :: "string \<Rightarrow> JournalWriteError + JournalUpdateKind" where
  "parse_update_kind raw =
     (case kind_parse raw of None \<Rightarrow> Inl (KindOutOfVocabulary raw) | Some kind \<Rightarrow> Inr kind)"

definition validate_refusal_payload ::
  "('v \<Rightarrow> string \<Rightarrow> 'v option) \<Rightarrow> ('v \<Rightarrow> string option) \<Rightarrow> 'v \<Rightarrow> JournalWriteError + unit"
where
  "validate_refusal_payload get as_str payload =
     (case Option.bind (get payload ''layer'') as_str of
        None \<Rightarrow> Inl LayerMissing
      | Some layer \<Rightarrow>
          if layer_parse layer = None then Inl (LayerOutOfVocabulary layer)
          else case Option.bind (get payload ''raw'') as_str of
                 None \<Rightarrow> Inl RawMissing
               | Some raw \<Rightarrow>
                   if MAX_RAW_CHARS < char_count raw then Inl RawTooLong else Inr ())"

definition validate_journal_write ::
  "('v \<Rightarrow> string \<Rightarrow> 'v option) \<Rightarrow> ('v \<Rightarrow> string option) \<Rightarrow> string \<Rightarrow> 'v \<Rightarrow>
   JournalWriteError + unit"
where
  "validate_journal_write get as_str event payload =
     (if event \<noteq> ''update'' then Inr ()
      else case get payload ''kind'' of
             None \<Rightarrow> Inl KindMissing
           | Some kind_value \<Rightarrow>
               (case as_str kind_value of
                  None \<Rightarrow> Inl KindNotString
                | Some kind \<Rightarrow>
                    (case parse_update_kind kind of
                       Inl e \<Rightarrow> Inl e
                     | Inr parsed \<Rightarrow>
                         if parsed = Refusal then validate_refusal_payload get as_str payload
                         else Inr ())))"

section \<open>Lemmas\<close>

interpretation kinds: closed_vocabulary kind_ALL kind_as_str
proof
  show "k \<in> set kind_ALL" for k by (cases k) (simp_all add: kind_ALL_def)
  show "distinct (map kind_as_str kind_ALL)" by (simp add: kind_ALL_def)
qed

interpretation layers: closed_vocabulary layer_ALL layer_as_str
proof
  show "k \<in> set layer_ALL" for k by (cases k) (simp_all add: layer_ALL_def)
  show "distinct (map layer_as_str layer_ALL)" by (simp add: layer_ALL_def)
qed

lemma kind_parse_iff: "kind_parse raw = Some k \<longleftrightarrow> raw = kind_as_str k"
  using kinds.find_name_iff [of raw k] by (auto simp: kind_parse_def)

lemma kind_as_str_inject [simp]: "kind_as_str k = kind_as_str k' \<longleftrightarrow> k = k'"
  using kinds.name_inj by blast

lemma layer_parse_as_str [simp]: "layer_parse (layer_as_str l) = Some l"
  using layers.find_name [of l] by (simp add: layer_parse_def)

lemma kind_ACTS_filter: "kind_ACTS = filter is_act kind_ALL"
  by (simp add: kind_ACTS_def kind_ALL_def is_act_def)

lemma char_count_bounded_raw: "char_count (bounded_raw line) \<le> MAX_RAW_CHARS"
  by (simp add: bounded_raw_def char_count_take_chars)

definition pattern_hit :: "string \<Rightarrow> string \<times> string list \<Rightarrow> bool" where
  "pattern_hit trimmed pat \<longleftrightarrow>
     (\<exists>rest. trimmed = fst pat @ rest \<and> list_ex (str_contains rest) (snd pat))"

lemma recognize_in_Cons:
  "recognize_in (pat # ps) trimmed at =
     (if pattern_hit trimmed pat
      then Some \<lparr>rf_layer = ProviderSandbox, rf_prevented = ''shell'',
                 rf_gesture = RightsLine ''shell'', rf_raw = bounded_raw trimmed,
                 rf_at = at, rf_attributed_to = Bridget\<rparr>
      else recognize_in ps trimmed at)"
proof (cases "strip_prefix (fst pat) trimmed")
  case None
  then have "\<not> pattern_hit trimmed pat"
    by (auto simp: pattern_hit_def strip_prefix_Some_iff)
  with None show ?thesis by (cases pat) simp
next
  case (Some rest)
  then have "pattern_hit trimmed pat \<longleftrightarrow> list_ex (str_contains rest) (snd pat)"
    by (auto simp: pattern_hit_def strip_prefix_Some_iff)
  with Some show ?thesis by (cases pat) simp
qed

lemma recognize_in_eq:
  "recognize_in ps trimmed at =
     (if list_ex (pattern_hit trimmed) ps
      then Some \<lparr>rf_layer = ProviderSandbox, rf_prevented = ''shell'',
                 rf_gesture = RightsLine ''shell'', rf_raw = bounded_raw trimmed,
                 rf_at = at, rf_attributed_to = Bridget\<rparr>
      else None)"
  by (induction ps) (simp_all add: recognize_in_Cons del: recognize_in.simps(2))

lemma validate_refusal_payload_iff:
  "validate_refusal_payload get as_str payload = Inr () \<longleftrightarrow>
     (\<exists>layer raw. Option.bind (get payload ''layer'') as_str = Some (layer_as_str layer) \<and>
        Option.bind (get payload ''raw'') as_str = Some raw \<and> char_count raw \<le> MAX_RAW_CHARS)"
proof -
  have "layer_parse l \<noteq> None \<longleftrightarrow> (\<exists>layer. l = layer_as_str layer)" for l
    using layers.find_name_None [of l] by (auto simp: layer_parse_def)
  then show ?thesis
    by (auto simp: validate_refusal_payload_def split: option.splits)
qed

text \<open>A payload for the witnesses: an object is a list of members, a leaf is a string.\<close>

datatype sample_value = Leaf string | Members "(string \<times> sample_value) list"

fun sample_get :: "sample_value \<Rightarrow> string \<Rightarrow> sample_value option" where
  "sample_get (Members ms) key = map_of ms key"
| "sample_get (Leaf s) key = None"

fun sample_as_str :: "sample_value \<Rightarrow> string option" where
  "sample_as_str (Leaf s) = Some s"
| "sample_as_str (Members ms) = None"

section \<open>Properties\<close>

text \<open>
  C39. The write guard accepts an \<open>update\<close> event exactly when its payload has a \<open>kind\<close> that is
  one of the nine wire names and, for a refusal, a layer of the closed vocabulary and a raw
  line of at most 512 characters; an event of any other name is accepted as it is.
\<close>

theorem journal_write_accepts_iff:
  "validate_journal_write get as_str event payload = Inr () \<longleftrightarrow>
     event \<noteq> ''update'' \<or>
     (\<exists>kind. Option.bind (get payload ''kind'') as_str = Some (kind_as_str kind) \<and>
       (kind \<noteq> Refusal \<or>
         (\<exists>layer raw. Option.bind (get payload ''layer'') as_str = Some (layer_as_str layer) \<and>
            Option.bind (get payload ''raw'') as_str = Some raw \<and> char_count raw \<le> 512)))"
proof (cases "Option.bind (get payload ''kind'') as_str")
  case None
  then show ?thesis
    by (auto simp: validate_journal_write_def split: option.splits)
next
  case (Some raw_kind)
  then have wr: "validate_journal_write get as_str ''update'' payload =
      (case parse_update_kind raw_kind of Inl e \<Rightarrow> Inl e
       | Inr parsed \<Rightarrow> if parsed = Refusal then validate_refusal_payload get as_str payload else Inr ())"
    by (cases "get payload ''kind''") (auto simp: validate_journal_write_def)
  show ?thesis
  proof (cases "kind_parse raw_kind")
    case None
    then have "raw_kind \<noteq> kind_as_str kind" for kind using kind_parse_iff [of raw_kind kind] by auto
    with None Some wr show ?thesis
      by (cases "event = ''update''") (auto simp: parse_update_kind_def validate_journal_write_def)
  next
    case (Some kind)
    then have "raw_kind = kind_as_str kind" by (simp add: kind_parse_iff)
    then have kind: "Option.bind (get payload ''kind'') as_str = Some (kind_as_str kind)"
      using \<open>Option.bind (get payload ''kind'') as_str = Some raw_kind\<close> by simp
    have "validate_journal_write get as_str ''update'' payload =
        (if kind = Refusal then validate_refusal_payload get as_str payload else Inr ())"
      using wr Some by (simp add: parse_update_kind_def)
    then have "validate_journal_write get as_str ''update'' payload = Inr () \<longleftrightarrow>
        kind \<noteq> Refusal \<or> validate_refusal_payload get as_str payload = Inr ()"
      by simp
    moreover have "validate_journal_write get as_str event payload = Inr ()" if "event \<noteq> ''update''"
      using that by (simp add: validate_journal_write_def)
    ultimately show ?thesis
      unfolding validate_refusal_payload_iff MAX_RAW_CHARS_def kind by auto
  qed
qed

theorem journal_write_accepts_iff_witness:
  "validate_journal_write sample_get sample_as_str ''update'' (Members [(''kind'', Leaf ''plan'')]) = Inr ()"
  unfolding journal_write_accepts_iff by (intro disjI2 exI [of _ Plan]) simp

text \<open>
  C40. What Bridget recognises on the raw output of a command is always writable: a refusal
  recognised on a line, sent as the payload of an \<open>update\<close> of kind \<open>refusal\<close> with its layer
  and raw line, passes the write guard, and a line is recognised exactly when, after leading
  white space, it starts with the prefix of a contractual pattern and one of the pattern's
  fragments occurs in the rest.
\<close>

theorem recognized_refusals_are_writable:
  assumes "recognize_sandbox_refusal line at = Some r"
    and "get payload ''kind'' = Some k" and "as_str k = Some (kind_as_str Refusal)"
    and "get payload ''layer'' = Some l" and "as_str l = Some (layer_as_str (rf_layer r))"
    and "get payload ''raw'' = Some w" and "as_str w = Some (rf_raw r)"
  shows "validate_journal_write get as_str ''update'' payload = Inr () \<and>
    (\<exists>(prefix, fragments) \<in> set SANDBOX_PATTERNS. \<exists>rest. trim_start line = prefix @ rest \<and>
       list_ex (str_contains rest) fragments)"
proof -
  have hit: "list_ex (pattern_hit (trim_start line)) SANDBOX_PATTERNS"
    and raw: "rf_raw r = bounded_raw (trim_start line)"
    using assms(1) by (auto simp: recognize_sandbox_refusal_def recognize_in_eq split: if_splits)
  have "validate_refusal_payload get as_str payload = Inr ()"
    using assms(4-7) char_count_bounded_raw [of "trim_start line"] raw
    by (auto simp: validate_refusal_payload_iff)
  moreover have "kind_parse (kind_as_str Refusal) = Some Refusal" by (simp only: kind_parse_iff)
  ultimately have "validate_journal_write get as_str ''update'' payload = Inr ()"
    using assms(2,3) by (simp add: validate_journal_write_def parse_update_kind_def)
  with hit show ?thesis by (force simp: list_ex_iff pattern_hit_def)
qed

theorem recognized_refusals_are_writable_witness:
  "validate_journal_write sample_get sample_as_str ''update''
     (Members [(''kind'', Leaf ''refusal''), (''layer'', Leaf ''provider_sandbox''),
               (''raw'', Leaf (bounded_raw (trim_start ''Sandbox: deny x'')))]) = Inr ()"
proof -
  have trimmed: "trim_start ''Sandbox: deny x'' = ''Sandbox: deny x''"
    by (simp add: trim_start_def trim_start_chars_def is_continuation_def byte_def code_point_def
        is_whitespace_def)
  have "recognize_sandbox_refusal ''Sandbox: deny x'' 7 =
    Some \<lparr>rf_layer = ProviderSandbox, rf_prevented = ''shell'', rf_gesture = RightsLine ''shell'',
          rf_raw = bounded_raw ''Sandbox: deny x'', rf_at = 7, rf_attributed_to = Bridget\<rparr>"
    by (simp add: recognize_sandbox_refusal_def SANDBOX_PATTERNS_def trimmed starts_with_def)
  from recognized_refusals_are_writable [OF this, of sample_get _ _ sample_as_str] show ?thesis
    by (simp add: trimmed)
qed

end
