(* ===== verification/Guidance.thy ===== *)
theory Guidance
  imports Message "HOL-Library.Product_Lexorder"
begin

text \<open>
  Who may steer or interrupt whom. The pure guard is
  \<open>crates/bridget-daemon/src/guidance.rs\<close>; the journal it counts on is the table
  \<open>guidance_events\<close> of \<open>idempotency.rs\<close> and the daemon composes both in \<open>guidance_facts\<close>,
  \<open>check_guidance\<close> and \<open>record_guidance_outcome\<close> (\<open>daemon.rs\<close>), under one lock. The facts
  about identities, links and projects are given; the counts are computed from the journal.
  Timestamps are \<open>i64\<close> seconds with saturating arithmetic.
\<close>

section \<open>The guard\<close>

datatype GuidanceAction =
    Steer
  | Interrupt
  | MidTurnDelivery
  | QueueList
  | QueueCancel
  | QueueReorder
  | QueuePromote

datatype GuidancePath = SendIdempotent | Send | Control | Cancel

datatype GuidanceActor = AttachedHuman | BareClient | AgentActor string | InternalPause

record GuidanceFacts =
  gf_action :: GuidanceAction
  gf_path :: GuidancePath
  gf_actor :: GuidanceActor
  identity_attested :: bool
  trusted_origin :: "MessageOrigin option"
  child_proof :: bool
  actor_is_target :: bool
  actor_is_parent :: bool
  actor_is_child :: bool
  actor_is_author :: bool
  message_editable :: bool
  recipient_turn_active :: bool
  carrier_queue_fallback :: bool
  cross_project :: bool
  paused :: bool
  target_has_active_native_task :: bool
  recent_interrupts_pair :: nat
  recent_interrupts_target :: nat
  gf_now :: int
  last_interrupt_pair_at :: "int option"
  third_latest_interrupt_target_at :: "int option"

datatype GuidanceRefusal =
    IntentNotPermitted string
  | ReferentPaused
  | MissionActive
  | NotEditable
  | NoActiveTurn
  | SteerUnavailable
  | InterruptRateLimited nat

definition pair_retry :: "GuidanceFacts \<Rightarrow> nat" where
  "pair_retry facts =
     (if recent_interrupts_pair facts = 0 then 0
      else case last_interrupt_pair_at facts of
             None \<Rightarrow> 30
           | Some at \<Rightarrow> nat (max 0 (saturating_sub (saturating_add at 30) (gf_now facts))))"

definition target_retry :: "GuidanceFacts \<Rightarrow> nat" where
  "target_retry facts =
     (if recent_interrupts_target facts < 3 then 0
      else case third_latest_interrupt_target_at facts of
             None \<Rightarrow> 600
           | Some at \<Rightarrow> nat (max 0 (saturating_sub (saturating_add at 600) (gf_now facts))))"

function authorize :: "GuidanceFacts \<Rightarrow> GuidanceRefusal + unit" where
  "authorize facts =
     (if (gf_action facts = QueueCancel \<or> gf_action facts = QueueReorder \<or>
          gf_action facts = QueuePromote) \<and> gf_actor facts = InternalPause
      then Inl (IntentNotPermitted ''identity_unattested'')
      else if gf_action facts = QueuePromote
      then authorize (facts\<lparr>gf_action := Steer, paused := False\<rparr>)
      else if gf_actor facts = InternalPause then Inr ()
      else if child_proof facts \<and> gf_action facts \<noteq> MidTurnDelivery
      then Inl (IntentNotPermitted ''identity_unattested'')
      else if gf_action facts = QueueList then Inr ()
      else if gf_action facts = MidTurnDelivery \<and> trusted_origin facts = Some System then Inr ()
      else if \<not> identity_attested facts then Inl (IntentNotPermitted ''identity_unattested'')
      else if gf_actor facts = AttachedHuman then Inr ()
      else if gf_actor facts = BareClient then
        (if gf_action facts = MidTurnDelivery \<and> trusted_origin facts = Some Human then Inr ()
         else Inl (IntentNotPermitted ''identity_unattested''))
      else if actor_is_target facts then Inl (IntentNotPermitted ''self_target'')
      else if cross_project facts then Inl (IntentNotPermitted ''cross_project'')
      else if gf_action facts = QueueCancel \<or> gf_action facts = QueueReorder then
        (if actor_is_parent facts \<or> gf_action facts = QueueCancel \<and> actor_is_author facts
         then Inr () else Inl (IntentNotPermitted ''not_parent''))
      else if \<not> actor_is_parent facts \<and> \<not> (gf_action facts = MidTurnDelivery \<and> actor_is_child facts)
      then Inl (IntentNotPermitted ''not_parent'')
      else if paused facts then Inl ReferentPaused
      else if gf_action facts \<noteq> Interrupt then Inr ()
      else if target_has_active_native_task facts then Inl MissionActive
      else let retry_after_secs = max (pair_retry facts) (target_retry facts)
           in if 0 < retry_after_secs then Inl (InterruptRateLimited retry_after_secs)
              else Inr ())"
  by pat_completeness auto
termination
  by (relation "measure (\<lambda>facts. if gf_action facts = QueuePromote then 1 else 0)") auto

declare authorize.simps [simp del]

definition authorize_queue_edit :: "GuidanceFacts \<Rightarrow> GuidanceRefusal + unit" where
  "authorize_queue_edit facts =
     (case authorize facts of
        Inl e \<Rightarrow> Inl e
      | Inr _ \<Rightarrow>
          if \<not> message_editable facts then Inl NotEditable
          else if gf_action facts = QueuePromote then
            (case authorize (facts\<lparr>gf_action := Steer\<rparr>) of
               Inl e \<Rightarrow> Inl e
             | Inr _ \<Rightarrow>
                 if \<not> recipient_turn_active facts then Inl NoActiveTurn
                 else if \<not> carrier_queue_fallback facts then Inl SteerUnavailable
                 else Inr ())
          else Inr ())"

section \<open>The journal of guidance\<close>

record GuidanceEvent =
  ge_id :: nat
  ge_at :: int
  ge_actor :: string
  ge_target :: string
  ge_action :: string
  ge_path :: string
  ge_message_id :: "string option"
  ge_outcome :: string

record GuidanceLog =
  gl_next :: nat
  gl_rows :: "GuidanceEvent list"

definition record_guidance_event ::
  "int \<Rightarrow> string \<Rightarrow> string \<Rightarrow> string \<Rightarrow> string \<Rightarrow> string option \<Rightarrow> string \<Rightarrow>
   GuidanceLog \<Rightarrow> GuidanceLog"
where
  "record_guidance_event at actor tgt act path message_id outcome gl =
     gl\<lparr>gl_next := Suc (gl_next gl),
        gl_rows := gl_rows gl @
          [\<lparr>ge_id = gl_next gl, ge_at = at, ge_actor = actor, ge_target = tgt, ge_action = act,
            ge_path = path, ge_message_id = message_id, ge_outcome = outcome\<rparr>]\<rparr>"

text \<open>The common part of the two queries: admitted interrupts by agents.\<close>

definition counts_as_interrupt :: "GuidanceEvent \<Rightarrow> bool" where
  "counts_as_interrupt r \<longleftrightarrow>
     ge_actor r \<noteq> ''human'' \<and> ge_action r = ''interrupt'' \<and> ge_outcome r = ''admitted''"

definition count_interrupts_pair ::
  "string \<Rightarrow> string \<Rightarrow> int \<Rightarrow> GuidanceLog \<Rightarrow> nat \<times> int option"
where
  "count_interrupts_pair actor tgt since gl =
     (let ats = map ge_at (filter (\<lambda>r. ge_actor r = actor \<and> ge_target r = tgt \<and>
                  counts_as_interrupt r \<and> since \<le> ge_at r) (gl_rows gl))
      in (length ats, if ats = [] then None else Some (Max (set ats))))"

definition count_interrupts_target :: "string \<Rightarrow> int \<Rightarrow> GuidanceLog \<Rightarrow> nat \<times> int option" where
  "count_interrupts_target tgt since gl =
     (let rows = filter (\<lambda>r. ge_target r = tgt \<and> counts_as_interrupt r \<and> since \<le> ge_at r) (gl_rows gl);
          latest = rev (sort_key (\<lambda>r. (ge_at r, ge_id r)) rows)
      in (length rows, if 2 < length latest then Some (ge_at (latest ! 2)) else None))"

definition purge_guidance_events :: "int \<Rightarrow> GuidanceLog \<Rightarrow> nat \<times> GuidanceLog" where
  "purge_guidance_events now gl =
     (let old = (\<lambda>r. ge_at r < saturating_sub now 86400)
      in (sql_matches old (gl_rows gl), gl\<lparr>gl_rows := sql_delete old (gl_rows gl)\<rparr>))"

fun actor_label :: "GuidanceActor \<Rightarrow> string" where
  "actor_label (AgentActor i) = i"
| "actor_label AttachedHuman = ''human''"
| "actor_label BareClient = ''unattested''"
| "actor_label InternalPause = ''internal_pause''"

fun action_label :: "GuidanceAction \<Rightarrow> string" where
  "action_label Steer = ''steer''"
| "action_label Interrupt = ''interrupt''"
| "action_label QueuePromote = ''steer''"
| "action_label _ = ''read_only''"

fun path_label :: "GuidancePath \<Rightarrow> string" where
  "path_label SendIdempotent = ''send_idempotent''"
| "path_label Send = ''send''"
| "path_label Control = ''control''"
| "path_label Cancel = ''cancel''"

fun refusal_code :: "GuidanceRefusal \<Rightarrow> string" where
  "refusal_code (IntentNotPermitted reason) = ''intent_not_permitted''"
| "refusal_code ReferentPaused = ''referent_paused''"
| "refusal_code MissionActive = ''mission_active''"
| "refusal_code NotEditable = ''not_held''"
| "refusal_code NoActiveTurn = ''no_active_turn''"
| "refusal_code SteerUnavailable = ''steer_unavailable''"
| "refusal_code (InterruptRateLimited n) = ''interrupt_rate_limited''"

text \<open>The part of \<open>guidance_facts\<close> that reads the journal.\<close>

definition guidance_rates :: "GuidanceFacts \<Rightarrow> string \<Rightarrow> GuidanceLog \<Rightarrow> GuidanceFacts" where
  "guidance_rates facts tgt gl =
     (case gf_actor facts of
        AgentActor i \<Rightarrow>
          if gf_action facts = Interrupt then
            let (pair_count, last_pair) =
                  count_interrupts_pair i tgt (saturating_sub (gf_now facts) 30) gl;
                (target_count, third_target) =
                  count_interrupts_target tgt (saturating_sub (gf_now facts) 600) gl
            in facts\<lparr>recent_interrupts_pair := pair_count, last_interrupt_pair_at := last_pair,
                     recent_interrupts_target := target_count,
                     third_latest_interrupt_target_at := third_target\<rparr>
          else facts\<lparr>recent_interrupts_pair := 0, last_interrupt_pair_at := None,
                     recent_interrupts_target := 0, third_latest_interrupt_target_at := None\<rparr>
      | _ \<Rightarrow> facts\<lparr>recent_interrupts_pair := 0, last_interrupt_pair_at := None,
                   recent_interrupts_target := 0, third_latest_interrupt_target_at := None\<rparr>)"

definition record_guidance_outcome ::
  "GuidanceFacts \<Rightarrow> string \<Rightarrow> string \<Rightarrow> string \<Rightarrow> GuidanceLog \<Rightarrow> GuidanceLog"
where
  "record_guidance_outcome facts tgt mid outcome gl =
     (if gf_actor facts = InternalPause \<or> \<not> (gf_action facts = Steer \<or> gf_action facts = Interrupt)
      then gl
      else record_guidance_event (gf_now facts) (actor_label (gf_actor facts)) tgt
             (action_label (gf_action facts)) (path_label (gf_path facts)) (Some mid) outcome gl)"

definition check_guidance ::
  "GuidanceFacts \<Rightarrow> string \<Rightarrow> string \<Rightarrow> GuidanceLog \<Rightarrow> (GuidanceRefusal + GuidanceFacts) \<times> GuidanceLog"
where
  "check_guidance facts0 tgt mid gl =
     (let facts = guidance_rates facts0 tgt gl
      in case authorize facts of
           Inl refusal \<Rightarrow>
             (Inl refusal, record_guidance_outcome facts tgt mid (''refused:'' @ refusal_code refusal) gl)
         | Inr _ \<Rightarrow> (Inr facts, gl))"

text \<open>
  One attempt of the daemon: the check, then the rest of the handler under the same lock,
  which records \<open>admitted\<close> or, when a later step fails (\<open>Some code\<close>), a refusal. The second
  component is the trace of admitted interrupts by agents, which no purge shortens.
\<close>

datatype guidance_op =
    GuidanceAttempt GuidanceFacts string string "string option"
  | GuidancePurge int

fun guidance_op_time :: "guidance_op \<Rightarrow> int" where
  "guidance_op_time (GuidanceAttempt facts tgt mid late) = gf_now facts"
| "guidance_op_time (GuidancePurge now) = now"

type_synonym guidance_trace = "(int \<times> string \<times> string) list"

definition agent_interrupt :: "GuidanceFacts \<Rightarrow> string \<Rightarrow> guidance_trace" where
  "agent_interrupt facts tgt =
     (case gf_actor facts of
        AgentActor i \<Rightarrow> if gf_action facts = Interrupt \<and> i \<noteq> ''human'' then [(gf_now facts, i, tgt)] else []
      | _ \<Rightarrow> [])"

fun guidance_exec :: "guidance_op \<Rightarrow> GuidanceLog \<times> guidance_trace \<Rightarrow> GuidanceLog \<times> guidance_trace" where
  "guidance_exec (GuidanceAttempt facts tgt mid late) (gl, tr) =
     (case check_guidance facts tgt mid gl of
        (Inl _, gl') \<Rightarrow> (gl', tr)
      | (Inr f, gl') \<Rightarrow>
          (case late of
             None \<Rightarrow> (record_guidance_outcome f tgt mid ''admitted'' gl', tr @ agent_interrupt f tgt)
           | Some code \<Rightarrow> (record_guidance_outcome f tgt mid (''refused:'' @ code) gl', tr)))"
| "guidance_exec (GuidancePurge now) (gl, tr) = (snd (purge_guidance_events now gl), tr)"

definition empty_guidance_log :: GuidanceLog where
  "empty_guidance_log = \<lparr>gl_next = 1, gl_rows = []\<rparr>"

text \<open>Interrupts of the trace in the window of \<open>w\<close> seconds that ends at \<open>T\<close>.\<close>

definition in_window :: "int \<Rightarrow> int \<Rightarrow> (int \<times> string \<times> string) \<Rightarrow> bool" where
  "in_window w T e \<longleftrightarrow> T - w < fst e \<and> fst e \<le> T"

definition rate_limited :: "guidance_trace \<Rightarrow> bool" where
  "rate_limited tr \<longleftrightarrow>
     (\<forall>T actor tgt. length (filter (\<lambda>e. in_window 30 T e \<and> snd e = (actor, tgt)) tr) \<le> 1) \<and>
     (\<forall>T tgt. length (filter (\<lambda>e. in_window 600 T e \<and> snd (snd e) = tgt) tr) \<le> 3)"

definition guidance_clock :: "int \<Rightarrow> bool" where
  "guidance_clock t \<longleftrightarrow> 0 \<le> t \<and> t \<le> i64_max - 600"

section \<open>Lemmas\<close>

lemma authorize_agent_interrupt:
  assumes "gf_action f = Interrupt" and "gf_actor f = AgentActor i"
  shows "authorize f =
    (if child_proof f \<or> \<not> identity_attested f then Inl (IntentNotPermitted ''identity_unattested'')
     else if actor_is_target f then Inl (IntentNotPermitted ''self_target'')
     else if cross_project f then Inl (IntentNotPermitted ''cross_project'')
     else if \<not> actor_is_parent f then Inl (IntentNotPermitted ''not_parent'')
     else if paused f then Inl ReferentPaused
     else if target_has_active_native_task f then Inl MissionActive
     else if 0 < max (pair_retry f) (target_retry f)
     then Inl (InterruptRateLimited (max (pair_retry f) (target_retry f)))
     else Inr ())"
  by (subst authorize.simps) (simp add: assms)

lemma authorize_interruptD:
  assumes "authorize f = Inr ()" and "gf_action f = Interrupt" and "gf_actor f = AgentActor i"
  shows "pair_retry f = 0" and "target_retry f = 0"
  using assms by (simp_all add: authorize_agent_interrupt split: if_splits)

lemma guidance_rates_simps [simp]:
  "gf_action (guidance_rates f tgt gl) = gf_action f"
  "gf_actor (guidance_rates f tgt gl) = gf_actor f"
  "gf_now (guidance_rates f tgt gl) = gf_now f"
  "gf_path (guidance_rates f tgt gl) = gf_path f"
  by (auto simp: guidance_rates_def Let_def split: GuidanceActor.splits prod.splits)

lemma saturating_clock:
  assumes "guidance_clock now" and "0 \<le> d" and "d \<le> 86400"
  shows "saturating_sub now d = now - d"
  using assms by (simp add: guidance_clock_def saturating_sub_def i64_saturate_def i64_max_def i64_min_def)

lemma saturating_retry:
  assumes "guidance_clock now" and "at \<le> now" and "- 86400 \<le> at" and "0 \<le> d" and "d \<le> 600"
    and "nat (max 0 (saturating_sub (saturating_add at d) now)) = 0"
  shows "at + d \<le> now"
  using assms
  by (auto simp: guidance_clock_def saturating_sub_def saturating_add_def i64_saturate_def i64_max_def
      i64_min_def split: if_splits)

lemma admitted_pair_spaced:
  assumes auth: "authorize (guidance_rates f tgt gl) = Inr ()"
    and f: "gf_action f = Interrupt" "gf_actor f = AgentActor i" "guidance_clock (gf_now f)"
    and past: "\<forall>r\<in>set (gl_rows gl). counts_as_interrupt r \<longrightarrow> ge_at r \<le> gf_now f"
    and r: "r \<in> set (gl_rows gl)" "counts_as_interrupt r" "ge_actor r = i" "ge_target r = tgt"
  shows "ge_at r + 30 \<le> gf_now f"
proof (rule ccontr)
  assume late: "\<not> ge_at r + 30 \<le> gf_now f"
  let ?now = "gf_now f"
  let ?rows = "filter (\<lambda>r. ge_actor r = i \<and> ge_target r = tgt \<and> counts_as_interrupt r \<and>
    ?now - 30 \<le> ge_at r) (gl_rows gl)"
  let ?m = "Max (set (map ge_at ?rows))"
  have mem: "ge_at r \<in> set (map ge_at ?rows)" using r late by auto
  have since: "saturating_sub ?now 30 = ?now - 30" using f(3) by (simp add: saturating_clock)
  have "?rows \<noteq> []"
    using length_pos_if_in_set [OF mem] by (simp only: length_map length_greater_0_conv simp_thms)
  then have facts: "recent_interrupts_pair (guidance_rates f tgt gl) = length ?rows"
    "last_interrupt_pair_at (guidance_rates f tgt gl) = Some ?m"
    by (simp_all add: guidance_rates_def f(1,2) count_interrupts_pair_def since Let_def split: prod.split)
  have "?m \<in> set (map ge_at ?rows)" using mem by (intro Max_in) auto
  then have m: "?m \<le> ?now" "?now - 30 \<le> ?m" using past by auto
  have "ge_at r \<le> ?m" using mem by (intro Max_ge) auto
  have "pair_retry (guidance_rates f tgt gl) = 0"
    using authorize_interruptD(1) [OF auth] f by simp
  then have "nat (max 0 (saturating_sub (saturating_add ?m 30) ?now)) = 0"
    using \<open>?rows \<noteq> []\<close> by (simp add: pair_retry_def facts)
  then have "?m + 30 \<le> ?now"
    using saturating_retry [of ?now ?m 30] f(3) m by (simp add: guidance_clock_def)
  with \<open>ge_at r \<le> ?m\<close> late show False by simp
qed

text \<open>A list sorted downwards whose third element is small has at most two large ones.\<close>

lemma filter_above_third:
  fixes key :: "'a \<Rightarrow> int"
  assumes "sorted_wrt (\<lambda>a b. key b \<le> key a) xs" and "2 < length xs" and "key (xs ! 2) \<le> b"
  shows "length (filter (\<lambda>x. b < key x) xs) \<le> 2"
proof -
  have "filter (\<lambda>x. b < key x) (drop 2 xs) = []"
  proof (rule ccontr)
    assume "filter (\<lambda>x. b < key x) (drop 2 xs) \<noteq> []"
    then obtain x where "x \<in> set (drop 2 xs)" "b < key x" by (auto simp: filter_empty_conv)
    then obtain k where k: "k < length xs - 2" "x = xs ! (2 + k)"
      by (auto simp: in_set_conv_nth)
    have "key (xs ! (2 + k)) \<le> key (xs ! 2)"
      using assms(1,2) k(1) by (cases k) (auto simp: sorted_wrt_iff_nth_less)
    with assms(3) \<open>b < key x\<close> k(2) show False by simp
  qed
  then have "length (filter (\<lambda>x. b < key x) xs) = length (filter (\<lambda>x. b < key x) (take 2 xs))"
    using filter_append [of "\<lambda>x. b < key x" "take 2 xs" "drop 2 xs"] by simp
  also have "\<dots> \<le> length (take 2 xs)" by (rule length_filter_le)
  finally show ?thesis by simp
qed

lemma sorted_latest:
  "sorted_wrt (\<lambda>a b. ge_at b \<le> ge_at a) (rev (sort_key (\<lambda>r. (ge_at r, ge_id r)) rows))"
proof -
  have "sorted_wrt (\<lambda>a b. (ge_at a, ge_id a) \<le> (ge_at b, ge_id b)) (sort_key (\<lambda>r. (ge_at r, ge_id r)) rows)"
    using sorted_sort_key [of "\<lambda>r. (ge_at r, ge_id r)" rows] by (simp add: sorted_map)
  then have "sorted_wrt (\<lambda>a b. ge_at a \<le> ge_at b) (sort_key (\<lambda>r. (ge_at r, ge_id r)) rows)"
    by (rule sorted_wrt_mono_rel [rotated]) auto
  then show ?thesis by (simp add: sorted_wrt_rev)
qed

lemma admitted_target_spaced:
  assumes auth: "authorize (guidance_rates f tgt gl) = Inr ()"
    and f: "gf_action f = Interrupt" "gf_actor f = AgentActor i" "guidance_clock (gf_now f)"
    and past: "\<forall>r\<in>set (gl_rows gl). counts_as_interrupt r \<longrightarrow> ge_at r \<le> gf_now f"
  shows "length (filter (\<lambda>r. ge_target r = tgt \<and> counts_as_interrupt r \<and> gf_now f - 600 < ge_at r)
    (gl_rows gl)) \<le> 2"
proof -
  let ?now = "gf_now f"
  let ?rows = "filter (\<lambda>r. ge_target r = tgt \<and> counts_as_interrupt r \<and> ?now - 600 \<le> ge_at r) (gl_rows gl)"
  let ?latest = "rev (sort_key (\<lambda>r. (ge_at r, ge_id r)) ?rows)"
  have since: "saturating_sub ?now 600 = ?now - 600" using f(3) by (simp add: saturating_clock)
  have facts: "recent_interrupts_target (guidance_rates f tgt gl) = length ?rows"
    "third_latest_interrupt_target_at (guidance_rates f tgt gl) =
       (if 2 < length ?latest then Some (ge_at (?latest ! 2)) else None)"
    by (simp_all add: guidance_rates_def f(1,2) count_interrupts_target_def since Let_def split: prod.split)
  have retry: "target_retry (guidance_rates f tgt gl) = 0"
    using authorize_interruptD(2) [OF auth] f by simp
  have sub: "filter (\<lambda>r. ge_target r = tgt \<and> counts_as_interrupt r \<and> ?now - 600 < ge_at r) (gl_rows gl) =
      filter (\<lambda>r. ?now - 600 < ge_at r) ?rows"
    by (auto intro: filter_cong)
  show ?thesis
  proof (cases "length ?rows < 3")
    case True
    then show ?thesis
      unfolding sub using length_filter_le [of "\<lambda>r. ?now - 600 < ge_at r" ?rows] by linarith
  next
    case False
    then have len: "2 < length ?latest" by simp
    let ?third = "ge_at (?latest ! 2)"
    have "?latest ! 2 \<in> set ?rows" using nth_mem [OF len] by (simp only: set_rev set_sort)
    then have third: "?third \<le> ?now" "?now - 600 \<le> ?third" using past by auto
    have "nat (max 0 (saturating_sub (saturating_add ?third 600) ?now)) = 0"
      using retry False len unfolding target_retry_def facts by simp
    then have "?third \<le> ?now - 600"
      using saturating_retry [of ?now ?third 600] f(3) third by (simp add: guidance_clock_def)
    then have "length (filter (\<lambda>r. ?now - 600 < ge_at r) ?latest) \<le> 2"
      using sorted_latest len by (intro filter_above_third)
    moreover have "length (filter (\<lambda>r. ?now - 600 < ge_at r) ?latest) =
        length (filter (\<lambda>r. ?now - 600 < ge_at r) ?rows)"
      by (simp only: rev_filter [symmetric] filter_sort length_rev length_sort)
    ultimately show ?thesis unfolding sub by simp
  qed
qed

subsection \<open>The journal follows the trace\<close>

definition journal_event :: "GuidanceEvent \<Rightarrow> int \<times> string \<times> string" where
  "journal_event r = (ge_at r, ge_actor r, ge_target r)"

definition journal_trace :: "GuidanceLog \<Rightarrow> guidance_trace" where
  "journal_trace gl = map journal_event (filter counts_as_interrupt (gl_rows gl))"

definition guidance_inv :: "int \<Rightarrow> GuidanceLog \<times> guidance_trace \<Rightarrow> bool" where
  "guidance_inv now st \<longleftrightarrow>
     (\<forall>e\<in>set (journal_trace (fst st)) \<union> set (snd st). fst e \<le> now) \<and>
     (\<forall>b \<ge> now - 86400. filter (\<lambda>e. b \<le> fst e) (journal_trace (fst st)) =
        filter (\<lambda>e. b \<le> fst e) (snd st)) \<and>
     rate_limited (snd st)"

lemma rate_limited_snoc:
  assumes "rate_limited tr" and "\<forall>e\<in>set tr. fst e \<le> now"
    and pair: "\<forall>e\<in>set tr. snd e = (i, tgt) \<longrightarrow> fst e + 30 \<le> now"
    and target: "length (filter (\<lambda>e. now - 600 < fst e \<and> snd (snd e) = tgt) tr) \<le> 2"
  shows "rate_limited (tr @ [(now, i, tgt)])"
  unfolding rate_limited_def
proof (intro conjI allI)
  fix T actor tgt'
  have old: "length (filter (\<lambda>e. in_window 30 T e \<and> snd e = (actor, tgt')) tr) \<le> 1"
    using assms(1) by (simp add: rate_limited_def)
  have "filter (\<lambda>e. in_window 30 T e \<and> snd e = (i, tgt)) tr = []" if "now \<le> T"
    using pair that by (auto simp: in_window_def filter_empty_conv)
  then show "length (filter (\<lambda>e. in_window 30 T e \<and> snd e = (actor, tgt')) (tr @ [(now, i, tgt)])) \<le> 1"
    using old by (cases "now \<le> T \<and> (actor, tgt') = (i, tgt)") (auto simp: in_window_def)
next
  fix T tgt'
  have old: "length (filter (\<lambda>e. in_window 600 T e \<and> snd (snd e) = tgt') tr) \<le> 3"
    using assms(1) by (simp add: rate_limited_def)
  have "length (filter (\<lambda>e. in_window 600 T e \<and> snd (snd e) = tgt) tr) \<le> 2" if "now \<le> T"
  proof -
    have "length (filter (\<lambda>e. in_window 600 T e \<and> snd (snd e) = tgt) tr) \<le>
        length (filter (\<lambda>e. now - 600 < fst e \<and> snd (snd e) = tgt) tr)"
      using that by (induction tr) (auto simp: in_window_def)
    with target show ?thesis by simp
  qed
  then show "length (filter (\<lambda>e. in_window 600 T e \<and> snd (snd e) = tgt') (tr @ [(now, i, tgt)])) \<le> 3"
    using old by (cases "now \<le> T \<and> tgt' = tgt") (auto simp: in_window_def)
qed

lemma authorize_bare_interrupt:
  assumes "gf_action f = Interrupt" and "gf_actor f = BareClient"
  shows "authorize f = Inl (IntentNotPermitted ''identity_unattested'')"
  by (subst authorize.simps) (simp add: assms)

lemma journal_trace_record:
  assumes "outcome = ''admitted'' \<longrightarrow> gf_actor f \<noteq> BareClient \<or> gf_action f \<noteq> Interrupt"
  shows "journal_trace (record_guidance_outcome f tgt mid outcome gl) =
     journal_trace gl @ (if outcome = ''admitted'' then agent_interrupt f tgt else [])"
  using assms by (cases "gf_actor f"; cases "gf_action f")
    (simp_all add: journal_trace_def record_guidance_outcome_def record_guidance_event_def
      agent_interrupt_def counts_as_interrupt_def journal_event_def)

lemma journal_trace_purge:
  assumes "guidance_clock now"
  shows "journal_trace (snd (purge_guidance_events now gl)) =
    filter (\<lambda>e. now - 86400 \<le> fst e) (journal_trace gl)"
proof -
  have "saturating_sub now 86400 = now - 86400" using assms by (simp add: saturating_clock)
  then show ?thesis
    by (auto simp: journal_trace_def purge_guidance_events_def sql_delete_def filter_map o_def
        journal_event_def Let_def not_less conj_commute)
qed

lemma guidance_inv_later: "guidance_inv now st \<Longrightarrow> now \<le> now' \<Longrightarrow> guidance_inv now' st"
  by (force simp: guidance_inv_def)

lemma guidance_inv_purge:
  assumes "guidance_inv now (gl, tr)" and "guidance_clock now"
  shows "guidance_inv now (snd (purge_guidance_events now gl), tr)"
proof -
  have "filter (\<lambda>e. b \<le> fst e) (filter (\<lambda>e. now - 86400 \<le> fst e) xs) = filter (\<lambda>e. b \<le> fst e) xs"
    if "now - 86400 \<le> b" for b and xs :: guidance_trace
    using that by (auto intro: filter_cong)
  then show ?thesis using assms by (auto simp: guidance_inv_def journal_trace_purge)
qed

lemma guidance_inv_admit:
  assumes inv: "guidance_inv (gf_now f) (gl, tr)" and clock: "guidance_clock (gf_now f)"
    and auth: "authorize (guidance_rates f tgt gl) = Inr ()"
  shows "rate_limited (tr @ agent_interrupt f tgt)"
proof (cases "agent_interrupt f tgt = []")
  case True
  with inv show ?thesis by (simp add: guidance_inv_def)
next
  case False
  let ?now = "gf_now f"
  obtain i where f: "gf_action f = Interrupt" "gf_actor f = AgentActor i" "i \<noteq> ''human''"
    using False by (auto simp: agent_interrupt_def split: GuidanceActor.splits if_splits)
  have past: "\<forall>r\<in>set (gl_rows gl). counts_as_interrupt r \<longrightarrow> ge_at r \<le> ?now"
  proof (intro ballI impI)
    fix r assume "r \<in> set (gl_rows gl)" "counts_as_interrupt r"
    then have "journal_event r \<in> set (journal_trace gl)" by (auto simp: journal_trace_def)
    then have "fst (journal_event r) \<le> ?now" using inv by (simp add: guidance_inv_def)
    then show "ge_at r \<le> ?now" by (simp add: journal_event_def)
  qed
  have same: "filter (\<lambda>e. b \<le> fst e) tr = filter (\<lambda>e. b \<le> fst e) (journal_trace gl)"
    if "?now - 86400 \<le> b" for b using inv that by (simp add: guidance_inv_def)
  have "rate_limited (tr @ [(?now, i, tgt)])"
  proof (rule rate_limited_snoc)
    show "rate_limited tr" "\<forall>e\<in>set tr. fst e \<le> ?now" using inv by (auto simp: guidance_inv_def)
    show "\<forall>e\<in>set tr. snd e = (i, tgt) \<longrightarrow> fst e + 30 \<le> ?now"
    proof (intro ballI impI, rule ccontr)
      fix e assume e: "e \<in> set tr" "snd e = (i, tgt)" "\<not> fst e + 30 \<le> ?now"
      then have "e \<in> set (filter (\<lambda>e. ?now - 30 \<le> fst e) tr)" by simp
      then have "e \<in> set (journal_trace gl)" using same [of "?now - 30"] by simp
      then obtain r where "r \<in> set (gl_rows gl)" "counts_as_interrupt r" "e = journal_event r"
        by (auto simp: journal_trace_def)
      then show False
        using admitted_pair_spaced [OF auth f(1,2) clock past, of r] e by (simp add: journal_event_def)
    qed
    have "filter (\<lambda>e. ?now - 600 < fst e \<and> snd (snd e) = tgt) tr =
        filter (\<lambda>e. ?now - 600 < fst e \<and> snd (snd e) = tgt) (filter (\<lambda>e. ?now - 600 \<le> fst e) tr)"
      by (auto intro: filter_cong)
    also have "\<dots> = filter (\<lambda>e. ?now - 600 < fst e \<and> snd (snd e) = tgt) (journal_trace gl)"
      unfolding same [of "?now - 600", simplified] by (auto intro: filter_cong)
    finally show "length (filter (\<lambda>e. ?now - 600 < fst e \<and> snd (snd e) = tgt) tr) \<le> 2"
      using admitted_target_spaced [OF auth f(1,2) clock past]
      by (simp add: journal_trace_def filter_map o_def journal_event_def conj_ac)
  qed
  then show ?thesis using f by (simp add: agent_interrupt_def)
qed

lemma guidance_inv_record:
  assumes inv: "guidance_inv (gf_now f) (gl, tr)"
    and bare: "outcome = ''admitted'' \<longrightarrow> gf_actor f \<noteq> BareClient \<or> gf_action f \<noteq> Interrupt"
    and rate: "rate_limited (tr @ (if outcome = ''admitted'' then agent_interrupt f tgt else []))"
  shows "guidance_inv (gf_now f) (record_guidance_outcome f tgt mid outcome gl,
    tr @ (if outcome = ''admitted'' then agent_interrupt f tgt else []))"
proof -
  have "\<forall>e\<in>set (agent_interrupt f tgt). fst e \<le> gf_now f"
    by (auto simp: agent_interrupt_def split: GuidanceActor.splits)
  then show ?thesis
    using inv rate by (auto simp: guidance_inv_def journal_trace_record [OF bare])
qed

lemma agent_interrupt_rates [simp]: "agent_interrupt (guidance_rates f tgt gl) tgt' = agent_interrupt f tgt'"
  by (simp add: agent_interrupt_def split: GuidanceActor.splits)

lemma guidance_inv_exec:
  assumes inv: "guidance_inv (guidance_op_time x) (gl, tr)" and clock: "guidance_clock (guidance_op_time x)"
  shows "guidance_inv (guidance_op_time x) (guidance_exec x (gl, tr))"
proof (cases x)
  case (GuidancePurge now)
  with assms show ?thesis by (simp add: guidance_inv_purge)
next
  case (GuidanceAttempt f tgt mid late)
  let ?f = "guidance_rates f tgt gl"
  have inv': "guidance_inv (gf_now ?f) (gl, tr)" using inv GuidanceAttempt by simp
  have rate: "rate_limited tr" using inv by (simp add: guidance_inv_def)
  have refuse: "guidance_inv (gf_now ?f) (record_guidance_outcome ?f tgt mid (''refused:'' @ code) gl, tr)"
    for code using guidance_inv_record [OF inv', of "''refused:'' @ code"] rate by simp
  show ?thesis
  proof (cases "authorize ?f")
    case (Inl r)
    then show ?thesis using refuse by (simp add: GuidanceAttempt check_guidance_def Let_def)
  next
    case (Inr u)
    then have auth: "authorize ?f = Inr ()" by simp
    have "rate_limited (tr @ agent_interrupt ?f tgt)"
      using guidance_inv_admit [OF _ _ auth] inv' clock GuidanceAttempt by simp
    moreover have "gf_actor ?f \<noteq> BareClient \<or> gf_action ?f \<noteq> Interrupt"
      using auth authorize_bare_interrupt [of ?f] by auto
    ultimately have "guidance_inv (gf_now ?f)
        (record_guidance_outcome ?f tgt mid ''admitted'' gl, tr @ agent_interrupt ?f tgt)"
      using guidance_inv_record [OF inv', of "''admitted''"] by simp
    then show ?thesis
      using refuse auth by (simp add: GuidanceAttempt check_guidance_def Let_def split: option.split)
  qed
qed

lemma guidance_inv_run:
  assumes "guidance_inv now st" and "sorted (now # map guidance_op_time xs)"
    and "\<forall>x\<in>set xs. guidance_clock (guidance_op_time x)"
  shows "\<exists>now'. guidance_inv now' (fold guidance_exec xs st)"
  using assms
proof (induction xs arbitrary: now st)
  case (Cons x xs)
  have "guidance_inv (guidance_op_time x) st"
    using Cons.prems(1,2) by (auto intro: guidance_inv_later)
  then have "guidance_inv (guidance_op_time x) (guidance_exec x st)"
    using Cons.prems(3) by (cases st) (simp add: guidance_inv_exec)
  then show ?case using Cons.IH Cons.prems(2,3) by simp
qed auto

section \<open>Properties\<close>

text \<open>
  C27. The interrupt rate limit. Whatever sequence of guidance attempts and journal purges the
  daemon runs in clock order, the interrupts by agents that it admits are rate limited: in
  every window of 30 seconds at most one per pair of actor and target, and in every window
  of 600 seconds at most three per target. The purge of the journal never makes room.
\<close>

theorem admitted_interrupts_rate_limited:
  assumes "sorted (map guidance_op_time xs)" and "\<forall>x\<in>set xs. guidance_clock (guidance_op_time x)"
  shows "rate_limited (snd (fold guidance_exec xs (empty_guidance_log, [])))"
proof -
  have "guidance_inv 0 (empty_guidance_log, [])"
    by (simp add: guidance_inv_def empty_guidance_log_def journal_trace_def rate_limited_def)
  moreover have "sorted (0 # map guidance_op_time xs)"
    using assms by (auto simp: guidance_clock_def)
  ultimately have "\<exists>now'. guidance_inv now' (fold guidance_exec xs (empty_guidance_log, []))"
    using assms(2) by (rule guidance_inv_run)
  then show ?thesis by (auto simp: guidance_inv_def)
qed

definition sample_interrupt :: "int \<Rightarrow> GuidanceFacts" where
  "sample_interrupt now =
     \<lparr>gf_action = Interrupt, gf_path = Control, gf_actor = AgentActor ''a'', identity_attested = True,
      trusted_origin = None, child_proof = False, actor_is_target = False, actor_is_parent = True,
      actor_is_child = False, actor_is_author = False, message_editable = False,
      recipient_turn_active = False, carrier_queue_fallback = False, cross_project = False,
      paused = False, target_has_active_native_task = False, recent_interrupts_pair = 0,
      recent_interrupts_target = 0, gf_now = now, last_interrupt_pair_at = None,
      third_latest_interrupt_target_at = None\<rparr>"

theorem admitted_interrupts_rate_limited_witness:
  "rate_limited (snd (fold guidance_exec
     [GuidanceAttempt (sample_interrupt 1000) ''b'' ''m1'' None,
      GuidanceAttempt (sample_interrupt 1010) ''b'' ''m2'' None, GuidancePurge 1020]
     (empty_guidance_log, [])))"
  by (rule admitted_interrupts_rate_limited)
    (simp_all add: sample_interrupt_def guidance_clock_def i64_max_def)



end
