(* ===== verification/Communication.thy ===== *)
theory Communication
  imports Message
begin

unbundle bit_operations_syntax

text \<open>
  \<open>crates/bridget-daemon/src/communication.rs\<close>: the project scope of a message and the
  canonical bytes of a published send, from which the daemon tells a faithful replay from a
  reuse of the same identity for something else. A \<open>Vec<u8>\<close> is a \<open>string\<close>; \<open>to_be_bytes\<close> is
  \<open>be_bytes\<close>. \<open>resolve_communication_project\<close> (git and the file system) is not modelled: the
  projects are given.
\<close>

section \<open>Project scope\<close>

record CommunicationProject =
  cp_host :: string
  cp_root :: string

datatype ProjectRelation = Same | Other | Unknown

record ProjectWarning =
  pw_code :: string
  pw_sender_project :: "CommunicationProject option"
  pw_recipient_project :: "CommunicationProject option"
  pw_recipient :: string
  pw_reason :: "string option"

datatype ScopeError = InvalidCrossProjectReason | CrossProjectReasonRequired

definition has_control :: "string \<Rightarrow> bool" where
  "has_control s \<longleftrightarrow> list_ex (\<lambda>c. is_control (code_point c)) (utf8_chars s)"

definition validate_cross_project_reason :: "string option \<Rightarrow> ScopeError + string option" where
  "validate_cross_project_reason reason =
     (case reason of
        None \<Rightarrow> Inr None
      | Some v \<Rightarrow>
          if has_control v then Inl InvalidCrossProjectReason
          else let t = trim v
               in if t = [] \<or> 512 < length t \<or> has_control t then Inl InvalidCrossProjectReason
                  else Inr (Some t))"

fun project_relation ::
  "CommunicationProject option \<Rightarrow> CommunicationProject option \<Rightarrow> ProjectRelation"
where
  "project_relation (Some a) (Some b) = (if a = b then Same else Other)"
| "project_relation _ _ = Unknown"

definition project_scope ::
  "CommunicationProject option \<Rightarrow> CommunicationProject option \<Rightarrow> string \<Rightarrow> string option \<Rightarrow>
   ScopeError + ProjectWarning list"
where
  "project_scope sender recipient recipient_id reason0 =
     (case validate_cross_project_reason reason0 of
        Inl e \<Rightarrow> Inl e
      | Inr reason \<Rightarrow>
          let relation = project_relation sender recipient
          in if relation = Other \<and> reason = None then Inl CrossProjectReasonRequired
             else if relation = Same then Inr []
             else Inr [\<lparr>pw_code = (if relation = Other then ''cross_project'' else ''project_unknown''),
                        pw_sender_project = sender, pw_recipient_project = recipient,
                        pw_recipient = recipient_id, pw_reason = reason\<rparr>])"

section \<open>Issuer scope\<close>

definition hex_digit :: "nat \<Rightarrow> char" where
  "hex_digit d = char_of (if d < 10 then 48 + d else 87 + d)"

fun hex_digits :: "nat \<Rightarrow> nat \<Rightarrow> string" where
  "hex_digits 0 v = []"
| "hex_digits (Suc n) v = hex_digits n (v div 16) @ [hex_digit (v mod 16)]"

definition issuer_step :: "char \<Rightarrow> u64 \<times> u64 \<Rightarrow> u64 \<times> u64" where
  "issuer_step c = (\<lambda>(first, second).
     let b = word_of_nat (byte c) in
     ((first XOR b) * 0x100000001b3,
      (word_rotl 5 second XOR b) * 0x9e3779b185ebca87))"

definition issuer_scope :: "string \<Rightarrow> string" where
  "issuer_scope identity =
     (let (first, second) = fold issuer_step identity (0xcbf29ce484222325, 0x9e3779b97f4a7c15)
      in ''012_scope_'' @ hex_digits 16 (unat first) @ hex_digits 16 (unat second))"

section \<open>Canonical bytes\<close>

text \<open>\<open>to_be_bytes\<close> of an unsigned integer of \<open>n\<close> bytes.\<close>

fun be_bytes :: "nat \<Rightarrow> nat \<Rightarrow> string" where
  "be_bytes 0 v = []"
| "be_bytes (Suc n) v = be_bytes n (v div 256) @ [char_of (v mod 256)]"

definition canonical_field :: "string \<Rightarrow> string \<Rightarrow> string" where
  "canonical_field bytes v = bytes @ be_bytes 8 (length v) @ v"

definition canonical_option :: "string \<Rightarrow> string option \<Rightarrow> string" where
  "canonical_option bytes v =
     (case v of
        Some s \<Rightarrow> canonical_field (bytes @ [char_of (1::nat)]) s
      | None \<Rightarrow> bytes @ [char_of (0::nat)])"

fun origin_byte :: "MessageOrigin option \<Rightarrow> nat" where
  "origin_byte None = 0"
| "origin_byte (Some Human) = 1"
| "origin_byte (Some Agent) = 2"
| "origin_byte (Some Routine) = 3"
| "origin_byte (Some System) = 4"

fun intent_byte :: "MessageIntent option \<Rightarrow> nat" where
  "intent_byte None = 0"
| "intent_byte (Some QueueOnly) = 1"
| "intent_byte (Some TriggerTurn) = 2"
| "intent_byte (Some SteerCurrent) = 3"
| "intent_byte (Some InterruptAndStart) = 4"
| "intent_byte (Some ControlOnly) = 5"

definition canonical_message_control :: "string \<Rightarrow> BridgetMessage \<Rightarrow> string" where
  "canonical_message_control bytes msg =
     (if origin msg = None \<and> intent msg = None \<and> references msg = [] then bytes
      else fold (\<lambda>reference b. canonical_field b reference) (references msg)
             (canonical_field
                (bytes @ [char_of (255::nat), char_of (origin_byte (origin msg)),
                          char_of (intent_byte (intent msg))])
                (be_bytes 8 (length (references msg)))))"

definition canonical_thread_notice :: "string \<Rightarrow> BridgetMessage \<Rightarrow> string" where
  "canonical_thread_notice bytes msg =
     (case thread_notice msg of
        None \<Rightarrow> bytes
      | Some notice \<Rightarrow>
          canonical_field
            (canonical_field
              (canonical_field
                (canonical_field (bytes @ ''bridget/thread-notice/v1'' @ [char_of (0::nat)])
                  (be_bytes 2 (tn_version notice)))
                (tn_thread_id notice))
              (be_bytes 8 (tn_through_seq notice)))
            (be_bytes 8 (tn_generation notice)))"

definition canonical_send :: "string \<Rightarrow> string \<Rightarrow> BridgetMessage \<Rightarrow> int \<Rightarrow> string" where
  "canonical_send scope message_id msg issued_at =
     (let b0 = ''bridget/client-send/v1'' @ [char_of (0::nat)];
          b1 = canonical_field b0 scope;
          b2 = canonical_field b1 message_id;
          b3 = canonical_field b2 (msg_to msg);
          b4 = canonical_field b3 (body msg);
          b5 = b4 @ [char_of (if reply msg then 1 else 0 :: nat)];
          b6 = canonical_field b5 (be_bytes 4 (unat (hops msg)));
          b7 = canonical_option b6 (map_option show_nat (deadline_at msg));
          b8 = canonical_option b7 (in_reply_to msg);
          b9 = canonical_message_control b8 msg;
          b10 = canonical_field b9 (be_bytes 8 (nat (issued_at mod 18446744073709551616)));
          b11 = canonical_thread_notice b10 msg
      in case cross_project_reason msg of
           Some reason \<Rightarrow>
             canonical_field (b11 @ ''bridget/cross-project/v1'' @ [char_of (0::nat)]) reason
         | None \<Rightarrow> b11)"

section \<open>Decoding lemmas\<close>

lemma length_be_bytes [simp]: "length (be_bytes n v) = n"
  by (induction n arbitrary: v) auto

lemma be_bytes_inject:
  assumes "v < 256 ^ n" and "w < 256 ^ n"
  shows "be_bytes n v = be_bytes n w \<longleftrightarrow> v = w"
  using assms
proof (induction n arbitrary: v w)
  case (Suc n)
  have "v div 256 < 256 ^ n" "w div 256 < 256 ^ n"
    using Suc.prems by (simp_all add: less_mult_imp_div_less mult.commute)
  then have "be_bytes n (v div 256) = be_bytes n (w div 256) \<longleftrightarrow> v div 256 = w div 256"
    by (rule Suc.IH)
  moreover have "char_of (v mod 256) = (char_of (w mod 256) :: char) \<longleftrightarrow> v mod 256 = w mod 256"
    by (metis mod_less_divisor of_char_of mod_mod_trivial zero_less_numeral)
  moreover have "v = w \<longleftrightarrow> v div 256 = w div 256 \<and> v mod 256 = w mod 256"
    by (metis div_mult_mod_eq)
  ultimately show ?case by simp
qed simp

definition fld :: "string \<Rightarrow> string" where
  "fld v = be_bytes 8 (length v) @ v"

definition fits :: "string \<Rightarrow> bool" where
  "fits v \<longleftrightarrow> length v < 2 ^ 64"

lemma canonical_field_fld: "canonical_field bytes v = bytes @ fld v"
  by (simp add: canonical_field_def fld_def)

lemma fld_append_inject:
  assumes "fits v" and "fits w"
  shows "fld v @ r = fld w @ s \<longleftrightarrow> v = w \<and> r = s"
proof
  assume "fld v @ r = fld w @ s"
  then have eq: "be_bytes 8 (length v) @ (v @ r) = be_bytes 8 (length w) @ (w @ s)"
    by (simp add: fld_def)
  then have "be_bytes 8 (length v) = be_bytes 8 (length w)" "v @ r = w @ s"
    by (auto simp: append_eq_append_conv)
  then have "length v = length w"
    using be_bytes_inject [of "length v" 8 "length w"] assms by (simp add: fits_def)
  with \<open>v @ r = w @ s\<close> show "v = w \<and> r = s" by simp
qed simp

lemma fits_be_bytes [simp]: "n \<le> 8 \<Longrightarrow> fits (be_bytes n v)"
  by (simp add: fits_def)

text \<open>The canonical bytes in flat form.\<close>

definition opt_bytes :: "string option \<Rightarrow> string" where
  "opt_bytes v = (case v of Some s \<Rightarrow> char_of (1::nat) # fld s | None \<Rightarrow> [char_of (0::nat)])"

definition control_bytes :: "MessageOrigin option \<times> MessageIntent option \<times> string list \<Rightarrow> string" where
  "control_bytes = (\<lambda>(orig, int, refs).
     if orig = None \<and> int = None \<and> refs = [] then []
     else char_of (255::nat) # char_of (origin_byte orig) # char_of (intent_byte int) #
          fld (be_bytes 8 (length refs)) @ concat (map fld refs))"

definition notice_bytes :: "ThreadNotice option \<Rightarrow> string" where
  "notice_bytes n =
     (case n of
        None \<Rightarrow> []
      | Some t \<Rightarrow> ''bridget/thread-notice/v1'' @ [char_of (0::nat)] @ fld (be_bytes 2 (tn_version t)) @
          fld (tn_thread_id t) @ fld (be_bytes 8 (tn_through_seq t)) @ fld (be_bytes 8 (tn_generation t)))"

definition reason_bytes :: "string option \<Rightarrow> string" where
  "reason_bytes r =
     (case r of None \<Rightarrow> [] | Some s \<Rightarrow> ''bridget/cross-project/v1'' @ [char_of (0::nat)] @ fld s)"

lemma fold_canonical_field: "fold (\<lambda>r b. b @ fld r) rs bytes = bytes @ concat (map fld rs)"
  by (induction rs arbitrary: bytes) simp_all

lemma canonical_option_bytes: "canonical_option bytes v = bytes @ opt_bytes v"
  by (simp add: canonical_option_def opt_bytes_def canonical_field_fld split: option.split)

lemma canonical_control_bytes:
  "canonical_message_control bytes msg = bytes @ control_bytes (origin msg, intent msg, references msg)"
  by (simp add: canonical_message_control_def control_bytes_def fold_canonical_field canonical_field_fld)

lemma canonical_notice_bytes: "canonical_thread_notice bytes msg = bytes @ notice_bytes (thread_notice msg)"
  by (simp add: canonical_thread_notice_def notice_bytes_def canonical_field_fld split: option.split)

lemma canonical_send_flat:
  "canonical_send scope mid msg issued_at =
     (''bridget/client-send/v1'' @ [char_of (0::nat)]) @ fld scope @ fld mid @ fld (msg_to msg) @
     fld (body msg) @ [char_of (if reply msg then 1 else 0 :: nat)] @
     fld (be_bytes 4 (unat (hops msg))) @ opt_bytes (map_option show_nat (deadline_at msg)) @
     opt_bytes (in_reply_to msg) @ control_bytes (origin msg, intent msg, references msg) @
     fld (be_bytes 8 (nat (issued_at mod 18446744073709551616))) @ notice_bytes (thread_notice msg) @
     reason_bytes (cross_project_reason msg)"
  by (simp add: canonical_send_def Let_def canonical_field_fld canonical_option_bytes
      canonical_control_bytes canonical_notice_bytes reason_bytes_def split: option.split)

lemma opt_bytes_inject:
  assumes "pred_option fits v" and "pred_option fits w"
  shows "opt_bytes v @ r = opt_bytes w @ s \<longleftrightarrow> v = w \<and> r = s"
proof -
  have "char_of (1::nat) \<noteq> (char_of (0::nat) :: char)" by simp
  then show ?thesis
    using assms by (cases v; cases w) (simp_all add: opt_bytes_def fld_append_inject)
qed

lemma flds_inject:
  assumes "length rs = length ss" and "list_all fits rs" and "list_all fits ss"
  shows "concat (map fld rs) @ r = concat (map fld ss) @ s \<longleftrightarrow> rs = ss \<and> r = s"
  using assms by (induction rs ss rule: list_induct2) (auto simp: fld_append_inject)

lemma byte_inject: "a < 256 \<Longrightarrow> b < 256 \<Longrightarrow> char_of (a::nat) = (char_of b :: char) \<longleftrightarrow> a = b"
  by (metis mod_less of_char_of)

lemma origin_byte_inject [simp]: "origin_byte a = origin_byte b \<longleftrightarrow> a = b"
  by (cases a rule: origin_byte.cases; cases b rule: origin_byte.cases) simp_all

lemma intent_byte_inject [simp]: "intent_byte a = intent_byte b \<longleftrightarrow> a = b"
  by (cases a rule: intent_byte.cases; cases b rule: intent_byte.cases) simp_all

lemma origin_byte_lt [simp]: "origin_byte a < 256"
  by (cases a rule: origin_byte.cases) simp_all

lemma intent_byte_lt [simp]: "intent_byte a < 256"
  by (cases a rule: intent_byte.cases) simp_all

lemma be_bytes_high_zero: "v < 256 ^ n \<Longrightarrow> be_bytes (Suc n) v = char_of (0::nat) # be_bytes n v"
proof (induction n arbitrary: v)
  case (Suc n)
  then have "v div 256 < 256 ^ n" by (simp add: less_mult_imp_div_less mult.commute)
  then show ?case using Suc.IH [of "v div 256"] by simp
qed simp

lemma fld_be8_head: "\<exists>t. fld (be_bytes 8 x) = char_of (0::nat) # t"
  using be_bytes_high_zero [of 8 7] by (simp add: fld_def)

definition control_fits :: "MessageOrigin option \<times> MessageIntent option \<times> string list \<Rightarrow> bool" where
  "control_fits c \<longleftrightarrow> length (snd (snd c)) < 2 ^ 64 \<and> list_all fits (snd (snd c))"

lemma control_bytes_inject:
  assumes "control_fits c" and "control_fits d"
  shows "control_bytes c @ fld (be_bytes 8 x) @ r = control_bytes d @ fld (be_bytes 8 y) @ s \<longleftrightarrow>
    c = d \<and> fld (be_bytes 8 x) @ r = fld (be_bytes 8 y) @ s"
proof -
  obtain oa ia ra where c: "c = (oa, ia, ra)" by (cases c)
  obtain ob ib rb where d: "d = (ob, ib, rb)" by (cases d)
  have ff: "char_of (255::nat) \<noteq> (char_of (0::nat) :: char)" by simp
  obtain tx where tx: "fld (be_bytes 8 x) = char_of (0::nat) # tx" using fld_be8_head by blast
  obtain ty where ty: "fld (be_bytes 8 y) = char_of (0::nat) # ty" using fld_be8_head by blast
  have sized: "length ra < 256 ^ 8" "length rb < 256 ^ 8" "list_all fits ra" "list_all fits rb"
    using assms by (simp_all add: c d control_fits_def)
  have both: "fld (be_bytes 8 (length ra)) @ concat (map fld ra) @ u =
      fld (be_bytes 8 (length rb)) @ concat (map fld rb) @ v \<longleftrightarrow> ra = rb \<and> u = v" for u v
    using sized flds_inject [of ra rb u v] be_bytes_inject [of "length ra" 8 "length rb"]
    by (auto simp: fld_append_inject)
  show ?thesis
  proof (cases "c = (None, None, []) \<or> d = (None, None, [])")
    case True
    then show ?thesis using ff by (auto simp: c d control_bytes_def tx ty)
  next
    case False
    then have "control_bytes c @ fld (be_bytes 8 x) @ r =
        char_of (255::nat) # char_of (origin_byte oa) # char_of (intent_byte ia) #
        fld (be_bytes 8 (length ra)) @ concat (map fld ra) @ fld (be_bytes 8 x) @ r"
      "control_bytes d @ fld (be_bytes 8 y) @ s =
        char_of (255::nat) # char_of (origin_byte ob) # char_of (intent_byte ib) #
        fld (be_bytes 8 (length rb)) @ concat (map fld rb) @ fld (be_bytes 8 y) @ s"
      by (auto simp: c d control_bytes_def)
    then show ?thesis by (simp add: both byte_inject c d)
  qed
qed

definition notice_fits :: "ThreadNotice \<Rightarrow> bool" where
  "notice_fits t \<longleftrightarrow> tn_version t < 2 ^ 16 \<and> fits (tn_thread_id t) \<and>
     tn_through_seq t < 2 ^ 64 \<and> tn_generation t < 2 ^ 64"

lemma reason_bytes_inject:
  assumes "pred_option fits v" and "pred_option fits w"
  shows "reason_bytes v = reason_bytes w \<longleftrightarrow> v = w"
  using assms fld_append_inject [of "the v" "the w" "[]" "[]"]
  by (cases v; cases w) (simp_all add: reason_bytes_def)

lemma notice_fields_inject:
  assumes "notice_fits t" and "notice_fits u"
  shows "fld (be_bytes 2 (tn_version t)) @ fld (tn_thread_id t) @ fld (be_bytes 8 (tn_through_seq t)) @
      fld (be_bytes 8 (tn_generation t)) @ r =
    fld (be_bytes 2 (tn_version u)) @ fld (tn_thread_id u) @ fld (be_bytes 8 (tn_through_seq u)) @
      fld (be_bytes 8 (tn_generation u)) @ s \<longleftrightarrow> t = u \<and> r = s"
  using assms be_bytes_inject [of "tn_version t" 2 "tn_version u"]
    be_bytes_inject [of "tn_through_seq t" 8 "tn_through_seq u"]
    be_bytes_inject [of "tn_generation t" 8 "tn_generation u"]
  by (auto simp: fld_append_inject notice_fits_def)

lemma notice_reason_inject:
  assumes "pred_option notice_fits n" "pred_option notice_fits m"
    and "pred_option fits v" "pred_option fits w"
  shows "notice_bytes n @ reason_bytes v = notice_bytes m @ reason_bytes w \<longleftrightarrow> n = m \<and> v = w"
proof (cases "n = None \<and> m = None")
  case True
  then show ?thesis using reason_bytes_inject [OF assms(3,4)] by (simp add: notice_bytes_def)
next
  case False
  then show ?thesis
    using assms reason_bytes_inject [OF assms(3,4)]
    by (cases n; cases m; cases v; cases w)
      (auto simp: notice_bytes_def notice_fields_inject, auto simp: reason_bytes_def)
qed

lemma show_nat_inject: "show_nat a = show_nat b \<longleftrightarrow> a = b"
  by (metis digits_value_show_nat of_nat_eq_iff)

lemma show_nat_option_inject: "map_option show_nat a = map_option show_nat b \<longleftrightarrow> a = b"
  by (cases a; cases b) (simp_all add: show_nat_inject)

lemma fits_show_nat:
  assumes "n < 2 ^ 64"
  shows "fits (show_nat n)"
proof -
  have "length (show_nat n) \<le> 20" using assms by (intro length_show_nat) simp_all
  then show ?thesis by (simp add: fits_def)
qed

lemma issued_inject:
  assumes "is_i64 a" and "is_i64 b"
  shows "nat (a mod 18446744073709551616) = nat (b mod 18446744073709551616) \<longleftrightarrow> a = b"
proof
  assume "nat (a mod 18446744073709551616) = nat (b mod 18446744073709551616)"
  then have "a mod 18446744073709551616 = b mod 18446744073709551616"
    by (simp add: nat_eq_iff)
  then have "18446744073709551616 dvd a - b" by (simp add: mod_eq_dvd_iff)
  moreover have "\<bar>a - b\<bar> < 18446744073709551616"
    using assms by (simp add: is_i64_def i64_max_def i64_min_def abs_less_iff)
  ultimately have "a - b = 0" using dvd_imp_le_int [of "a - b" 18446744073709551616] by fastforce
  then show "a = b" by simp
qed simp

text \<open>What a Rust value of this type always satisfies: lengths and counters are \<open>u64\<close>.\<close>

definition message_fits :: "BridgetMessage \<Rightarrow> bool" where
  "message_fits msg \<longleftrightarrow>
     fits (msg_to msg) \<and> fits (body msg) \<and> pred_option (\<lambda>d. d < 2 ^ 64) (deadline_at msg) \<and>
     pred_option fits (in_reply_to msg) \<and> control_fits (origin msg, intent msg, references msg) \<and>
     pred_option notice_fits (thread_notice msg) \<and> pred_option fits (cross_project_reason msg)"

text \<open>The part of a message that the canonical bytes cover.\<close>

definition same_send :: "BridgetMessage \<Rightarrow> BridgetMessage \<Rightarrow> bool" where
  "same_send m n \<longleftrightarrow>
     msg_to m = msg_to n \<and> body m = body n \<and> reply m = reply n \<and> hops m = hops n \<and>
     deadline_at m = deadline_at n \<and> in_reply_to m = in_reply_to n \<and> origin m = origin n \<and>
     intent m = intent n \<and> references m = references n \<and> thread_notice m = thread_notice n \<and>
     cross_project_reason m = cross_project_reason n"

lemma fits_deadline: "pred_option (\<lambda>d. d < 2 ^ 64) d \<Longrightarrow> pred_option fits (map_option show_nat d)"
  by (cases d) (simp_all add: fits_show_nat)

section \<open>Properties\<close>

text \<open>
  C31. The canonical bytes are unambiguous. Two sends have the same canonical bytes exactly
  when they have the same issuer scope, message identity and date and agree on recipient,
  body, reply flag, hops, deadline, request answered, origin, intent, references, thread
  notice and cross-project reason: no change of any of these can pass for a faithful replay.
\<close>

theorem canonical_send_unambiguous:
  assumes "fits s" "fits s'" "fits i" "fits i'" "message_fits m" "message_fits m'"
    and "is_i64 at" "is_i64 at'"
  shows "canonical_send s i m at = canonical_send s' i' m' at' \<longleftrightarrow>
    s = s' \<and> i = i' \<and> at = at' \<and> same_send m m'"
proof -
  have m: "fits (msg_to m)" "fits (body m)" "pred_option fits (map_option show_nat (deadline_at m))"
    "pred_option fits (in_reply_to m)" "control_fits (origin m, intent m, references m)"
    "pred_option notice_fits (thread_notice m)" "pred_option fits (cross_project_reason m)"
    using assms(5) by (simp_all add: message_fits_def fits_deadline)
  have m': "fits (msg_to m')" "fits (body m')" "pred_option fits (map_option show_nat (deadline_at m'))"
    "pred_option fits (in_reply_to m')" "control_fits (origin m', intent m', references m')"
    "pred_option notice_fits (thread_notice m')" "pred_option fits (cross_project_reason m')"
    using assms(6) by (simp_all add: message_fits_def fits_deadline)
  have hops: "be_bytes 4 (unat (hops m)) = be_bytes 4 (unat (hops m')) \<longleftrightarrow> hops m = hops m'"
    using be_bytes_inject [of "unat (hops m)" 4 "unat (hops m')"] unsigned_less [of "hops m"]
      unsigned_less [of "hops m'"] by (simp add: word_unat_eq_iff)
  have issued: "be_bytes 8 (nat (at mod 18446744073709551616)) = be_bytes 8 (nat (at' mod 18446744073709551616))
      \<longleftrightarrow> at = at'"
    using be_bytes_inject [of "nat (at mod 18446744073709551616)" 8 "nat (at' mod 18446744073709551616)"]
      issued_inject [OF assms(7,8)] by (simp add: nat_less_iff)
  have reply: "char_of (if reply m then 1 else 0 :: nat) = (char_of (if reply m' then 1 else 0 :: nat) :: char)
      \<longleftrightarrow> reply m = reply m'"
    by simp
  show ?thesis
    unfolding canonical_send_flat same_send_def
    using assms m m'
    by (simp add: fld_append_inject opt_bytes_inject control_bytes_inject notice_reason_inject hops
        issued reply show_nat_option_inject) blast
qed

theorem canonical_send_unambiguous_witness:
  "canonical_send ''s'' ''i'' (message_new ''u-u'' ''a'' ''b'' ''hello'') 7 \<noteq>
   canonical_send ''s'' ''i'' (message_new ''u-u'' ''a'' ''b'' ''hullo'') 7"
  using canonical_send_unambiguous [of "''s''" "''s''" "''i''" "''i''"
      "message_new ''u-u'' ''a'' ''b'' ''hello''" "message_new ''u-u'' ''a'' ''b'' ''hullo''" 7 7]
  by (simp add: fits_def message_fits_def control_fits_def message_new_def same_send_def
      is_i64_def i64_max_def i64_min_def)

end
