(* ===== verification/Referent_Control.thy ===== *)
theory Referent_Control
  imports Contracts "HOL-Library.Product_Lexorder"
begin

text \<open>
  The control state of the referent, \<open>crates/bridget-daemon/src/referent_control.rs\<close>: the
  pause of all autonomous effects, its journal, the compare-and-set mutation with replay by
  command identity, and the time an execution was frozen. \<open>control_state\<close> is one row;
  \<open>control_events\<close> is a list in the order of its autoincremented id, so that
  \<open>ORDER BY at, id\<close> is a stable sort by \<open>at\<close>.
\<close>

section \<open>State\<close>

definition DEFAULT_AUTO_OBJECTIVES_CAP :: nat where "DEFAULT_AUTO_OBJECTIVES_CAP = 5"
definition MIN_AUTO_OBJECTIVES_CAP :: nat where "MIN_AUTO_OBJECTIVES_CAP = 1"
definition MAX_AUTO_OBJECTIVES_CAP :: nat where "MAX_AUTO_OBJECTIVES_CAP = 100"
definition MAX_REASON_CHARS :: nat where "MAX_REASON_CHARS = 512"

datatype ControlEventKind = PauseOn | PauseOff | BudgetSet | RightsSet

definition control_ALL :: "ControlEventKind list" where
  "control_ALL = [PauseOn, PauseOff, BudgetSet, RightsSet]"

fun control_as_sql :: "ControlEventKind \<Rightarrow> string" where
  "control_as_sql PauseOn = ''pause_on''"
| "control_as_sql PauseOff = ''pause_off''"
| "control_as_sql BudgetSet = ''budget_set''"
| "control_as_sql RightsSet = ''rights_set''"

datatype AgentPosture = Discovery | Complete

fun posture_as_sql :: "AgentPosture \<Rightarrow> string" where
  "posture_as_sql Discovery = ''discovery''"
| "posture_as_sql Complete = ''complete''"

definition posture_from_sql :: "string \<Rightarrow> AgentPosture option" where
  "posture_from_sql raw =
     (if raw = ''discovery'' then Some Discovery
      else if raw = ''complete'' then Some Complete else None)"

record ControlRow =
  cr_generation :: int
  cr_paused :: bool
  cr_paused_since :: "int option"
  cr_paused_by :: "string option"
  cr_pause_reason :: "string option"
  cr_cap :: int
  cr_updated_at :: int
  cr_posture :: string
  cr_reassignment :: bool

record ControlEvent =
  ce_at :: int
  ce_actor :: string
  ce_kind :: string
  ce_reason :: "string option"
  ce_generation_after :: int
  ce_command_id :: string

record ControlDb =
  cd_row :: ControlRow
  cd_events :: "ControlEvent list"

record ControlStateFrame =
  cf_version :: nat
  cf_generation :: nat
  cf_paused :: bool
  cf_paused_since :: "int option"
  cf_paused_by :: "string option"
  cf_pause_reason :: "string option"
  cf_auto_objectives_cap :: nat
  cf_agent_posture :: "AgentPosture option"
  cf_auto_reassignment :: "bool option"
  cf_updated_at :: int

datatype ControlStateRefusal =
    HumanPrincipalRequired
  | GenerationMismatch nat
  | BudgetOutOfRange nat nat
  | NothingToChange
  | StoreUnavailable
  | UnsupportedVersion
  | CapabilityRequired

record ControlMutation =
  cm_command_id :: string
  cm_expected_generation :: nat
  cm_paused :: "bool option"
  cm_auto_objectives_cap :: "nat option"
  cm_reason :: "string option"
  cm_actor :: string
  cm_now :: int
  cm_agent_posture :: "AgentPosture option"
  cm_auto_reassignment :: "bool option"

text \<open>The row of a new database: prudent rights, nothing paused.\<close>

definition control_initial :: ControlDb where
  "control_initial =
     \<lparr>cd_row = \<lparr>cr_generation = 0, cr_paused = False, cr_paused_since = None, cr_paused_by = None,
                cr_pause_reason = None, cr_cap = int DEFAULT_AUTO_OBJECTIVES_CAP, cr_updated_at = 0,
                cr_posture = posture_as_sql Discovery, cr_reassignment = False\<rparr>,
      cd_events = []\<rparr>"

section \<open>Admission\<close>

datatype AutonomousEffect =
    ProjectRound
  | ReminderNudge
  | Continuation
  | NativeDelegation
  | NativeMissionDispatch
  | AgentGuidance
  | ScheduledWake
  | HeldRelease

datatype Admission = Admitted | Deferred string

fun admit_autonomous_effect :: "AutonomousEffect \<Rightarrow> ControlStateFrame \<Rightarrow> Admission" where
  "admit_autonomous_effect eff st = (if cf_paused st then Deferred ''pause'' else Admitted)"

definition admit_native_delegation :: "ControlStateFrame \<Rightarrow> bool \<Rightarrow> Admission" where
  "admit_native_delegation control halted =
     (if halted then Deferred ''delegations_halted''
      else admit_autonomous_effect NativeDelegation control)"

section \<open>Reading and mutating\<close>

definition control_read :: "ControlDb \<Rightarrow> ControlStateFrame" where
  "control_read db =
     (let row = cd_row db in
      \<lparr>cf_version = 1, cf_generation = nat (max (cr_generation row) 0), cf_paused = cr_paused row,
       cf_paused_since = cr_paused_since row, cf_paused_by = cr_paused_by row,
       cf_pause_reason = cr_pause_reason row,
       cf_auto_objectives_cap = nat (min (max (cr_cap row) 0) 4294967295),
       cf_agent_posture = posture_from_sql (cr_posture row),
       cf_auto_reassignment = Some (cr_reassignment row), cf_updated_at = cr_updated_at row\<rparr>)"

definition log_event ::
  "ControlMutation \<Rightarrow> ControlEventKind \<Rightarrow> string option \<Rightarrow> nat \<Rightarrow> ControlDb \<Rightarrow> ControlDb"
where
  "log_event m kind reason generation_after db =
     db\<lparr>cd_events := cd_events db @
       [\<lparr>ce_at = cm_now m, ce_actor = cm_actor m, ce_kind = control_as_sql kind, ce_reason = reason,
         ce_generation_after = as_i64 generation_after, ce_command_id = cm_command_id m\<rparr>]\<rparr>"

definition set_pause ::
  "ControlMutation \<Rightarrow> bool \<Rightarrow> string option \<Rightarrow> nat \<Rightarrow> ControlDb \<Rightarrow> ControlDb"
where
  "set_pause m paused reason generation_after db =
     (let row = cd_row db;
          row' = (if paused
                  then row\<lparr>cr_paused := True, cr_paused_since := Some (cm_now m),
                           cr_paused_by := Some (cm_actor m), cr_pause_reason := reason,
                           cr_generation := as_i64 generation_after, cr_updated_at := cm_now m\<rparr>
                  else row\<lparr>cr_paused := False, cr_paused_since := None, cr_paused_by := None,
                           cr_pause_reason := None, cr_generation := as_i64 generation_after,
                           cr_updated_at := cm_now m\<rparr>)
      in log_event m (if paused then PauseOn else PauseOff) reason generation_after
           (db\<lparr>cd_row := row'\<rparr>))"

definition set_cap ::
  "ControlMutation \<Rightarrow> bool \<Rightarrow> nat \<Rightarrow> string option \<Rightarrow> nat \<Rightarrow> ControlDb \<Rightarrow> ControlDb"
where
  "set_cap m logged cap reason generation_after db =
     (let db' = db\<lparr>cd_row := (cd_row db)\<lparr>cr_cap := int cap, cr_generation := as_i64 generation_after,
                                        cr_updated_at := cm_now m\<rparr>\<rparr>
      in if \<not> logged then log_event m BudgetSet reason generation_after db' else db')"

definition set_rights ::
  "ControlMutation \<Rightarrow> bool \<Rightarrow> AgentPosture \<Rightarrow> bool \<Rightarrow> string option \<Rightarrow> nat \<Rightarrow> ControlDb \<Rightarrow> ControlDb"
where
  "set_rights m logged posture reassignment reason generation_after db =
     (let db' = db\<lparr>cd_row := (cd_row db)\<lparr>cr_posture := posture_as_sql posture,
                     cr_reassignment := reassignment, cr_generation := as_i64 generation_after,
                     cr_updated_at := cm_now m\<rparr>\<rparr>
      in if \<not> logged then log_event m RightsSet reason generation_after db' else db')"

text \<open>\<open>Option::filter\<close>\<close>

definition opt_filter :: "('a \<Rightarrow> bool) \<Rightarrow> 'a option \<Rightarrow> 'a option" where
  "opt_filter p v = (case v of Some x \<Rightarrow> if p x then Some x else None | None \<Rightarrow> None)"

definition opt_or :: "'a option \<Rightarrow> 'a option \<Rightarrow> 'a option" where
  "opt_or a b = (case a of Some x \<Rightarrow> Some x | None \<Rightarrow> b)"

text \<open>The writes of an accepted mutation: one journal event, whatever it changes.\<close>

definition control_effect ::
  "ControlMutation \<Rightarrow> bool option \<Rightarrow> nat option \<Rightarrow> AgentPosture option \<Rightarrow> bool option \<Rightarrow>
   ControlDb \<Rightarrow> ControlDb"
where
  "control_effect m pause_change cap_change posture_change reassignment_change db =
     (let current = control_read db;
          reason = map_option (take_chars MAX_REASON_CHARS) (cm_reason m);
          generation_after = cf_generation current + 1;
          db1 = (case pause_change of
                   Some p \<Rightarrow> set_pause m p reason generation_after db | None \<Rightarrow> db);
          db2 = (case cap_change of
                   Some c \<Rightarrow> set_cap m (pause_change \<noteq> None) c reason generation_after db1
                 | None \<Rightarrow> db1)
      in if posture_change \<noteq> None \<or> reassignment_change \<noteq> None
         then set_rights m (pause_change \<noteq> None \<or> cap_change \<noteq> None)
                (case opt_or posture_change (cf_agent_posture current) of
                   Some p \<Rightarrow> p | None \<Rightarrow> Discovery)
                (case opt_or reassignment_change (cf_auto_reassignment current) of
                   Some v \<Rightarrow> v | None \<Rightarrow> False)
                reason generation_after db2
         else db2)"

definition control_set ::
  "ControlMutation \<Rightarrow> ControlDb \<Rightarrow> ControlStateRefusal + ControlStateFrame \<times> ControlDb"
where
  "control_set m db =
     (if list_ex (\<lambda>e. ce_command_id e = cm_command_id m) (cd_events db) then Inr (control_read db, db)
      else
        let current = control_read db in
        if cf_generation current \<noteq> cm_expected_generation m
        then Inl (GenerationMismatch (cf_generation current))
        else if (case cm_auto_objectives_cap m of
                   Some cap \<Rightarrow> \<not> (MIN_AUTO_OBJECTIVES_CAP \<le> cap \<and> cap \<le> MAX_AUTO_OBJECTIVES_CAP)
                 | None \<Rightarrow> False)
        then Inl (BudgetOutOfRange MIN_AUTO_OBJECTIVES_CAP MAX_AUTO_OBJECTIVES_CAP)
        else
          let pause_change = opt_filter (\<lambda>p. p \<noteq> cf_paused current) (cm_paused m);
              cap_change = opt_filter (\<lambda>c. c \<noteq> cf_auto_objectives_cap current) (cm_auto_objectives_cap m);
              posture_change = opt_filter (\<lambda>p. Some p \<noteq> cf_agent_posture current) (cm_agent_posture m);
              reassignment_change =
                opt_filter (\<lambda>v. Some v \<noteq> cf_auto_reassignment current) (cm_auto_reassignment m)
          in if pause_change = None \<and> cap_change = None \<and> posture_change = None \<and>
                reassignment_change = None
             then Inl NothingToChange
             else let db' = control_effect m pause_change cap_change posture_change reassignment_change db
                  in Inr (control_read db', db'))"

text \<open>\<open>history\<close>: the journal from the latest event, with unknown kinds named.\<close>

definition control_history :: "nat \<Rightarrow> ControlDb \<Rightarrow> ControlEvent list" where
  "control_history limit db =
     map (\<lambda>e. e\<lparr>ce_kind := (case List.find (\<lambda>k. k = ce_kind e) (map control_as_sql control_ALL) of
                             Some k \<Rightarrow> k | None \<Rightarrow> ''inconnu''),
                ce_generation_after := max (ce_generation_after e) 0\<rparr>)
       (take limit (rev (cd_events db)))"

section \<open>Time frozen\<close>

definition pause_events :: "ControlDb \<Rightarrow> (int \<times> bool) list" where
  "pause_events db =
     map (\<lambda>e. (ce_at e, ce_kind e = ''pause_on''))
       (sort_key ce_at (filter (\<lambda>e. ce_kind e = ''pause_on'' \<or> ce_kind e = ''pause_off'') (cd_events db)))"

fun pause_scan :: "(int \<times> bool) list \<Rightarrow> int option \<Rightarrow> (int \<times> int) list \<times> int option" where
  "pause_scan [] paused_since = ([], paused_since)"
| "pause_scan ((at, paused) # es) paused_since =
     (if paused
      then pause_scan es (case paused_since of Some s \<Rightarrow> Some s | None \<Rightarrow> Some at)
      else case paused_since of
             Some since \<Rightarrow>
               (let (ivs, open_since) = pause_scan es None in ((since, at) # ivs, open_since))
           | None \<Rightarrow> pause_scan es None)"

text \<open>The parts of the journal before and in the window, and the state at its start.\<close>

definition pauses_before :: "ControlDb \<Rightarrow> int \<Rightarrow> (int \<times> bool) list" where
  "pauses_before db from = filter (\<lambda>(at, _). at < from) (pause_events db)"

definition pauses_within :: "ControlDb \<Rightarrow> int \<Rightarrow> int \<Rightarrow> (int \<times> bool) list" where
  "pauses_within db from to = filter (\<lambda>(at, _). from \<le> at \<and> at < to) (pause_events db)"

definition initially_paused :: "ControlDb \<Rightarrow> int \<Rightarrow> bool" where
  "initially_paused db from =
     (if pauses_before db from \<noteq> [] then snd (last (pauses_before db from))
      else cf_paused (control_read db) \<and>
           (case cf_paused_since (control_read db) of Some at \<Rightarrow> at \<le> from | None \<Rightarrow> False))"

definition window_scan :: "ControlDb \<Rightarrow> int \<Rightarrow> int \<Rightarrow> (int \<times> int) list \<times> int option" where
  "window_scan db from to =
     pause_scan (pauses_within db from to) (if initially_paused db from then Some from else None)"

definition state_since :: "ControlDb \<Rightarrow> int \<Rightarrow> int \<Rightarrow> int option" where
  "state_since db from to =
     opt_filter (\<lambda>since. since < to)
       (if cf_paused (control_read db)
        then Some (max (case cf_paused_since (control_read db) of Some at \<Rightarrow> at | None \<Rightarrow> to) from)
        else None)"

fun tail_since :: "int option \<Rightarrow> int option \<Rightarrow> int option" where
  "tail_since (Some journal) (Some state) = Some (min journal state)"
| "tail_since journal state = opt_or journal state"

definition pause_intervals :: "ControlDb \<Rightarrow> int \<Rightarrow> int \<Rightarrow> (int \<times> int) list" where
  "pause_intervals db from to =
     (if to \<le> from then []
      else let (ivs, journal) = window_scan db from to
           in case tail_since journal (state_since db from to) of
                Some since \<Rightarrow> ivs @ [(since, to)] | None \<Rightarrow> ivs)"

definition pause_overlap :: "ControlDb \<Rightarrow> int \<Rightarrow> int \<Rightarrow> int" where
  "pause_overlap db from to =
     fold (\<lambda>(since, til) total. saturating_add total (max 0 (saturating_sub til since)))
       (pause_intervals db from to) 0"

record QuotaWait =
  qw_since :: int
  qw_reset_at :: int
  qw_until :: "int option"

definition quota_interval :: "int \<Rightarrow> int \<Rightarrow> QuotaWait \<Rightarrow> int \<times> int" where
  "quota_interval from to w =
     (max (qw_since w) from,
      min (min (case qw_until w of Some u \<Rightarrow> u | None \<Rightarrow> to) to) (saturating_add (qw_reset_at w) 30))"

fun frozen_loop :: "(int \<times> int) list \<Rightarrow> int \<Rightarrow> int \<Rightarrow> int \<Rightarrow> int" where
  "frozen_loop [] since til acc = saturating_add acc (saturating_sub til since)"
| "frozen_loop ((next_since, next_until) # ivs) since til acc =
     (if next_since \<le> til then frozen_loop ivs since (max til next_until) acc
      else frozen_loop ivs next_since next_until (saturating_add acc (saturating_sub til since)))"

definition frozen_overlap :: "ControlDb \<Rightarrow> QuotaWait list \<Rightarrow> int \<Rightarrow> int \<Rightarrow> int" where
  "frozen_overlap db waits from to =
     (if to \<le> from then 0
      else case sort (pause_intervals db from to @
                      filter (\<lambda>(since, til). since < til) (map (quota_interval from to) waits)) of
             [] \<Rightarrow> 0
           | (since, til) # ivs \<Rightarrow> frozen_loop ivs since til 0)"

section \<open>Interpretation\<close>

interpretation control_kinds: closed_vocabulary control_ALL control_as_sql
proof
  show "k \<in> set control_ALL" for k by (cases k) (simp_all add: control_ALL_def)
  show "distinct (map control_as_sql control_ALL)" by (simp add: control_ALL_def)
qed

section \<open>The journal and the row agree\<close>

text \<open>The pause events in the order of the journal, and the state they lead to.\<close>

definition journal_pauses :: "ControlDb \<Rightarrow> (int \<times> bool) list" where
  "journal_pauses db =
     map (\<lambda>e. (ce_at e, ce_kind e = ''pause_on''))
       (filter (\<lambda>e. ce_kind e = ''pause_on'' \<or> ce_kind e = ''pause_off'') (cd_events db))"

definition control_inv :: "ControlDb \<Rightarrow> bool" where
  "control_inv db \<longleftrightarrow>
     sorted (map ce_at (cd_events db)) \<and>
     distinct (map ce_command_id (cd_events db)) \<and>
     (cr_paused (cd_row db) \<longleftrightarrow> journal_pauses db \<noteq> [] \<and> snd (last (journal_pauses db))) \<and>
     cr_paused_since (cd_row db) =
       (if cr_paused (cd_row db) then Some (fst (last (journal_pauses db))) else None)"

lemma control_as_sql_pause [simp]:
  "control_as_sql k = ''pause_on'' \<longleftrightarrow> k = PauseOn"
  "control_as_sql k = ''pause_off'' \<longleftrightarrow> k = PauseOff"
  by (cases k; simp)+

lemma opt_filter_SomeD: "opt_filter p v = Some x \<Longrightarrow> v = Some x \<and> p x"
  by (auto simp: opt_filter_def split: option.splits if_splits)

text \<open>What an accepted mutation that is not a replay does.\<close>

definition control_applied :: "ControlMutation \<Rightarrow> ControlDb \<Rightarrow> ControlDb \<Rightarrow> bool" where
  "control_applied m db db' \<longleftrightarrow>
     (\<exists>e. cd_events db' = cd_events db @ [e] \<and> ce_at e = cm_now m \<and> ce_command_id e = cm_command_id m \<and>
        (if ce_kind e = ''pause_on''
         then \<not> cr_paused (cd_row db) \<and> cr_paused (cd_row db') \<and>
              cr_paused_since (cd_row db') = Some (cm_now m)
         else if ce_kind e = ''pause_off''
         then cr_paused (cd_row db) \<and> \<not> cr_paused (cd_row db') \<and> cr_paused_since (cd_row db') = None
         else cr_paused (cd_row db') = cr_paused (cd_row db) \<and>
              cr_paused_since (cd_row db') = cr_paused_since (cd_row db))) \<and>
     cr_generation (cd_row db') = as_i64 (cf_generation (control_read db) + 1)"

lemma set_pause_simps [simp]:
  "cr_paused (cd_row (set_pause m p r g db)) = p"
  "cr_paused_since (cd_row (set_pause m p r g db)) = (if p then Some (cm_now m) else None)"
  "cr_generation (cd_row (set_pause m p r g db)) = as_i64 g"
  "cd_events (set_pause m p r g db) = cd_events db @
     [\<lparr>ce_at = cm_now m, ce_actor = cm_actor m, ce_kind = control_as_sql (if p then PauseOn else PauseOff),
       ce_reason = r, ce_generation_after = as_i64 g, ce_command_id = cm_command_id m\<rparr>]"
  by (simp_all add: set_pause_def log_event_def Let_def)

lemma set_cap_simps [simp]:
  "cr_paused (cd_row (set_cap m l c r g db)) = cr_paused (cd_row db)"
  "cr_paused_since (cd_row (set_cap m l c r g db)) = cr_paused_since (cd_row db)"
  "cr_generation (cd_row (set_cap m l c r g db)) = as_i64 g"
  "cd_events (set_cap m l c r g db) = cd_events db @
     (if l then [] else [\<lparr>ce_at = cm_now m, ce_actor = cm_actor m, ce_kind = control_as_sql BudgetSet,
       ce_reason = r, ce_generation_after = as_i64 g, ce_command_id = cm_command_id m\<rparr>])"
  by (simp_all add: set_cap_def log_event_def Let_def)

lemma set_rights_simps [simp]:
  "cr_paused (cd_row (set_rights m l p q r g db)) = cr_paused (cd_row db)"
  "cr_paused_since (cd_row (set_rights m l p q r g db)) = cr_paused_since (cd_row db)"
  "cr_generation (cd_row (set_rights m l p q r g db)) = as_i64 g"
  "cd_events (set_rights m l p q r g db) = cd_events db @
     (if l then [] else [\<lparr>ce_at = cm_now m, ce_actor = cm_actor m, ce_kind = control_as_sql RightsSet,
       ce_reason = r, ce_generation_after = as_i64 g, ce_command_id = cm_command_id m\<rparr>])"
  by (simp_all add: set_rights_def log_event_def Let_def)

lemma control_read_simps [simp]:
  "cf_paused (control_read db) = cr_paused (cd_row db)"
  "cf_paused_since (control_read db) = cr_paused_since (cd_row db)"
  "cf_generation (control_read db) = nat (max (cr_generation (cd_row db)) 0)"
  by (simp_all add: control_read_def Let_def)

lemma control_effect_applied:
  assumes "pc \<noteq> None \<or> cc \<noteq> None \<or> poc \<noteq> None \<or> rc \<noteq> None"
    and "pred_option (\<lambda>p. p \<noteq> cr_paused (cd_row db)) pc"
  shows "control_applied m db (control_effect m pc cc poc rc db)"
  using assms
  by (cases pc; cases cc; cases "poc \<noteq> None \<or> rc \<noteq> None")
    (simp_all add: control_applied_def control_effect_def Let_def)

lemma control_set_fresh:
  assumes "control_set m db = Inr (f, db')" and "cm_command_id m \<notin> ce_command_id ` set (cd_events db)"
  shows "control_applied m db db'" and "f = control_read db'"
    and "cf_generation (control_read db) = cm_expected_generation m"
proof -
  let ?cur = "control_read db"
  let ?pc = "opt_filter (\<lambda>p. p \<noteq> cf_paused ?cur) (cm_paused m)"
  let ?cc = "opt_filter (\<lambda>c. c \<noteq> cf_auto_objectives_cap ?cur) (cm_auto_objectives_cap m)"
  let ?poc = "opt_filter (\<lambda>p. Some p \<noteq> cf_agent_posture ?cur) (cm_agent_posture m)"
  let ?rc = "opt_filter (\<lambda>v. Some v \<noteq> cf_auto_reassignment ?cur) (cm_auto_reassignment m)"
  have new: "\<not> list_ex (\<lambda>e. ce_command_id e = cm_command_id m) (cd_events db)"
    using assms(2) by (auto simp: list_ex_iff image_iff)
  have change: "\<not> (?pc = None \<and> ?cc = None \<and> ?poc = None \<and> ?rc = None)"
    and eff: "db' = control_effect m ?pc ?cc ?poc ?rc db" and f: "f = control_read db'"
    and gen: "cf_generation ?cur = cm_expected_generation m"
    using assms(1) new unfolding control_set_def Let_def by (simp_all only: if_False split: if_splits) auto
  have "pred_option (\<lambda>p. p \<noteq> cr_paused (cd_row db)) ?pc"
    by (cases ?pc) (auto dest: opt_filter_SomeD)
  with change show "control_applied m db db'"
    unfolding eff by (intro control_effect_applied) (simp_all only: de_Morgan_conj)
  show "f = control_read db'" by (fact f)
  show "cf_generation (control_read db) = cm_expected_generation m" by (fact gen)
qed

lemma control_set_replay:
  "cm_command_id m \<in> ce_command_id ` set (cd_events db) \<Longrightarrow> control_set m db = Inr (control_read db, db)"
  by (auto simp: control_set_def list_ex_iff)

lemma journal_pauses_snoc:
  assumes "cd_events db' = cd_events db @ [e]"
  shows "journal_pauses db' = journal_pauses db @
    (if ce_kind e = ''pause_on'' then [(ce_at e, True)]
     else if ce_kind e = ''pause_off'' then [(ce_at e, False)] else [])"
  using assms by (simp add: journal_pauses_def)

lemma control_inv_initial: "control_inv control_initial"
  by (simp add: control_inv_def control_initial_def journal_pauses_def)

lemma control_inv_set:
  assumes "control_inv db" and "control_set m db = Inr (f, db')"
    and "\<forall>e\<in>set (cd_events db). ce_at e \<le> cm_now m"
  shows "control_inv db'"
proof (cases "cm_command_id m \<in> ce_command_id ` set (cd_events db)")
  case True
  then show ?thesis using assms(1,2) by (simp add: control_set_replay)
next
  case False
  then have app: "control_applied m db db'" using assms(2) control_set_fresh(1) by blast
  then obtain e where e: "cd_events db' = cd_events db @ [e]" "ce_at e = cm_now m"
    "ce_command_id e = cm_command_id m"
    by (auto simp: control_applied_def)
  have "sorted (map ce_at (cd_events db'))"
    using assms(1,3) by (auto simp: e control_inv_def sorted_append)
  moreover have "distinct (map ce_command_id (cd_events db'))"
    using assms(1) False by (auto simp: e control_inv_def)
  ultimately show ?thesis
    using app assms(1) journal_pauses_snoc [OF e(1)]
    by (auto simp: control_inv_def control_applied_def e split: if_splits)
qed

section \<open>Intervals\<close>

definition covered :: "(int \<times> int) list \<Rightarrow> int set" where
  "covered ivs = (\<Union>(s, u)\<in>set ivs. {s..<u})"

lemma covered_simps [simp]:
  "covered [] = {}"
  "covered ((s, u) # ivs) = {s..<u} \<union> covered ivs"
  "covered (ivs @ jvs) = covered ivs \<union> covered jvs"
  by (auto simp: covered_def)

text \<open>The state that a time-ordered list of pause events gives at an instant.\<close>

fun state_at :: "bool \<Rightarrow> (int \<times> bool) list \<Rightarrow> int \<Rightarrow> bool" where
  "state_at p [] t = p"
| "state_at p ((a, on) # es) t = (if a \<le> t then state_at on es t else p)"

definition tail_interval :: "int option \<Rightarrow> int \<Rightarrow> (int \<times> int) list" where
  "tail_interval since to = (case since of Some s \<Rightarrow> [(s, to)] | None \<Rightarrow> [])"

lemma pause_scan_covers:
  assumes "sorted (map fst es)" and "\<forall>s. op = Some s \<longrightarrow> (\<forall>e\<in>set es. s \<le> fst e)" and "t < to"
  shows "t \<in> covered (fst (pause_scan es op) @ tail_interval (snd (pause_scan es op)) to) \<longleftrightarrow>
    (case op of Some s \<Rightarrow> s \<le> t \<and> state_at True es t | None \<Rightarrow> state_at False es t)"
  using assms
proof (induction es arbitrary: op)
  case Nil
  then show ?case by (auto simp: tail_interval_def split: option.splits)
next
  case (Cons e es)
  obtain a on where e: "e = (a, on)" by (cases e)
  have after: "\<forall>x\<in>set es. a \<le> fst x" using Cons.prems(1) by (simp add: e)
  have early: "state_at p es t = p" if "t < a" for p
    using after that by (cases es) auto
  have srt: "sorted (map fst es)" using Cons.prems(1) by simp
  show ?case
  proof (cases on)
    case True
    show ?thesis
    proof (cases op)
      case None
      then have "pause_scan (e # es) op = pause_scan es (Some a)" using True by (simp add: e)
      then show ?thesis
        using Cons.IH [of "Some a"] srt after Cons.prems(3) None True early by (auto simp: e)
    next
      case (Some s)
      then have "pause_scan (e # es) op = pause_scan es (Some s)" using True by (simp add: e)
      then show ?thesis
        using Cons.IH [of "Some s"] srt Cons.prems(2,3) Some True early by (auto simp: e)
    qed
  next
    case False
    show ?thesis
    proof (cases op)
      case None
      then have "pause_scan (e # es) op = pause_scan es None" using False by (simp add: e)
      then show ?thesis
        using Cons.IH [of None] srt Cons.prems(3) None False early by (auto simp: e)
    next
      case (Some s)
      then have "pause_scan (e # es) op = ((s, a) # fst (pause_scan es None), snd (pause_scan es None))"
        using False by (simp add: e split: prod.split)
      moreover have "s \<le> a" using Cons.prems(2) Some by (simp add: e)
      ultimately show ?thesis
        using Cons.IH [of None] srt Cons.prems(3) Some False early by (auto simp: e)
    qed
  qed
qed

lemma pause_scan_open:
  assumes "sorted (map fst es)" and "\<forall>s. op = Some s \<longrightarrow> (\<forall>e\<in>set es. s \<le> fst e)"
  shows "(snd (pause_scan es op) \<noteq> None \<longleftrightarrow> (if es = [] then op \<noteq> None else snd (last es))) \<and>
    (\<forall>j. snd (pause_scan es op) = Some j \<longrightarrow> es \<noteq> [] \<longrightarrow> j \<le> fst (last es)) \<and>
    (es = [] \<longrightarrow> snd (pause_scan es op) = op)"
  using assms
proof (induction es arbitrary: op)
  case (Cons e es)
  obtain a on where e: "e = (a, on)" by (cases e)
  have srt: "sorted (map fst es)" "\<forall>x\<in>set es. a \<le> fst x" using Cons.prems(1) by (simp_all add: e)
  define op' where "op' = (if on then (case op of Some s \<Rightarrow> Some s | None \<Rightarrow> Some a) else None)"
  have scan: "snd (pause_scan (e # es) op) = snd (pause_scan es op')"
    by (cases op) (simp_all add: e op'_def split: prod.split)
  have "\<forall>s. op' = Some s \<longrightarrow> (\<forall>x\<in>set es. s \<le> fst x)"
    using Cons.prems(2) srt(2) by (auto simp: op'_def split: option.splits if_splits)
  note IH = Cons.IH [OF srt(1) this]
  have "j \<le> a" if "op' = Some j" for j
    using that Cons.prems(2) by (auto simp: op'_def e split: option.splits if_splits)
  moreover have "op' \<noteq> None \<longleftrightarrow> on" by (auto simp: op'_def split: option.splits)
  ultimately show ?case
    unfolding scan using IH by (cases "es = []") (auto simp: e)
qed simp

lemma sort_key_id: "sorted (map f xs) \<Longrightarrow> sort_key f xs = xs"
  by (induction xs) (simp_all add: insort_is_Cons)

lemma pause_events_journal: "control_inv db \<Longrightarrow> pause_events db = journal_pauses db"
  by (simp add: control_inv_def pause_events_def journal_pauses_def sort_key_id sorted_filter)

lemma journal_pauses_sorted: "control_inv db \<Longrightarrow> sorted (map fst (journal_pauses db))"
  by (auto simp: control_inv_def journal_pauses_def o_def intro: sorted_filter)

text \<open>Splitting a time-ordered list at two instants.\<close>

lemma state_at_append:
  assumes "sorted (map fst (es @ fs))" and "\<forall>e\<in>set es. fst e \<le> t"
  shows "state_at p (es @ fs) t = state_at (if es = [] then p else snd (last es)) fs t"
  using assms
proof (induction es arbitrary: p)
  case (Cons e es)
  then show ?case by (cases e) auto
qed simp

lemma state_at_late:
  assumes "\<forall>e\<in>set fs. t < fst e"
  shows "state_at p (es @ fs) t = state_at p es t"
  using assms
proof (induction es arbitrary: p)
  case Nil
  then show ?case by (cases fs) auto
next
  case (Cons e es)
  then show ?case by (cases e) simp
qed

lemma sorted_split3:
  assumes "sorted (map fst es)" and "(from :: int) < to"
  shows "es = filter (\<lambda>(a, _). a < from) es @ filter (\<lambda>(a, _). from \<le> a \<and> a < to) es @
    filter (\<lambda>(a, _). to \<le> a) es"
  using assms(1)
proof (induction es)
  case (Cons e es)
  obtain a on where e: "e = (a, on)" by (cases e)
  have after: "\<forall>x\<in>set es. a \<le> fst x" using Cons.prems by (simp add: e)
  have "filter (\<lambda>(b, _). b < from) es = []" if "from \<le> a"
    using after that by (force simp: filter_empty_conv)
  moreover have "filter (\<lambda>(b, _). from \<le> b \<and> b < to) es = []" if "to \<le> a"
    using after that by (force simp: filter_empty_conv)
  ultimately show ?case using Cons assms(2) by (auto simp: e)
qed simp

lemma journal_split:
  assumes "control_inv db" and "from < to"
  shows "journal_pauses db = pauses_before db from @ pauses_within db from to @
    filter (\<lambda>(a, _). to \<le> a) (journal_pauses db)"
  unfolding pauses_before_def pauses_within_def pause_events_journal [OF assms(1)]
  by (rule sorted_split3 [OF journal_pauses_sorted [OF assms(1)] assms(2)])

lemma pauses_within_sorted: "control_inv db \<Longrightarrow> sorted (map fst (pauses_within db from to))"
  using journal_pauses_sorted [of db] by (simp add: pauses_within_def pause_events_journal sorted_filter)

lemma last_before_to:
  assumes "control_inv db" and "from < to" and "cr_paused (cd_row db)"
    and "cr_paused_since (cd_row db) = Some since" and "since < to"
  shows "journal_pauses db = pauses_before db from @ pauses_within db from to"
    and "last (journal_pauses db) = (since, True)" and "journal_pauses db \<noteq> []"
proof -
  show last: "last (journal_pauses db) = (since, True)" and ne: "journal_pauses db \<noteq> []"
    using assms(1,3,4) by (auto simp: control_inv_def prod_eq_iff)
  have "filter (\<lambda>(a, _). to \<le> a) (journal_pauses db) = []"
  proof (rule ccontr)
    let ?L = "filter (\<lambda>(a, _). to \<le> a) (journal_pauses db)"
    assume "?L \<noteq> []"
    then have "last (journal_pauses db) = last ?L" using journal_split [OF assms(1,2)] by (metis last_appendR append_is_Nil_conv)
    then have "last (journal_pauses db) \<in> set ?L" using last_in_set [OF \<open>?L \<noteq> []\<close>] by (simp only:)
    then show False using last assms(5) by simp
  qed
  then show "journal_pauses db = pauses_before db from @ pauses_within db from to"
    using journal_split [OF assms(1,2)] by simp
qed

lemma window_scan_open:
  assumes "control_inv db" and "from < to" and "cr_paused (cd_row db)"
    and "cr_paused_since (cd_row db) = Some since" and "since < to"
  shows "\<exists>j. snd (window_scan db from to) = Some j \<and> j \<le> max since from"
proof -
  let ?W = "pauses_within db from to" and ?op = "if initially_paused db from then Some from else None"
  note j = last_before_to [OF assms]
  have "\<forall>s. ?op = Some s \<longrightarrow> (\<forall>e\<in>set ?W. s \<le> fst e)" by (auto simp: pauses_within_def)
  note scan = pause_scan_open [OF pauses_within_sorted [OF assms(1)] this]
  show ?thesis
  proof (cases "?W = []")
    case True
    then have "initially_paused db from" using j by (simp add: initially_paused_def)
    then show ?thesis using True by (simp add: window_scan_def)
  next
    case False
    then have "last ?W = (since, True)" using j by simp
    then show ?thesis using scan False by (force simp: window_scan_def)
  qed
qed

lemma pause_intervals_scan:
  assumes "control_inv db" and "from < to"
  shows "pause_intervals db from to =
    fst (window_scan db from to) @ tail_interval (snd (window_scan db from to)) to"
proof -
  have since: "cr_paused_since (cd_row db) \<noteq> None" if "cr_paused (cd_row db)"
    using assms(1) that by (simp add: control_inv_def)
  have scan: "pause_intervals db from to =
      (case tail_since (snd (window_scan db from to)) (state_since db from to) of
         Some since \<Rightarrow> fst (window_scan db from to) @ [(since, to)] | None \<Rightarrow> fst (window_scan db from to))"
    using assms(2) by (cases "window_scan db from to") (simp add: pause_intervals_def split: option.split)
  show ?thesis
  proof (cases "state_since db from to")
    case None
    then show ?thesis
      unfolding scan by (cases "snd (window_scan db from to)") (simp_all add: opt_or_def tail_interval_def)
  next
    case (Some s)
    then have p: "cr_paused (cd_row db)" by (auto simp: state_since_def opt_filter_def split: if_splits)
    with since obtain since where sn: "cr_paused_since (cd_row db) = Some since" by blast
    have s: "s = max since from" "s < to" using Some p sn by (auto simp: state_since_def dest: opt_filter_SomeD)
    then obtain j where "snd (window_scan db from to) = Some j" "j \<le> s"
      using window_scan_open [OF assms p sn] by auto
    then show ?thesis unfolding scan Some by (simp add: tail_interval_def)
  qed
qed

lemma initial_state:
  assumes "control_inv db" and "from < to" and "from \<le> t" and "t < to"
  shows "state_at (initially_paused db from) (pauses_within db from to) t = state_at False (journal_pauses db) t"
proof -
  let ?B = "pauses_before db from" and ?W = "pauses_within db from to"
  let ?L = "filter (\<lambda>(a, _). to \<le> a) (journal_pauses db)"
  have "state_at False (journal_pauses db) t = state_at False (?B @ ?W) t"
    using state_at_late [of ?L t False "?B @ ?W"] assms(4) journal_split [OF assms(1,2)] by auto
  also have "\<dots> = state_at (if ?B = [] then False else snd (last ?B)) ?W t"
  proof (rule state_at_append)
    show "sorted (map fst (?B @ ?W))"
      using journal_pauses_sorted [OF assms(1)] journal_split [OF assms(1,2)]
      by (metis append.assoc map_append sorted_append)
    show "\<forall>e\<in>set ?B. fst e \<le> t" using assms(3) by (auto simp: pauses_before_def)
  qed
  also have "\<dots> = state_at (initially_paused db from) ?W t"
  proof (cases "?B = [] \<and> initially_paused db from")
    case True
    then obtain since where p: "cr_paused (cd_row db)" "cr_paused_since (cd_row db) = Some since" "since \<le> from"
      by (auto simp: initially_paused_def split: option.splits)
    note j = last_before_to [OF assms(1,2) p(1,2)]
    have W: "journal_pauses db = ?W" "last ?W = (since, True)" "?W \<noteq> []" using True j p(3) assms(2) by auto
    then obtain a on rest where hd: "?W = (a, on) # rest" by (cases ?W) auto
    have "(a, on) \<in> set ?W" by (simp add: hd)
    then have "from \<le> a" by (auto simp: pauses_within_def)
    have "a \<le> fst (last ?W)"
      using pauses_within_sorted [OF assms(1), of "from" to] by (cases "rest = []") (auto simp: hd)
    then have "a \<le> t" using W(2) p(3) assms(3) by simp
    then show ?thesis using True by (simp add: hd)
  next
    case False
    then show ?thesis by (auto simp: initially_paused_def)
  qed
  finally show ?thesis by simp
qed

lemma pause_intervals_state:
  assumes "control_inv db" and "from \<le> t" and "t < to"
  shows "t \<in> covered (pause_intervals db from to) \<longleftrightarrow> state_at False (journal_pauses db) t"
proof -
  have lt: "from < to" using assms by simp
  let ?op = "if initially_paused db from then Some from else None"
  have "\<forall>s. ?op = Some s \<longrightarrow> (\<forall>e\<in>set (pauses_within db from to). s \<le> fst e)"
    by (auto simp: pauses_within_def)
  from pause_scan_covers [OF pauses_within_sorted [OF assms(1)] this assms(3)]
  have "t \<in> covered (pause_intervals db from to) \<longleftrightarrow>
      state_at (initially_paused db from) (pauses_within db from to) t"
    using assms(2) unfolding pause_intervals_scan [OF assms(1) lt] window_scan_def by simp
  then show ?thesis using initial_state [OF assms(1) lt assms(2,3)] by simp
qed

section \<open>The measure of a union of intervals\<close>

lemma finite_covered [simp]: "finite (covered ivs)"
  by (auto simp: covered_def)

lemma card_atLeastLessThan_int: "s \<le> u \<Longrightarrow> int (card {s..<u::int}) = u - s"
  by simp

definition within :: "int \<Rightarrow> int \<Rightarrow> (int \<times> int) list \<Rightarrow> bool" where
  "within lo hi ivs \<longleftrightarrow> (\<forall>(s, u)\<in>set ivs. lo \<le> s \<and> s \<le> u \<and> u \<le> hi)"

lemma covered_within: "within lo hi ivs \<Longrightarrow> covered ivs \<subseteq> {lo..<hi}"
  by (force simp: within_def covered_def)

lemma saturating_span:
  assumes "0 \<le> acc" and "s \<le> u" and "acc + (u - s) \<le> i64_max"
  shows "saturating_add acc (saturating_sub u s) = acc + (u - s)"
  using assms by (simp add: saturating_add_def saturating_sub_def i64_saturate_def i64_max_def i64_min_def)

lemma frozen_loop_measure:
  assumes "sorted (since # map fst ivs)" and "since \<le> til" and "til \<le> hi"
    and "within lo hi ivs" and "lo \<le> since"
    and "0 \<le> acc" and "acc + (hi - since) \<le> i64_max"
  shows "frozen_loop ivs since til acc = acc + int (card (covered ((since, til) # ivs)))"
  using assms
proof (induction ivs arbitrary: since til acc)
  case Nil
  then show ?case by (simp add: saturating_span)
next
  case (Cons iv ivs)
  obtain ns nu where iv: "iv = (ns, nu)" by (cases iv)
  have b: "since \<le> ns" "ns \<le> nu" "nu \<le> hi" "within lo hi ivs" "lo \<le> ns" "sorted (ns # map fst ivs)"
    "sorted (since # map fst ivs)"
    using Cons.prems by (auto simp: iv within_def)
  show ?case
  proof (cases "ns \<le> til")
    case True
    then have "{since..<til} \<union> {ns..<nu} = {since..<max til nu}" using b Cons.prems(2) by auto
    then have "covered ((since, til) # iv # ivs) = covered ((since, max til nu) # ivs)"
      by (simp add: iv Un_assoc [symmetric])
    then show ?thesis
      using True Cons.IH [of since "max til nu" acc] b Cons.prems by (simp add: iv)
  next
    case False
    have later: "\<forall>(s, u)\<in>set (iv # ivs). ns \<le> s" using b(6) by (auto simp: iv)
    then have "{since..<til} \<inter> covered (iv # ivs) = {}" using False by (force simp: covered_def)
    then have "card (covered ((since, til) # iv # ivs)) = card {since..<til} + card (covered (iv # ivs))"
      by (simp add: card_Un_disjoint)
    then have "int (card (covered ((since, til) # iv # ivs))) =
        (til - since) + int (card (covered (iv # ivs)))"
      using Cons.prems(2) by simp
    moreover have "saturating_add acc (saturating_sub til since) = acc + (til - since)"
      using Cons.prems by (intro saturating_span) auto
    moreover have "frozen_loop ivs ns nu (acc + (til - since)) =
        acc + (til - since) + int (card (covered ((ns, nu) # ivs)))"
      using b False Cons.prems by (intro Cons.IH) auto
    ultimately show ?thesis using False by (simp add: iv)
  qed
qed

lemma pause_scan_within:
  assumes "sorted (map fst es)" and "\<forall>e\<in>set es. lo \<le> fst e \<and> fst e \<le> hi"
    and "\<forall>s. op = Some s \<longrightarrow> lo \<le> s \<and> s \<le> hi \<and> (\<forall>e\<in>set es. s \<le> fst e)"
  shows "within lo hi (fst (pause_scan es op)) \<and>
    (\<forall>j. snd (pause_scan es op) = Some j \<longrightarrow> lo \<le> j \<and> j \<le> hi)"
  using assms
proof (induction es arbitrary: op)
  case (Cons e es)
  obtain a on where e: "e = (a, on)" by (cases e)
  have a: "lo \<le> a" "a \<le> hi" "\<forall>x\<in>set es. a \<le> fst x" "sorted (map fst es)"
    "\<forall>x\<in>set es. lo \<le> fst x \<and> fst x \<le> hi"
    using Cons.prems(1,2) by (simp_all add: e)
  define op' where "op' = (if on then (case op of Some s \<Rightarrow> Some s | None \<Rightarrow> Some a) else None)"
  define closed where "closed = (case op of Some s \<Rightarrow> if on then [] else [(s, a)] | None \<Rightarrow> [])"
  have scan: "fst (pause_scan (e # es) op) = closed @ fst (pause_scan es op')"
    "snd (pause_scan (e # es) op) = snd (pause_scan es op')"
    by (cases op; simp add: e op'_def closed_def split: prod.split)+
  have "\<forall>s. op' = Some s \<longrightarrow> lo \<le> s \<and> s \<le> hi \<and> (\<forall>x\<in>set es. s \<le> fst x)"
    using Cons.prems(3) a(1-3) by (cases op) (simp_all add: op'_def)
  note IH = Cons.IH [OF a(4,5) this]
  have "within lo hi closed"
    using Cons.prems(3) a(1,2) by (cases op) (simp_all add: closed_def within_def e)
  then show ?case unfolding scan using IH by (auto simp: within_def)
qed (simp add: within_def)

lemma pause_intervals_within:
  assumes "control_inv db" and "from < to"
  shows "within from to (pause_intervals db from to)"
proof -
  let ?op = "if initially_paused db from then Some from else None"
  have "within from to (fst (window_scan db from to)) \<and>
      (\<forall>j. snd (window_scan db from to) = Some j \<longrightarrow> from \<le> j \<and> j \<le> to)"
    unfolding window_scan_def using assms
    by (intro pause_scan_within pauses_within_sorted) (auto simp: pauses_within_def)
  then show ?thesis
    unfolding pause_intervals_scan [OF assms]
    by (auto simp: within_def tail_interval_def split: option.splits)
qed

lemma covered_cong_set: "set ivs = set jvs \<Longrightarrow> covered ivs = covered jvs"
  by (simp add: covered_def)

lemma within_cong_set: "set ivs = set jvs \<Longrightarrow> within lo hi ivs = within lo hi jvs"
  by (simp add: within_def)

lemma frozen_overlap_measure:
  assumes "control_inv db" and "0 \<le> from" and "from < to" and "to \<le> i64_max"
  shows "frozen_overlap db waits from to =
    int (card (covered (pause_intervals db from to @
      filter (\<lambda>(since, til). since < til) (map (quota_interval from to) waits))))"
proof -
  let ?ivs = "pause_intervals db from to @
    filter (\<lambda>(since, til). since < til) (map (quota_interval from to) waits)"
  have "within from to ?ivs"
    using pause_intervals_within [OF assms(1,3)] by (auto simp: within_def quota_interval_def)
  then have w: "within from to (sort ?ivs)" by (simp add: within_cong_set [of "sort ?ivs" ?ivs])
  have cov: "covered (sort ?ivs) = covered ?ivs" by (rule covered_cong_set) simp
  show ?thesis
  proof (cases "sort ?ivs")
    case Nil
    then show ?thesis using assms(3) cov by (simp add: frozen_overlap_def)
  next
    case (Cons iv ivs)
    obtain s u where iv: "iv = (s, u)" by (cases iv)
    have "sorted (map fst (sort ?ivs))"
    proof -
      have "sorted_wrt (\<lambda>a b. fst a \<le> fst b) (sort ?ivs)"
        by (rule sorted_wrt_mono_rel [of _ "(\<le>)"]) (auto simp: less_eq_prod_def)
      then show ?thesis by (simp add: sorted_map)
    qed
    then have "frozen_loop ivs s u 0 = 0 + int (card (covered ((s, u) # ivs)))"
      using w assms by (intro frozen_loop_measure [where lo = "from" and hi = to]) (auto simp: Cons iv within_def)
    then show ?thesis using assms(3) cov Cons by (simp add: frozen_overlap_def iv)
  qed
qed

section \<open>Runs\<close>

definition control_step :: "ControlMutation \<Rightarrow> ControlDb \<Rightarrow> ControlDb" where
  "control_step m db = (case control_set m db of Inl _ \<Rightarrow> db | Inr (_, db') \<Rightarrow> db')"

lemma control_step_events:
  "\<exists>es. cd_events (control_step m db) = cd_events db @ es \<and> (\<forall>e\<in>set es. ce_at e = cm_now m)"
proof (cases "control_set m db")
  case (Inr p)
  obtain f db' where p: "p = (f, db')" by (cases p)
  show ?thesis
  proof (cases "cm_command_id m \<in> ce_command_id ` set (cd_events db)")
    case False
    then show ?thesis
      using control_set_fresh(1) [OF Inr [unfolded p]] by (auto simp: control_step_def Inr p control_applied_def)
  qed (simp add: control_step_def control_set_replay)
qed (simp add: control_step_def)

lemma control_run_events:
  "set (cd_events db) \<subseteq> set (cd_events (fold control_step ms db))"
proof (induction ms arbitrary: db)
  case (Cons m ms)
  then show ?case using control_step_events [of m db] by fastforce
qed simp

lemma control_inv_run:
  assumes "control_inv db" and "\<forall>e\<in>set (cd_events db). ce_at e \<le> t0" and "sorted (t0 # map cm_now ms)"
  shows "control_inv (fold control_step ms db)"
  using assms
proof (induction ms arbitrary: db t0)
  case (Cons m ms)
  have t0: "t0 \<le> cm_now m" using Cons.prems(3) by simp
  then have past: "\<forall>e\<in>set (cd_events db). ce_at e \<le> cm_now m" using Cons.prems(2) by force
  have "control_inv (control_step m db)"
  proof (cases "control_set m db")
    case (Inr p)
    then show ?thesis
      using control_inv_set [of db m "fst p" "snd p"] Cons.prems(1) past
      by (cases p) (simp add: control_step_def)
  qed (use Cons.prems(1) in \<open>simp add: control_step_def\<close>)
  moreover have "\<forall>e\<in>set (cd_events (control_step m db)). ce_at e \<le> cm_now m"
    using control_step_events [of m db] past by auto
  ultimately show ?case using Cons.IH [of "control_step m db" "cm_now m"] Cons.prems(3) by simp
qed simp

lemma control_reachable_inv:
  assumes "sorted (map cm_now ms)"
  shows "control_inv (fold control_step ms control_initial)"
proof (cases ms)
  case Nil
  then show ?thesis by (simp add: control_inv_initial)
next
  case (Cons m ms')
  then have "sorted (cm_now m # map cm_now ms)" using assms by simp
  then show ?thesis
    using control_inv_run [OF control_inv_initial, of "cm_now m" ms] by (simp add: control_initial_def)
qed

section \<open>Properties\<close>

text \<open>
  C29. Control mutations apply exactly once. An accepted mutation with a new command identity
  advances the generation by one and writes one journal event, under that identity and date;
  whatever mutations follow, sending it again changes nothing and answers the current state;
  and another mutation computed from the same generation is refused as stale.
\<close>

theorem control_mutation_exactly_once:
  assumes "control_set m db = Inr (f, db')" and "cm_command_id m \<notin> ce_command_id ` set (cd_events db)"
    and "int (cm_expected_generation m) < i64_max"
  shows "cf_generation f = Suc (cm_expected_generation m) \<and>
    (\<exists>e. cd_events db' = cd_events db @ [e] \<and> ce_command_id e = cm_command_id m \<and> ce_at e = cm_now m) \<and>
    control_set m (fold control_step ms db') =
      Inr (control_read (fold control_step ms db'), fold control_step ms db') \<and>
    (cm_expected_generation m' = cm_expected_generation m \<longrightarrow>
     cm_command_id m' \<notin> ce_command_id ` set (cd_events db') \<longrightarrow>
     control_set m' db' = Inl (GenerationMismatch (Suc (cm_expected_generation m))))"
proof -
  note fresh = control_set_fresh [OF assms(1,2)]
  obtain e where e: "cd_events db' = cd_events db @ [e]" "ce_command_id e = cm_command_id m"
    "ce_at e = cm_now m" using fresh(1) by (auto simp: control_applied_def)
  have "cr_generation (cd_row db') = as_i64 (Suc (cm_expected_generation m))"
    using fresh(1,3) by (simp add: control_applied_def)
  then have gen: "cf_generation (control_read db') = Suc (cm_expected_generation m)"
    using assms(3) by (simp add: as_i64_id)
  have "cm_command_id m \<in> ce_command_id ` set (cd_events db')" using e by force
  then have "cm_command_id m \<in> ce_command_id ` set (cd_events (fold control_step ms db'))"
    using control_run_events [of db' ms] by blast
  moreover have "control_set m' db' = Inl (GenerationMismatch (Suc (cm_expected_generation m)))"
    if "cm_expected_generation m' = cm_expected_generation m"
      "cm_command_id m' \<notin> ce_command_id ` set (cd_events db')"
    using that gen by (auto simp: control_set_def Let_def list_ex_iff image_iff)
  ultimately show ?thesis using e fresh(2) gen by (auto simp: control_set_replay)
qed

definition sample_pause :: "string \<Rightarrow> int \<Rightarrow> nat \<Rightarrow> bool \<Rightarrow> ControlMutation" where
  "sample_pause cid now gen p =
     \<lparr>cm_command_id = cid, cm_expected_generation = gen, cm_paused = Some p,
      cm_auto_objectives_cap = None, cm_reason = None, cm_actor = ''humain'', cm_now = now,
      cm_agent_posture = None, cm_auto_reassignment = None\<rparr>"

theorem control_mutation_exactly_once_witness:
  "\<exists>f db'. control_set (sample_pause ''c1'' 10 0 True) control_initial = Inr (f, db') \<and>
     cf_generation f = 1 \<and>
     control_set (sample_pause ''c2'' 11 0 False) db' = Inl (GenerationMismatch 1)"
proof -
  let ?db' = "control_effect (sample_pause ''c1'' 10 0 True) (Some True) None None None control_initial"
  have "control_set (sample_pause ''c1'' 10 0 True) control_initial = Inr (control_read ?db', ?db')"
    by (simp add: control_set_def sample_pause_def control_initial_def opt_filter_def Let_def)
  then obtain f db' where ok: "control_set (sample_pause ''c1'' 10 0 True) control_initial = Inr (f, db')"
    by blast
  have gen: "cm_expected_generation (sample_pause cid now g p) = g" for cid now g p
    by (simp add: sample_pause_def)
  have cid: "cm_command_id (sample_pause cid now g p) = cid" for cid now g p
    by (simp add: sample_pause_def)
  have none: "cd_events control_initial = []" by (simp add: control_initial_def)
  have "cm_command_id (sample_pause ''c1'' 10 0 True) \<notin> ce_command_id ` set (cd_events control_initial)"
    "int (cm_expected_generation (sample_pause ''c1'' 10 0 True)) < i64_max"
    by (simp_all add: none gen i64_max_def)
  from control_mutation_exactly_once [OF ok this, of "[]" "sample_pause ''c2'' 11 0 False",
      unfolded gen cid none append_Nil]
  obtain e where "cf_generation f = Suc 0" "cd_events db' = [e]" "ce_command_id e = ''c1''"
    and stale: "''c2'' \<notin> ce_command_id ` set (cd_events db') \<longrightarrow>
      control_set (sample_pause ''c2'' 11 0 False) db' = Inl (GenerationMismatch (Suc 0))"
    by (elim conjE exE) blast
  then have "control_set (sample_pause ''c2'' 11 0 False) db' = Inl (GenerationMismatch 1)" by simp
  with ok \<open>cf_generation f = Suc 0\<close> show ?thesis by (intro exI conjI) simp_all
qed

definition quota_waiting :: "int \<Rightarrow> QuotaWait \<Rightarrow> int \<Rightarrow> bool" where
  "quota_waiting to w t \<longleftrightarrow>
     qw_since w \<le> t \<and> t < (case qw_until w of Some u \<Rightarrow> u | None \<Rightarrow> to) \<and>
     t < saturating_add (qw_reset_at w) 30"

lemma covered_nonempty: "covered (filter (\<lambda>(s, u). s < u) ivs) = covered ivs"
proof (induction ivs)
  case (Cons iv ivs)
  obtain s u where "iv = (s, u)" by (cases iv)
  with Cons show ?case by (cases "s < u") simp_all
qed simp

lemma covered_quota:
  "covered (map (quota_interval from to) waits) = {t \<in> {from..<to}. \<exists>w\<in>set waits. quota_waiting to w t}"
proof (induction waits)
  case (Cons w waits)
  have "{fst (quota_interval from to w)..<snd (quota_interval from to w)} =
      {t \<in> {from..<to}. quota_waiting to w t}"
    by (auto simp: quota_interval_def quota_waiting_def)
  then show ?case using Cons by (cases "quota_interval from to w") auto
qed simp

text \<open>
  C30. Frozen time is exact. After any sequence of control mutations in clock order, the
  frozen seconds of a task in a window are the number of instants of the window at which the
  journal says that autonomy was paused or at which one of the task's quota waits was running
  (each wait ends at the latest thirty seconds after its reset): overlapping pauses and waits
  are counted once, and no instant is missed.
\<close>

theorem frozen_time_is_exact:
  assumes "sorted (map cm_now ms)" and "db = fold control_step ms control_initial"
    and "0 \<le> from" and "from < to" and "to \<le> i64_max"
  shows "frozen_overlap db waits from to =
    int (card {t \<in> {from..<to}. state_at False (journal_pauses db) t \<or> (\<exists>w\<in>set waits. quota_waiting to w t)})"
proof -
  have inv: "control_inv db" using assms(1,2) control_reachable_inv by simp
  let ?quota = "filter (\<lambda>(since, til). since < til) (map (quota_interval from to) waits)"
  have "covered (pause_intervals db from to) = {t \<in> {from..<to}. state_at False (journal_pauses db) t}"
    using covered_within [OF pause_intervals_within [OF inv assms(4)]] pause_intervals_state [OF inv]
    by auto
  moreover have "covered ?quota = {t \<in> {from..<to}. \<exists>w\<in>set waits. quota_waiting to w t}"
    by (simp only: covered_nonempty covered_quota)
  ultimately have "covered (pause_intervals db from to @ ?quota) =
      {t \<in> {from..<to}. state_at False (journal_pauses db) t \<or> (\<exists>w\<in>set waits. quota_waiting to w t)}"
    by auto
  then show ?thesis using frozen_overlap_measure [OF inv assms(3-5), of waits] by simp
qed

theorem frozen_time_is_exact_witness:
  "frozen_overlap (fold control_step [sample_pause ''c1'' 10 0 True, sample_pause ''c2'' 20 1 False]
     control_initial) [\<lparr>qw_since = 15, qw_reset_at = 0, qw_until = Some 25\<rparr>] 0 100 =
   int (card {t \<in> {0..<100}. state_at False (journal_pauses
     (fold control_step [sample_pause ''c1'' 10 0 True, sample_pause ''c2'' 20 1 False] control_initial)) t \<or>
     (\<exists>w\<in>set [\<lparr>qw_since = 15, qw_reset_at = 0, qw_until = Some 25\<rparr>]. quota_waiting 100 w t)})"
  by (rule frozen_time_is_exact [OF _ refl]) (simp_all add: sample_pause_def i64_max_def)

end
