(* ===== verification/Receipt_Store.thy ===== *)
theory Receipt_Store
  imports Rust_Text Contracts "HOL-Library.AList"
begin

text \<open>
  The durable receipts of the wrapper, \<open>crates/bridget-daemon/src/receipt_store.rs\<close>: one file
  per delivery, written before the delivery is injected, so that a delivery is injected at
  most once whatever crashes.

  The file system is a record of the instance's enrollment file and of its directory. Every
  write or removal consumes a fate: it is done, fails before or after the replacement of the
  file (\<open>write_private_file_atomic\<close> of \<open>bridget-transport/src/fsutil.rs\<close>: a temporary file,
  a rename, a synchronisation), or the process dies before the rename and leaves the
  temporary file with what had been written to it. Fates beyond the given list are done. A
  read that fails for another reason than a missing file changes nothing and is left out.
\<close>

section \<open>Values\<close>

definition MAX_DELIVERY_ID_LEN :: nat where "MAX_DELIVERY_ID_LEN = 128"

record ReceiptQuota =
  rq_max_entries :: nat
  rq_max_bytes :: nat
  rq_horizon_max_secs :: int

definition default_quota :: ReceiptQuota where
  "default_quota = \<lparr>rq_max_entries = 4096, rq_max_bytes = 16 * 1024 * 1024, rq_horizon_max_secs = 7 * 24 * 60 * 60\<rparr>"

datatype ReceiptDecision = Inject | ReceiptAcked | ReceiptIndeterminate | RejectedQuota

datatype ReceiptError = InvalidInstanceId | InvalidDeliveryId | InvalidExpiry | InstanceAlreadyOpen | IoError

datatype Enrollment = EnrollmentMissing | EnrollmentValid | EnrollmentCorrupt

datatype ReceiptEntry = SeenEntry int | AckedEntry int

fun entry_expires_at :: "ReceiptEntry \<Rightarrow> int" where
  "entry_expires_at (SeenEntry e) = e"
| "entry_expires_at (AckedEntry e) = e"

fun serialize :: "ReceiptEntry \<Rightarrow> string" where
  "serialize (SeenEntry e) = ''seen'' @ [CHR 0x0A] @ show_int e @ [CHR 0x0A]"
| "serialize (AckedEntry e) = ''acked'' @ [CHR 0x0A] @ show_int e @ [CHR 0x0A]"

text \<open>\<open>str::lines\<close>: a line ends with a line feed, a carriage return before it is dropped.\<close>

definition strip_cr :: "string \<Rightarrow> string" where
  "strip_cr l = (if l \<noteq> [] \<and> last l = CHR 0x0D then butlast l else l)"

function str_lines :: "string \<Rightarrow> string list" where
  "str_lines s =
     (if s = [] then []
      else case dropWhile (\<lambda>c. c \<noteq> CHR 0x0A) s of
             [] \<Rightarrow> [s]
           | _ # rest \<Rightarrow> strip_cr (takeWhile (\<lambda>c. c \<noteq> CHR 0x0A) s) # str_lines rest)"
  by pat_completeness auto
termination
proof (relation "measure length")
  fix s :: string and c rest
  assume "dropWhile (\<lambda>c. c \<noteq> CHR 0x0A) s = c # rest"
  then have "length (c # rest) \<le> length s" by (metis length_dropWhile_le)
  then show "(rest, s) \<in> measure length" by simp
qed simp

declare str_lines.simps [simp del]

text \<open>\<open>std::str::from_utf8\<close>: the well-formed sequences of bytes.\<close>

fun utf8_valid :: "nat list \<Rightarrow> bool" where
  "utf8_valid [] = True"
| "utf8_valid (a # s) =
     (if a < 128 then utf8_valid s
      else if 194 \<le> a \<and> a \<le> 223 then
        (case s of b # t \<Rightarrow> b div 64 = 2 \<and> utf8_valid t | _ \<Rightarrow> False)
      else if 224 \<le> a \<and> a \<le> 239 then
        (case s of b # c # t \<Rightarrow> b div 64 = 2 \<and> c div 64 = 2 \<and> (a = 224 \<longrightarrow> 160 \<le> b) \<and>
                                (a = 237 \<longrightarrow> b < 160) \<and> utf8_valid t | _ \<Rightarrow> False)
      else if 240 \<le> a \<and> a \<le> 244 then
        (case s of b # c # d # t \<Rightarrow> b div 64 = 2 \<and> c div 64 = 2 \<and> d div 64 = 2 \<and> (a = 240 \<longrightarrow> 144 \<le> b) \<and>
                                    (a = 244 \<longrightarrow> b < 144) \<and> utf8_valid t | _ \<Rightarrow> False)
      else False)"

definition from_utf8 :: "string \<Rightarrow> string option" where
  "from_utf8 bytes = (if utf8_valid (map byte bytes) then Some bytes else None)"

definition parse_entry :: "string \<Rightarrow> ReceiptEntry option" where
  "parse_entry bytes =
     Option.bind (from_utf8 bytes) (\<lambda>v.
       case str_lines v of
         state # second # rest \<Rightarrow>
           Option.bind (parse_i64 second) (\<lambda>e.
             if rest \<noteq> [] then None
             else if state = ''seen'' then Some (SeenEntry e)
             else if state = ''acked'' then Some (AckedEntry e) else None)
       | _ \<Rightarrow> None)"

definition parse_timestamp :: "string \<Rightarrow> int option" where
  "parse_timestamp bytes = Option.bind (from_utf8 bytes) (\<lambda>v. parse_i64 (trim v))"

definition validate_token :: "string \<Rightarrow> bool" where
  "validate_token v \<longleftrightarrow>
     v \<noteq> [] \<and> length v \<le> MAX_DELIVERY_ID_LEN \<and>
     list_all (\<lambda>b. is_ascii_alphanumeric b \<or> b = CHR ''-'' \<or> b = CHR ''_'') v"

section \<open>The file system of one instance\<close>

record ReceiptFs =
  rf_enrollment :: "string option"
  rf_dir :: bool
  rf_files :: "(string \<times> string) list"

definition fs_fresh :: ReceiptFs where
  "fs_fresh = \<lparr>rf_enrollment = None, rf_dir = False, rf_files = []\<rparr>"

datatype fate = Done | FailedBefore | FailedAfter | Crashed string string

type_synonym 'a io = "ReceiptFs \<times> fate list \<Rightarrow> (ReceiptError + 'a) \<times> ReceiptFs \<times> fate list"

definition io_return :: "'a \<Rightarrow> 'a io" where
  "io_return v w = (Inr v, w)"

definition io_fail :: "ReceiptError \<Rightarrow> 'a io" where
  "io_fail e w = (Inl e, w)"

definition io_bind :: "'a io \<Rightarrow> ('a \<Rightarrow> 'b io) \<Rightarrow> 'b io" where
  "io_bind m f w = (case m w of (Inl e, w') \<Rightarrow> (Inl e, w') | (Inr v, w') \<Rightarrow> f v w')"

definition io_get :: "(ReceiptFs \<Rightarrow> 'a io) \<Rightarrow> 'a io" where
  "io_get f w = f (fst w) w"

definition put_file :: "string \<Rightarrow> string \<Rightarrow> ReceiptFs \<Rightarrow> ReceiptFs" where
  "put_file name bytes fs = fs\<lparr>rf_dir := True, rf_files := AList.update name bytes (rf_files fs)\<rparr>"

definition next_fate :: "fate list \<Rightarrow> fate \<times> fate list" where
  "next_fate fates = (case fates of [] \<Rightarrow> (Done, []) | f # rest \<Rightarrow> (f, rest))"

definition temporary_name :: "string \<Rightarrow> string \<Rightarrow> string" where
  "temporary_name name suffix = ''.'' @ name @ ''.'' @ suffix @ ''.tmp''"

definition write_private_file_atomic :: "string \<Rightarrow> string \<Rightarrow> unit io" where
  "write_private_file_atomic name bytes w =
     (case w of (fs, fates) \<Rightarrow>
        (case next_fate fates of (f, rest) \<Rightarrow>
           (case f of
              Done \<Rightarrow> (Inr (), put_file name bytes fs, rest)
            | FailedBefore \<Rightarrow> (Inl IoError, fs\<lparr>rf_dir := True\<rparr>, rest)
            | FailedAfter \<Rightarrow> (Inl IoError, put_file name bytes fs, rest)
            | Crashed suffix part \<Rightarrow> (Inl IoError, put_file (temporary_name name suffix) part fs, rest))))"

text \<open>The enrollment file stands beside the directory; its temporary file does not matter.\<close>

definition write_enrollment :: "unit io" where
  "write_enrollment w =
     (case w of (fs, fates) \<Rightarrow>
        (case next_fate fates of (f, rest) \<Rightarrow>
           (let fs' = fs\<lparr>rf_enrollment := Some (''v1'' @ [CHR 0x0A])\<rparr> in
            case f of
              Done \<Rightarrow> (Inr (), fs', rest)
            | FailedAfter \<Rightarrow> (Inl IoError, fs', rest)
            | _ \<Rightarrow> (Inl IoError, fs, rest))))"

definition create_private_dir :: "unit io" where
  "create_private_dir w = (Inr (), (fst w)\<lparr>rf_dir := True\<rparr>, snd w)"

definition remove_file :: "string \<Rightarrow> unit io" where
  "remove_file name w =
     (case w of (fs, fates) \<Rightarrow>
        (case next_fate fates of (f, rest) \<Rightarrow>
           (let fs' = fs\<lparr>rf_files := AList.delete name (rf_files fs)\<rparr> in
            case f of
              Done \<Rightarrow> (Inr (), fs', rest)
            | FailedAfter \<Rightarrow> (Inl IoError, fs', rest)
            | _ \<Rightarrow> (Inl IoError, fs, rest))))"

definition read_file :: "string \<Rightarrow> ReceiptFs \<Rightarrow> string option" where
  "read_file name fs = (if rf_dir fs then map_of (rf_files fs) name else None)"

section \<open>The store\<close>

definition entry_path :: "string \<Rightarrow> string" where
  "entry_path delivery_id = ''receipt-'' @ delivery_id"

definition max_expires_path :: string where
  "max_expires_path = ''max_expires_at''"

definition quarantine_path :: string where
  "quarantine_path = ''quarantine_until''"

definition read_max_expires_at :: "ReceiptFs \<Rightarrow> int option" where
  "read_max_expires_at fs = Option.bind (read_file max_expires_path fs) parse_timestamp"

definition write_max_expires_at :: "int \<Rightarrow> unit io" where
  "write_max_expires_at e = write_private_file_atomic max_expires_path (show_int e)"

definition persist_entry :: "string \<Rightarrow> ReceiptEntry \<Rightarrow> unit io" where
  "persist_entry delivery_id entry = write_private_file_atomic (entry_path delivery_id) (serialize entry)"

definition directory_is_healthy :: "ReceiptFs \<Rightarrow> bool" where
  "directory_is_healthy fs \<longleftrightarrow> rf_dir fs \<and> read_max_expires_at fs \<noteq> None"

definition receipt_is_quarantined :: "int \<Rightarrow> ReceiptFs \<Rightarrow> bool" where
  "receipt_is_quarantined now fs =
     (case read_file quarantine_path fs of
        None \<Rightarrow> False
      | Some bytes \<Rightarrow> (case parse_timestamp bytes of Some until \<Rightarrow> now < until | None \<Rightarrow> True))"

definition quarantine :: "ReceiptQuota \<Rightarrow> int \<Rightarrow> int \<Rightarrow> unit io" where
  "quarantine quota expires_at now =
     io_get (\<lambda>fs. write_private_file_atomic quarantine_path
       (show_int (max (max (case read_max_expires_at fs of Some m \<Rightarrow> m | None \<Rightarrow> 0) expires_at)
                      (saturating_add now (rq_horizon_max_secs quota)))))"

definition quarantine_permanently :: "unit io" where
  "quarantine_permanently = write_private_file_atomic quarantine_path (show_int i64_max)"

definition receipt_files :: "ReceiptFs \<Rightarrow> (string \<times> string) list" where
  "receipt_files fs = filter (\<lambda>(name, _). name \<noteq> quarantine_path \<and> name \<noteq> max_expires_path) (rf_files fs)"

definition would_exceed_quota :: "ReceiptQuota \<Rightarrow> nat \<Rightarrow> ReceiptFs \<Rightarrow> bool" where
  "would_exceed_quota quota next_entry_bytes fs \<longleftrightarrow>
     rq_max_entries quota \<le> length (receipt_files fs) \<or>
     rq_max_bytes quota <
       u64_saturating_add (fold (\<lambda>(_, bytes) n. u64_saturating_add n (length bytes)) (receipt_files fs) 0) next_entry_bytes"

definition read_enrollment :: "ReceiptFs \<Rightarrow> Enrollment" where
  "read_enrollment fs =
     (case rf_enrollment fs of
        None \<Rightarrow> EnrollmentMissing
      | Some bytes \<Rightarrow> if bytes = ''v1'' @ [CHR 0x0A] then EnrollmentValid else EnrollmentCorrupt)"

text \<open>\<open>locked\<close>: another handle holds the lock of the instance.\<close>

definition open_receipts :: "string \<Rightarrow> bool \<Rightarrow> unit io" where
  "open_receipts instance_id locked =
     (if \<not> validate_token instance_id then io_fail InvalidInstanceId
      else if locked then io_fail InstanceAlreadyOpen
      else io_get (\<lambda>fs.
        case (read_enrollment fs, rf_dir fs) of
          (EnrollmentMissing, False) \<Rightarrow>
            io_bind write_enrollment (\<lambda>_.
            io_bind create_private_dir (\<lambda>_. write_max_expires_at 0))
        | (EnrollmentValid, True) \<Rightarrow>
            if read_max_expires_at fs = None then quarantine_permanently else io_return ()
        | (enrollment, _) \<Rightarrow>
            io_bind (if enrollment = EnrollmentMissing then write_enrollment else io_return ()) (\<lambda>_.
            io_bind create_private_dir (\<lambda>_. quarantine_permanently))))"

definition receive :: "ReceiptQuota \<Rightarrow> string \<Rightarrow> int \<Rightarrow> int \<Rightarrow> ReceiptDecision io" where
  "receive quota delivery_id expires_at now =
     (if \<not> validate_token delivery_id then io_fail InvalidDeliveryId
      else if expires_at \<le> now then io_fail InvalidExpiry
      else io_get (\<lambda>fs.
        if \<not> directory_is_healthy fs then io_return ReceiptIndeterminate
        else if receipt_is_quarantined now fs then io_return ReceiptIndeterminate
        else case read_file (entry_path delivery_id) fs of
          Some bytes \<Rightarrow>
            (case parse_entry bytes of
               Some (AckedEntry _) \<Rightarrow> io_return ReceiptAcked
             | Some (SeenEntry _) \<Rightarrow> io_return ReceiptIndeterminate
             | None \<Rightarrow> io_bind (quarantine quota expires_at now) (\<lambda>_. io_return ReceiptIndeterminate))
        | None \<Rightarrow>
            if would_exceed_quota quota (length (serialize (AckedEntry expires_at))) fs then io_return RejectedQuota
            else
              io_bind (persist_entry delivery_id (SeenEntry expires_at)) (\<lambda>_.
              io_bind (io_get (\<lambda>fs'. case read_max_expires_at fs' of
                         None \<Rightarrow> io_fail IoError
                       | Some m \<Rightarrow> write_max_expires_at (max m expires_at))) (\<lambda>_.
              io_return Inject))))"

definition acknowledge :: "ReceiptQuota \<Rightarrow> string \<Rightarrow> int \<Rightarrow> ReceiptDecision io" where
  "acknowledge quota delivery_id now =
     (if \<not> validate_token delivery_id then io_fail InvalidDeliveryId
      else io_get (\<lambda>fs.
        if receipt_is_quarantined now fs \<or> \<not> directory_is_healthy fs then io_return ReceiptIndeterminate
        else case read_file (entry_path delivery_id) fs of
          None \<Rightarrow> io_return ReceiptIndeterminate
        | Some bytes \<Rightarrow>
            (case parse_entry bytes of
               None \<Rightarrow> io_bind (quarantine quota (saturating_add now (rq_horizon_max_secs quota)) now)
                         (\<lambda>_. io_return ReceiptIndeterminate)
             | Some (AckedEntry _) \<Rightarrow> io_return ReceiptAcked
             | Some (SeenEntry e) \<Rightarrow>
                 io_bind (persist_entry delivery_id (AckedEntry e)) (\<lambda>_. io_return ReceiptAcked))))"

text \<open>The loop of \<open>purge_expired\<close> over the files that the directory had.\<close>

fun purge_loop :: "ReceiptQuota \<Rightarrow> int \<Rightarrow> (string \<times> string) list \<Rightarrow> nat \<Rightarrow> int \<Rightarrow> nat io" where
  "purge_loop quota now [] removed max_expires_at =
     io_bind (write_max_expires_at max_expires_at) (\<lambda>_. io_return removed)"
| "purge_loop quota now ((name, bytes) # files) removed max_expires_at =
     (case parse_entry bytes of
        None \<Rightarrow> io_bind (quarantine quota (saturating_add now (rq_horizon_max_secs quota)) now)
                  (\<lambda>_. io_return removed)
      | Some receipt \<Rightarrow>
          if entry_expires_at receipt \<le> now
          then io_bind (remove_file name) (\<lambda>_. purge_loop quota now files (Suc removed) max_expires_at)
          else purge_loop quota now files removed (max max_expires_at (entry_expires_at receipt)))"

definition purge_expired_receipts :: "ReceiptQuota \<Rightarrow> int \<Rightarrow> nat io" where
  "purge_expired_receipts quota now =
     io_get (\<lambda>fs. if \<not> directory_is_healthy fs then io_return 0
                   else purge_loop quota now (receipt_files fs) 0 0)"

section \<open>Runs\<close>

text \<open>
  Besides the operations, what may happen to the files behind the store: the directory is lost,
  a file is lost, or a file is overwritten.
\<close>

datatype receipt_op =
    ReceiptOpen string bool
  | ReceiptReceive string int int
  | ReceiptAcknowledge string int
  | ReceiptPurge int
  | LoseDirectory
  | LoseFile string
  | Overwrite string string

fun receipt_exec :: "ReceiptQuota \<Rightarrow> receipt_op \<times> fate list \<Rightarrow> ReceiptFs \<Rightarrow> ReceiptFs" where
  "receipt_exec quota (ReceiptOpen i locked, fates) fs = fst (snd (open_receipts i locked (fs, fates)))"
| "receipt_exec quota (ReceiptReceive i e now, fates) fs = fst (snd (receive quota i e now (fs, fates)))"
| "receipt_exec quota (ReceiptAcknowledge i now, fates) fs = fst (snd (acknowledge quota i now (fs, fates)))"
| "receipt_exec quota (ReceiptPurge now, fates) fs = fst (snd (purge_expired_receipts quota now (fs, fates)))"
| "receipt_exec quota (LoseDirectory, fates) fs = fs\<lparr>rf_dir := False, rf_files := []\<rparr>"
| "receipt_exec quota (LoseFile name, fates) fs = fs\<lparr>rf_files := AList.delete name (rf_files fs)\<rparr>"
| "receipt_exec quota (Overwrite name bytes, fates) fs =
     (if read_file name fs = None then fs else fs\<lparr>rf_files := AList.update name bytes (rf_files fs)\<rparr>)"

definition receipt_run :: "ReceiptQuota \<Rightarrow> (receipt_op \<times> fate list) list \<Rightarrow> ReceiptFs \<Rightarrow> ReceiptFs" where
  "receipt_run quota = fold (receipt_exec quota)"

lemma receipt_run_snoc: "receipt_run quota (ops @ [a]) fs = receipt_exec quota a (receipt_run quota ops fs)"
  by (simp add: receipt_run_def)

section \<open>Files read back what was written\<close>

lemma ascii_valid: "list_all (\<lambda>c. byte c < 128) s \<Longrightarrow> utf8_valid (map byte s)"
  by (induction s) auto

lemma digit_graphic: "is_ascii_digit c \<Longrightarrow> is_ascii_graphic c"
  by (simp add: is_ascii_digit_def is_ascii_graphic_def)

lemma show_nat_graphic: "list_all is_ascii_graphic (show_nat n)"
  using show_nat_digits [of n] digit_graphic by (auto simp: list_all_iff)

lemma byte_minus: "byte (CHR ''-'') = 45"
  by (simp add: byte_def)

lemma show_int_graphic: "list_all is_ascii_graphic (show_int x)"
  using show_nat_graphic byte_minus by (auto simp: show_int_def is_ascii_graphic_def)

lemma graphic_ascii: "list_all is_ascii_graphic s \<Longrightarrow> list_all (\<lambda>c. byte c < 128) s"
  by (auto simp: list_all_iff is_ascii_graphic_def)

lemma ascii_chars: "list_all (\<lambda>c. byte c < 128) s \<Longrightarrow> utf8_chars s = map (\<lambda>c. [c]) s"
proof (induction s)
  case (Cons c s)
  have "takeWhile is_continuation s = []" "dropWhile is_continuation s = s"
    using Cons.prems by (cases s; simp add: is_continuation_def)+
  with Cons show ?case by simp
qed simp

lemma graphic_not_whitespace: "is_ascii_graphic c \<Longrightarrow> \<not> is_whitespace (code_point [c])"
  by (simp add: is_ascii_graphic_def is_whitespace_def code_point_def)

lemma trim_start_graphic: "list_all is_ascii_graphic s \<Longrightarrow> trim_start_chars (map (\<lambda>c. [c]) s) = map (\<lambda>c. [c]) s"
  using graphic_not_whitespace by (cases s) (auto simp: trim_start_chars_def)

lemma trim_graphic: "list_all is_ascii_graphic s \<Longrightarrow> trim s = s"
  using trim_start_graphic [of s] trim_start_graphic [of "rev s"]
  by (simp add: trim_def trim_end_chars_def ascii_chars [OF graphic_ascii] rev_map list_all_iff)

lemma parse_show_timestamp: "is_i64 x \<Longrightarrow> parse_timestamp (show_int x) = Some x"
  using show_int_graphic [of x]
  by (simp add: parse_timestamp_def from_utf8_def ascii_valid graphic_ascii trim_graphic parse_show_int)

lemma str_lines_Cons:
  assumes "CHR 0x0A \<notin> set l"
  shows "str_lines (l @ CHR 0x0A # rest) = strip_cr l # str_lines rest"
proof -
  have "takeWhile (\<lambda>c. c \<noteq> CHR 0x0A) (l @ CHR 0x0A # rest) = l"
    "dropWhile (\<lambda>c. c \<noteq> CHR 0x0A) (l @ CHR 0x0A # rest) = CHR 0x0A # rest"
    using assms by (auto simp: takeWhile_append dropWhile_append)
  then show ?thesis by (subst str_lines.simps) simp
qed

lemma graphic_line:
  assumes "list_all is_ascii_graphic s"
  shows "CHR 0x0A \<notin> set s" and "strip_cr s = s"
proof -
  have "\<not> is_ascii_graphic (CHR 0x0A)" "\<not> is_ascii_graphic (CHR 0x0D)"
    by (simp_all add: is_ascii_graphic_def byte_def)
  with assms have "CHR 0x0A \<notin> set s" "CHR 0x0D \<notin> set s" by (auto simp: list_all_iff)
  then show "CHR 0x0A \<notin> set s" and "strip_cr s = s"
    unfolding strip_cr_def using last_in_set by metis+
qed

lemma str_lines_two:
  assumes "list_all is_ascii_graphic a" and "list_all is_ascii_graphic b"
  shows "str_lines (a @ CHR 0x0A # b @ [CHR 0x0A]) = [a, b]"
proof -
  have "str_lines [] = []" by (subst str_lines.simps) simp
  then show ?thesis
    using str_lines_Cons [of a "b @ [CHR 0x0A]"] str_lines_Cons [of b "[]"] graphic_line [OF assms(1)] graphic_line [OF assms(2)]
    by simp
qed

lemma parse_two_lines:
  assumes "list_all is_ascii_graphic a" and "is_i64 e"
  shows "parse_entry (a @ CHR 0x0A # show_int e @ [CHR 0x0A]) =
    (if a = ''seen'' then Some (SeenEntry e) else if a = ''acked'' then Some (AckedEntry e) else None)"
proof -
  have "list_all (\<lambda>c. byte c < 128) (a @ CHR 0x0A # show_int e @ [CHR 0x0A])"
    using graphic_ascii [OF assms(1)] graphic_ascii [OF show_int_graphic [of e]] by (simp add: byte_def)
  then show ?thesis
    using assms by (simp add: parse_entry_def from_utf8_def ascii_valid str_lines_two show_int_graphic parse_show_int
        del: map_append)
qed

lemma parse_serialize: "is_i64 (entry_expires_at r) \<Longrightarrow> parse_entry (serialize r) = Some r"
proof -
  have "list_all is_ascii_graphic ''seen''" "list_all is_ascii_graphic ''acked''"
    by (simp_all add: is_ascii_graphic_def byte_def)
  then show "is_i64 (entry_expires_at r) \<Longrightarrow> parse_entry (serialize r) = Some r"
    using parse_two_lines [of "''seen''"] parse_two_lines [of "''acked''"] by (cases r) simp_all
qed

lemma parse_entry_i64:
  assumes "parse_entry bytes = Some r"
  shows "is_i64 (entry_expires_at r)"
proof -
  obtain v where v: "from_utf8 bytes = Some v" using assms by (auto simp: parse_entry_def bind_eq_Some_conv)
  obtain a b rest where "str_lines v = a # b # rest"
    using assms v by (cases "str_lines v"; cases "tl (str_lines v)") (auto simp: parse_entry_def)
  then show ?thesis
    using assms v parse_i64_bounds [of b] by (cases "parse_i64 b") (auto simp: parse_entry_def split: if_splits)
qed

lemma parse_timestamp_i64: "parse_timestamp bytes = Some m \<Longrightarrow> is_i64 m"
  by (auto simp: parse_timestamp_def bind_eq_Some_conv dest: parse_i64_bounds)



section \<open>At most one injection\<close>

text \<open>What an action keeps, whatever the fates of its writes.\<close>

definition keeps :: "(ReceiptFs \<Rightarrow> bool) \<Rightarrow> 'a io \<Rightarrow> bool" where
  "keeps P m \<longleftrightarrow> (\<forall>w. P (fst w) \<longrightarrow> P (fst (snd (m w))))"

lemma keepsD: "keeps P m \<Longrightarrow> P fs \<Longrightarrow> P (fst (snd (m (fs, fates))))"
  by (simp add: keeps_def)

named_theorems receipt_keeps

lemma keeps_return [receipt_keeps]: "keeps P (io_return v)" "keeps P (io_fail e)"
  by (simp_all add: keeps_def io_return_def io_fail_def)

lemma keeps_bind [receipt_keeps]:
  assumes "keeps P m" and "\<And>v. keeps P (f v)"
  shows "keeps P (io_bind m f)"
  using assms by (auto simp: keeps_def io_bind_def split: prod.split sum.split) (metis fst_conv snd_conv)+

lemma keeps_get:
  assumes "\<And>fs. P fs \<Longrightarrow> keeps P (f fs)"
  shows "keeps P (io_get f)"
  using assms by (auto simp: keeps_def io_get_def)

lemma keeps_write:
  assumes "\<And>fs. P fs \<Longrightarrow> P (put_file name bytes fs)" and "\<And>fs suffix part. P fs \<Longrightarrow> P (put_file (temporary_name name suffix) part fs)"
    and "\<And>fs. P fs \<Longrightarrow> P (fs\<lparr>rf_dir := True\<rparr>)"
  shows "keeps P (write_private_file_atomic name bytes)"
  using assms by (auto simp: keeps_def write_private_file_atomic_def split: prod.split fate.split)

lemma keeps_remove:
  assumes "\<And>fs. P fs \<Longrightarrow> P (fs\<lparr>rf_files := AList.delete name (rf_files fs)\<rparr>)"
  shows "keeps P (remove_file name)"
  using assms by (auto simp: keeps_def remove_file_def Let_def split: prod.split fate.split)

lemma paths [simp]:
  "entry_path x \<noteq> max_expires_path" "entry_path x \<noteq> quarantine_path" "quarantine_path \<noteq> max_expires_path"
  "temporary_name n t \<noteq> entry_path x" "temporary_name n t \<noteq> max_expires_path" "temporary_name n t \<noteq> quarantine_path"
  "entry_path x = entry_path y \<longleftrightarrow> x = y"
  by (simp_all add: entry_path_def max_expires_path_def quarantine_path_def temporary_name_def)

lemmas paths_sym [simp] = paths(1-6) [THEN not_sym]

declare map_of_eq_Some_iff [simp del]

text \<open>The file of the delivery is there, unreadable or with the expiry of the injection.\<close>

definition entry_holds :: "string \<Rightarrow> int \<Rightarrow> ReceiptFs \<Rightarrow> bool" where
  "entry_holds x e fs \<longleftrightarrow>
     rf_enrollment fs \<noteq> None \<and> distinct (map fst (rf_files fs)) \<and>
     (\<exists>bytes. map_of (rf_files fs) (entry_path x) = Some bytes \<and>
        (\<forall>r. parse_entry bytes = Some r \<longrightarrow> entry_expires_at r = e))"

definition sentinel_lost :: "ReceiptFs \<Rightarrow> bool" where
  "sentinel_lost fs \<longleftrightarrow> rf_enrollment fs \<noteq> None \<and> map_of (rf_files fs) max_expires_path = None"

lemma entry_holds_put: "entry_holds x e fs \<Longrightarrow> name \<noteq> entry_path x \<Longrightarrow> entry_holds x e (put_file name bytes fs)"
  by (simp add: entry_holds_def put_file_def update_conv' distinct_update)

lemma entry_holds_dir: "entry_holds x e fs \<Longrightarrow> entry_holds x e (fs\<lparr>rf_dir := d\<rparr>)"
  by (simp add: entry_holds_def)

lemma keeps_other_write: "name \<noteq> entry_path x \<Longrightarrow> keeps (entry_holds x e) (write_private_file_atomic name bytes)"
  by (rule keeps_write) (auto intro: entry_holds_put entry_holds_dir)

lemma keeps_store [receipt_keeps]:
  "keeps (entry_holds x e) (write_max_expires_at m)" "keeps (entry_holds x e) (quarantine quota t now)"
  "keeps (entry_holds x e) quarantine_permanently"
  "y \<noteq> x \<Longrightarrow> keeps (entry_holds x e) (persist_entry y r)"
  unfolding write_max_expires_at_def quarantine_def quarantine_permanently_def persist_entry_def
  by (auto intro!: keeps_other_write keeps_get)

lemma keeps_create [receipt_keeps]: "keeps (entry_holds x e) create_private_dir"
  by (simp add: keeps_def create_private_dir_def entry_holds_dir)

lemma keeps_ack: "is_i64 e \<Longrightarrow> keeps (entry_holds x e) (persist_entry x (AckedEntry e))"
  unfolding persist_entry_def
proof (rule keeps_write)
  fix fs
  assume "is_i64 e" "entry_holds x e fs"
  then show "entry_holds x e (put_file (entry_path x) (serialize (AckedEntry e)) fs)"
    by (simp add: entry_holds_def put_file_def update_conv' distinct_update parse_serialize del: serialize.simps)
qed (auto intro: entry_holds_put entry_holds_dir)

lemma holds_receive: "keeps (entry_holds x e) (receive quota y t now)"
proof -
  have found: "read_file (entry_path x) fs \<noteq> None" if "entry_holds x e fs" "directory_is_healthy fs" for fs
    using that by (auto simp: entry_holds_def directory_is_healthy_def read_file_def)
  show ?thesis unfolding receive_def
    by (cases "y = x")
      (auto intro!: receipt_keeps keeps_get dest: found split: option.split ReceiptEntry.split)
qed

lemma keeps_seen:
  assumes "entry_holds x e fs" and "read_file (entry_path y) fs = Some bytes" and "parse_entry bytes = Some (SeenEntry t)"
  shows "keeps (entry_holds x e) (persist_entry y (AckedEntry t))"
proof (cases "y = x")
  case True
  with assms parse_entry_i64 [OF assms(3)] have "t = e" "is_i64 e"
    by (auto simp: entry_holds_def read_file_def split: if_splits)
  with True show ?thesis using keeps_ack by simp
qed (rule keeps_store)

lemma holds_acknowledge: "keeps (entry_holds x e) (acknowledge quota y now)"
  unfolding acknowledge_def
  by (auto intro!: keeps_return keeps_bind keeps_store(2) keeps_get intro: keeps_seen
      split: option.split ReceiptEntry.split)

lemma holds_purge_loop:
  assumes "\<forall>(name, bytes)\<in>set files. name = entry_path x \<longrightarrow> (\<forall>r. parse_entry bytes = Some r \<longrightarrow> now < entry_expires_at r)"
  shows "keeps (entry_holds x e) (purge_loop quota now files n m)"
  using assms
proof (induction quota now files n m rule: purge_loop.induct)
  case (2 quota now name bytes files removed m)
  have remove: "keeps (entry_holds x e) (remove_file name)" if "name \<noteq> entry_path x"
    by (rule keeps_remove) (use that in \<open>auto simp: entry_holds_def delete_conv' distinct_delete\<close>)
  have "name \<noteq> entry_path x" if "parse_entry bytes = Some r" "entry_expires_at r \<le> now" for r
    using 2(3) that by auto
  with 2 remove show ?case by (auto intro!: receipt_keeps split: option.split)
qed (auto intro!: receipt_keeps)

lemma holds_purge:
  assumes "now < e"
  shows "keeps (entry_holds x e) (purge_expired_receipts quota now)"
  unfolding purge_expired_receipts_def
proof (rule keeps_get)
  fix fs
  assume "entry_holds x e fs"
  then have "\<forall>(name, bytes)\<in>set (receipt_files fs). name = entry_path x \<longrightarrow>
      (\<forall>r. parse_entry bytes = Some r \<longrightarrow> now < entry_expires_at r)"
    using assms by (auto simp: entry_holds_def receipt_files_def map_of_eq_Some_iff)
  then show "keeps (entry_holds x e) (if \<not> directory_is_healthy fs then io_return 0
      else purge_loop quota now (receipt_files fs) 0 0)"
    by (auto intro: receipt_keeps holds_purge_loop)
qed

lemma holds_open: "keeps (entry_holds x e) (open_receipts i locked)"
proof -
  have enrolled: "read_enrollment fs \<noteq> EnrollmentMissing" if "entry_holds x e fs" for fs
    using that by (auto simp: entry_holds_def read_enrollment_def split: option.splits)
  show ?thesis unfolding open_receipts_def
    by (auto intro!: receipt_keeps keeps_get dest: enrolled split: Enrollment.split bool.split)
qed

text \<open>An event that spares the file of the delivery, or makes it unreadable, or loses everything.\<close>

fun harmless :: "string \<Rightarrow> int \<Rightarrow> receipt_op \<Rightarrow> bool" where
  "harmless x e (ReceiptPurge now) = (now < e)"
| "harmless x e (LoseFile name) = (name \<noteq> entry_path x)"
| "harmless x e (Overwrite name bytes) = (name = entry_path x \<longrightarrow> parse_entry bytes = None)"
| "harmless x e _ = True"

lemma holds_exec:
  assumes "entry_holds x e fs" and "harmless x e (fst a)"
  shows "entry_holds x e (receipt_exec quota a fs) \<or> sentinel_lost (receipt_exec quota a fs)"
proof -
  obtain op fates where a: "a = (op, fates)" by (cases a)
  show ?thesis
  proof (cases op)
    case LoseDirectory
    with assms a show ?thesis by (simp add: entry_holds_def sentinel_lost_def)
  next
    case (LoseFile name)
    with assms a show ?thesis by (simp add: entry_holds_def delete_conv' distinct_delete)
  next
    case (Overwrite name bytes)
    with assms a show ?thesis by (auto simp: entry_holds_def update_conv' distinct_update)
  qed (use a assms in \<open>auto intro: keepsD holds_open holds_receive holds_acknowledge holds_purge\<close>)
qed

text \<open>Once the sentinel is lost, the store never injects again.\<close>

lemma lost_unhealthy: "sentinel_lost fs \<Longrightarrow> \<not> directory_is_healthy fs"
  by (simp add: sentinel_lost_def directory_is_healthy_def read_max_expires_at_def read_file_def)

lemma lost_quarantine: "keeps sentinel_lost quarantine_permanently"
  unfolding quarantine_permanently_def
  by (rule keeps_write) (simp_all add: sentinel_lost_def put_file_def update_conv')

lemma lost_open: "keeps sentinel_lost (open_receipts i locked)"
proof -
  have enrolled: "read_enrollment fs \<noteq> EnrollmentMissing" if "sentinel_lost fs" for fs
    using that by (auto simp: sentinel_lost_def read_enrollment_def split: option.splits)
  have "keeps sentinel_lost create_private_dir" by (simp add: keeps_def create_private_dir_def sentinel_lost_def)
  then show ?thesis unfolding open_receipts_def
    by (auto intro!: keeps_return keeps_bind keeps_get lost_quarantine dest: enrolled split: Enrollment.split bool.split)
qed

lemma lost_ops:
  assumes "sentinel_lost fs"
  shows "fst (snd (receive quota x e now (fs, fates))) = fs" and "fst (receive quota x e now (fs, fates)) \<noteq> Inr Inject"
    and "fst (snd (acknowledge quota x now (fs, fates))) = fs"
    and "fst (snd (purge_expired_receipts quota now (fs, fates))) = fs"
  using lost_unhealthy [OF assms]
  by (simp_all add: receive_def acknowledge_def purge_expired_receipts_def io_get_def io_fail_def io_return_def)

lemma lost_exec:
  assumes "sentinel_lost fs"
  shows "sentinel_lost (receipt_exec quota a fs)"
proof -
  obtain op fates where a: "a = (op, fates)" by (cases a)
  show ?thesis
    using assms
    by (cases op) (auto simp: a lost_ops keepsD [OF lost_open],
        auto simp: sentinel_lost_def update_conv' delete_conv' read_file_def split: if_splits)
qed

lemma no_injection_run:
  assumes "entry_holds x e fs \<or> sentinel_lost fs" and "\<forall>a\<in>set later. harmless x e (fst a)"
  shows "entry_holds x e (receipt_run quota later fs) \<or> sentinel_lost (receipt_run quota later fs)"
  using assms
proof (induction later arbitrary: fs)
  case (Cons a later)
  have "entry_holds x e (receipt_exec quota a fs) \<or> sentinel_lost (receipt_exec quota a fs)"
    using Cons.prems holds_exec [of x e fs a quota] lost_exec [of fs quota a] by auto
  with Cons show ?case by (simp add: receipt_run_def)
qed (simp add: receipt_run_def)

lemma no_injection:
  assumes "entry_holds x e fs \<or> sentinel_lost fs"
  shows "fst (receive quota x t now (fs, fates)) \<noteq> Inr Inject"
proof (cases "sentinel_lost fs")
  case False
  with assms obtain bytes where "map_of (rf_files fs) (entry_path x) = Some bytes" by (auto simp: entry_holds_def)
  then show ?thesis
    by (auto simp: receive_def io_get_def io_fail_def io_return_def io_bind_def read_file_def directory_is_healthy_def
        split: option.split ReceiptEntry.split sum.split prod.split)
qed (rule lost_ops)

text \<open>The directory exists only for an enrolled instance.\<close>

definition receipts_wf :: "ReceiptFs \<Rightarrow> bool" where
  "receipts_wf fs \<longleftrightarrow>
     distinct (map fst (rf_files fs)) \<and> (rf_dir fs \<or> rf_files fs \<noteq> [] \<longrightarrow> rf_enrollment fs \<noteq> None)"

definition enrolled_wf :: "ReceiptFs \<Rightarrow> bool" where
  "enrolled_wf fs \<longleftrightarrow> distinct (map fst (rf_files fs)) \<and> rf_enrollment fs \<noteq> None"

lemma enrolled_write: "keeps enrolled_wf (write_private_file_atomic name bytes)"
  by (rule keeps_write) (simp_all add: enrolled_wf_def put_file_def distinct_update)

lemma enrolled_ops [receipt_keeps]:
  "keeps enrolled_wf (write_max_expires_at m)" "keeps enrolled_wf (quarantine quota t now)"
  "keeps enrolled_wf quarantine_permanently" "keeps enrolled_wf (persist_entry y r)"
  unfolding write_max_expires_at_def quarantine_def quarantine_permanently_def persist_entry_def
  by (auto intro!: enrolled_write keeps_get)

lemma enrolled_files [receipt_keeps]:
  "keeps enrolled_wf create_private_dir" "keeps enrolled_wf write_enrollment" "keeps enrolled_wf (remove_file name)"
  by (auto simp: keeps_def create_private_dir_def write_enrollment_def remove_file_def enrolled_wf_def Let_def distinct_delete
      split: prod.split fate.split)

lemma enrolled_receive: "keeps enrolled_wf (receive quota y t now)" "keeps enrolled_wf (acknowledge quota y now)"
  unfolding receive_def acknowledge_def
  by (auto intro!: receipt_keeps keeps_get split: option.split ReceiptEntry.split)

lemma enrolled_purge_loop: "keeps enrolled_wf (purge_loop quota now files n m)"
  by (induction quota now files n m rule: purge_loop.induct) (auto intro!: receipt_keeps split: option.split)

lemma enrolled_purge: "keeps enrolled_wf (purge_expired_receipts quota now)"
  unfolding purge_expired_receipts_def by (auto intro!: receipt_keeps keeps_get enrolled_purge_loop)

lemma enrolled_open: "keeps enrolled_wf (open_receipts i locked)"
  unfolding open_receipts_def by (auto intro!: receipt_keeps keeps_get split: Enrollment.split bool.split)

lemma receipts_wf_exec:
  assumes "receipts_wf fs"
  shows "receipts_wf (receipt_exec quota a fs)"
proof -
  obtain op fates where a: "a = (op, fates)" by (cases a)
  show ?thesis
  proof (cases "rf_enrollment fs")
    case None
    with assms have empty: "\<not> rf_dir fs" "rf_files fs = []" by (auto simp: receipts_wf_def)
    then have "\<not> directory_is_healthy fs" by (simp add: directory_is_healthy_def)
    then have idle: "fst (snd (receive quota x e now (fs, fates))) = fs" "fst (snd (acknowledge quota x now (fs, fates))) = fs"
      "fst (snd (purge_expired_receipts quota now (fs, fates))) = fs" for x e now
      by (simp_all add: receive_def acknowledge_def purge_expired_receipts_def io_get_def io_fail_def io_return_def)
    have rest: "keeps enrolled_wf (io_bind create_private_dir (\<lambda>_. write_max_expires_at 0))"
      by (auto intro!: receipt_keeps)
    have "receipts_wf (fst (snd (open_receipts i locked (fs, fates))))" for i locked
    proof -
      obtain r fs1 fates1 where e: "write_enrollment (fs, fates) = (r, fs1, fates1)" by (cases "write_enrollment (fs, fates)") auto
      then have "fs1 = fs \<or> enrolled_wf fs1" "r = Inr () \<Longrightarrow> enrolled_wf fs1"
        using empty by (auto simp: write_enrollment_def enrolled_wf_def Let_def split: prod.splits fate.splits)
      then show ?thesis using keepsD [OF rest, of fs1 fates1] None empty assms e
        by (cases r)
          (auto simp: open_receipts_def io_fail_def io_get_def io_bind_def read_enrollment_def receipts_wf_def enrolled_wf_def)
    qed
    with assms idle empty show ?thesis by (cases op) (auto simp: a receipts_wf_def read_file_def)
  next
    case (Some v)
    with assms have fs: "enrolled_wf fs" by (simp add: enrolled_wf_def receipts_wf_def)
    have "enrolled_wf (receipt_exec quota a fs)"
    proof (cases op)
      case LoseDirectory
      with fs a show ?thesis by (simp add: enrolled_wf_def)
    next
      case (LoseFile name)
      with fs a show ?thesis by (simp add: enrolled_wf_def distinct_delete)
    next
      case (Overwrite name bytes)
      with fs a show ?thesis by (simp add: enrolled_wf_def distinct_update)
    qed (use a fs in \<open>auto intro: keepsD enrolled_open enrolled_receive enrolled_purge\<close>)
    then show ?thesis by (simp add: enrolled_wf_def receipts_wf_def)
  qed
qed

lemma receipts_wf_run: "receipts_wf (receipt_run quota ops fs_fresh)"
proof -
  have "receipts_wf fs \<Longrightarrow> receipts_wf (receipt_run quota ops fs)" for fs
    by (induction ops arbitrary: fs) (simp_all add: receipt_run_def receipts_wf_exec)
  then show ?thesis by (simp add: receipts_wf_def fs_fresh_def)
qed

lemma inject_writes_entry:
  assumes "fst (receive quota x e now (fs, fates)) = Inr Inject" and "receipts_wf fs" and "is_i64 e"
  shows "entry_holds x e (fst (snd (receive quota x e now (fs, fates))))"
proof -
  have fs: "directory_is_healthy fs" "\<not> receipt_is_quarantined now fs" "read_file (entry_path x) fs = None"
      "validate_token x" "now < e" "\<not> would_exceed_quota quota (length (serialize (AckedEntry e))) fs"
    using assms(1)
    by (auto simp: receive_def io_get_def io_fail_def io_return_def io_bind_def
        split: if_splits option.splits ReceiptEntry.splits sum.splits prod.splits)
  let ?rest = "\<lambda>_::unit. io_bind (io_get (\<lambda>fs'. case read_max_expires_at fs' of
      None \<Rightarrow> io_fail IoError | Some m \<Rightarrow> write_max_expires_at (max m e))) (\<lambda>_. io_return Inject)"
  have run: "receive quota x e now (fs, fates) = io_bind (persist_entry x (SeenEntry e)) ?rest (fs, fates)"
    using fs by (simp add: receive_def io_get_def)
  obtain r fs1 fates1 where p: "persist_entry x (SeenEntry e) (fs, fates) = (r, fs1, fates1)"
    by (cases "persist_entry x (SeenEntry e) (fs, fates)") auto
  with assms(1) run have "r = Inr ()" by (auto simp: io_bind_def split: sum.splits)
  with p have "fs1 = put_file (entry_path x) (serialize (SeenEntry e)) fs"
    by (auto simp: persist_entry_def write_private_file_atomic_def split: prod.splits fate.splits)
  moreover have "rf_enrollment fs \<noteq> None" using fs(1) assms(2) by (auto simp: directory_is_healthy_def receipts_wf_def)
  ultimately have "entry_holds x e fs1"
    using assms(2,3)
    by (simp add: entry_holds_def put_file_def update_conv' distinct_update receipts_wf_def parse_serialize del: serialize.simps)
  moreover have "keeps (entry_holds x e) (?rest ())"
    by (auto intro!: receipt_keeps keeps_get split: option.split)
  ultimately show ?thesis using run p \<open>r = Inr ()\<close> keepsD [of "entry_holds x e" "?rest ()" fs1 fates1]
    by (simp add: io_bind_def)
qed

text \<open>
  C1. A delivery is injected at most once. Once the store has answered that a delivery may be
  injected, no later reception of that delivery is told to inject it again before a purge passes
  its expiry, whatever other deliveries come, whatever operations fail or die at whatever write,
  however often the store is opened again, even if the directory or its other files are lost or
  overwritten and even if the file of the delivery itself becomes unreadable.
\<close>

theorem injected_at_most_once:
  assumes "fst (receive quota x e now (receipt_run quota past fs_fresh, fates)) = Inr Inject" and "is_i64 e"
    and "\<forall>a\<in>set later. harmless x e (fst a)"
  shows "fst (receive quota x e' now' (receipt_run quota later
    (fst (snd (receive quota x e now (receipt_run quota past fs_fresh, fates)))), fates')) \<noteq> Inr Inject"
  using no_injection no_injection_run [OF disjI1 [OF inject_writes_entry [OF assms(1) receipts_wf_run assms(2)]] assms(3)]
  by blast

definition sample_opened :: "(receipt_op \<times> fate list) list" where
  "sample_opened = [(ReceiptOpen ''inst'' False, [])]"

lemma sample_open:
  "receipt_run default_quota sample_opened fs_fresh =
    \<lparr>rf_enrollment = Some (''v1'' @ [CHR 0x0A]), rf_dir = True, rf_files = [(max_expires_path, show_int 0)]\<rparr>"
proof -
  have "validate_token ''inst''" by code_simp
  then show ?thesis
    by (simp add: sample_opened_def receipt_run_def open_receipts_def io_get_def io_bind_def fs_fresh_def read_enrollment_def
        write_enrollment_def create_private_dir_def write_max_expires_at_def write_private_file_atomic_def next_fate_def
        put_file_def)
qed

lemma sample_injected:
  "fst (receive default_quota ''d1'' 1000 10 (receipt_run default_quota sample_opened fs_fresh, [])) = Inr Inject"
proof -
  have "validate_token ''d1''" by code_simp
  moreover have "parse_timestamp (show_int 0) = Some 0" by (rule parse_show_timestamp) (simp add: is_i64_def i64_max_def i64_min_def)
  moreover have "length (show_int 1000) = 4" by (simp add: show_int_def show_nat.simps)
  ultimately show ?thesis unfolding sample_open
    by (simp add: receive_def io_get_def io_bind_def io_return_def directory_is_healthy_def read_max_expires_at_def
        read_file_def receipt_is_quarantined_def would_exceed_quota_def receipt_files_def default_quota_def u64_saturating_add_def
        u64_max_def persist_entry_def write_max_expires_at_def write_private_file_atomic_def next_fate_def put_file_def)
qed

theorem injected_at_most_once_witness:
  "fst (receive default_quota ''d1'' 1000 30 (receipt_run default_quota
      [(ReceiptAcknowledge ''d1'' 20, [Crashed ''7'' ''ack'']), (LoseDirectory, []), (ReceiptOpen ''inst'' False, [])]
      (fst (snd (receive default_quota ''d1'' 1000 10 (receipt_run default_quota sample_opened fs_fresh, [])))), [])) \<noteq> Inr Inject"
  by (rule injected_at_most_once [OF sample_injected]) (simp_all add: is_i64_def i64_max_def i64_min_def)

section \<open>Unreadable files\<close>

lemma is_i64_max: "is_i64 a \<Longrightarrow> is_i64 b \<Longrightarrow> is_i64 (max a b)"
  by (simp add: max_def)

lemma saturating_add_i64 [simp]: "is_i64 (saturating_add a b)"
  by (simp add: saturating_add_def)

lemma quarantine_done:
  "\<exists>until. quarantine quota (saturating_add now (rq_horizon_max_secs quota)) now (fs, []) =
      (Inr (), put_file quarantine_path (show_int until) fs, []) \<and>
    is_i64 until \<and> saturating_add now (rq_horizon_max_secs quota) \<le> until"
proof -
  let ?m = "case read_max_expires_at fs of Some m \<Rightarrow> m | None \<Rightarrow> 0"
  have "is_i64 ?m"
    by (auto simp: read_max_expires_at_def bind_eq_Some_conv is_i64_def i64_max_def i64_min_def
        dest: parse_timestamp_i64 split: option.split)
  then show ?thesis
    by (auto simp: quarantine_def io_get_def write_private_file_atomic_def next_fate_def intro!: exI is_i64_max)
qed

lemma purge_loop_unreadable:
  assumes "\<exists>(n, b)\<in>set files. parse_entry b = None" and "rf_dir fs" and "map_of (rf_files fs) name = Some part"
    and "\<forall>(n, b)\<in>set files. n = name \<longrightarrow> parse_entry b = None" and "name \<noteq> quarantine_path"
  shows "\<exists>until. rf_dir (fst (snd (purge_loop quota now files removed m (fs, [])))) \<and>
    map_of (rf_files (fst (snd (purge_loop quota now files removed m (fs, []))))) quarantine_path = Some (show_int until) \<and>
    is_i64 until \<and> saturating_add now (rq_horizon_max_secs quota) \<le> until \<and>
    map_of (rf_files (fst (snd (purge_loop quota now files removed m (fs, []))))) name = Some part"
  using assms
proof (induction quota now files removed m arbitrary: fs rule: purge_loop.induct)
  case (2 quota now n b files removed m)
  show ?case
  proof (cases "parse_entry b")
    case None
    obtain until where "quarantine quota (saturating_add now (rq_horizon_max_secs quota)) now (fs, []) =
        (Inr (), put_file quarantine_path (show_int until) fs, [])"
      "is_i64 until" "saturating_add now (rq_horizon_max_secs quota) \<le> until"
      using quarantine_done by blast
    with None 2(5,7) show ?thesis by (intro exI [of _ until]) (simp add: io_bind_def io_return_def put_file_def update_conv')
  next
    case (Some r)
    then have other: "n \<noteq> name" using 2(6) by auto
    show ?thesis
    proof (cases "entry_expires_at r \<le> now")
      case True
      let ?fs = "fs\<lparr>rf_files := AList.delete n (rf_files fs)\<rparr>"
      have "purge_loop quota now ((n, b) # files) removed m (fs, []) = purge_loop quota now files (Suc removed) m (?fs, [])"
        using Some True by (simp add: io_bind_def remove_file_def next_fate_def)
      moreover have "map_of (rf_files ?fs) name = Some part" using 2(5) other by (simp add: delete_conv')
      ultimately show ?thesis using 2(1) [OF Some True, of ?fs] 2(3-) Some by auto
    next
      case False
      then have "purge_loop quota now ((n, b) # files) removed m (fs, []) =
          purge_loop quota now files removed (max m (entry_expires_at r)) (fs, [])" using Some by simp
      then show ?thesis using 2(2) [OF Some False, of fs] 2(3-) Some by auto
    qed
  qed
qed simp

text \<open>
  C35. One unreadable file stops the instance. If the directory holds a file that is not a
  readable receipt, such as the temporary file that a crash leaves behind, a purge quarantines
  the whole instance for the length of the horizon: until then every reception, of any delivery,
  is answered indeterminate and injects nothing. The file stays, so the next purge does it again.
\<close>

theorem unreadable_file_stops_instance:
  assumes "directory_is_healthy (receipt_run quota ops fs_fresh)"
    and "(name, part) \<in> set (receipt_files (receipt_run quota ops fs_fresh))" and "parse_entry part = None"
  shows "\<exists>fs'. fst (snd (purge_expired_receipts quota now (receipt_run quota ops fs_fresh, []))) = fs' \<and>
    (\<forall>x e t fates. t < saturating_add now (rq_horizon_max_secs quota) \<longrightarrow> validate_token x \<longrightarrow> t < e \<longrightarrow>
       receive quota x e t (fs', fates) = (Inr ReceiptIndeterminate, fs', fates)) \<and>
    (name, part) \<in> set (receipt_files fs')"
proof -
  let ?fs = "receipt_run quota ops fs_fresh"
  let ?fs' = "fst (snd (purge_expired_receipts quota now (?fs, [])))"
  have wf: "distinct (map fst (rf_files ?fs))" using receipts_wf_run [of quota ops] by (simp add: receipts_wf_def)
  have name: "name \<noteq> quarantine_path" "name \<noteq> max_expires_path" "map_of (rf_files ?fs) name = Some part"
    using assms(2) wf by (auto simp: receipt_files_def map_of_eq_Some_iff)
  have same: "parse_entry b = None" if "(n, b) \<in> set (receipt_files ?fs)" "n = name" for n b
  proof -
    have "map_of (rf_files ?fs) name = Some b" using that wf by (auto simp: receipt_files_def map_of_eq_Some_iff)
    with name(3) assms(3) show ?thesis by simp
  qed
  have fs': "?fs' = fst (snd (purge_loop quota now (receipt_files ?fs) 0 0 (?fs, [])))"
    using assms(1) by (simp add: purge_expired_receipts_def io_get_def)
  have bad: "\<exists>(n, b)\<in>set (receipt_files ?fs). parse_entry b = None" using assms(2,3) by auto
  have all: "\<forall>(n, b)\<in>set (receipt_files ?fs). n = name \<longrightarrow> parse_entry b = None" using same by auto
  have "rf_dir ?fs" using assms(1) by (simp add: directory_is_healthy_def)
  from purge_loop_unreadable [OF bad this name(3) all name(1), of quota now 0 0]
  obtain until where until: "rf_dir ?fs'" "map_of (rf_files ?fs') quarantine_path = Some (show_int until)"
    "is_i64 until" "saturating_add now (rq_horizon_max_secs quota) \<le> until" "map_of (rf_files ?fs') name = Some part"
    unfolding fs' by blast
  have "receipt_is_quarantined t ?fs'" if "t < saturating_add now (rq_horizon_max_secs quota)" for t
    using until that by (simp add: receipt_is_quarantined_def read_file_def parse_show_timestamp)
  then have "receive quota x e t (?fs', fates) = (Inr ReceiptIndeterminate, ?fs', fates)"
    if "t < saturating_add now (rq_horizon_max_secs quota)" "validate_token x" "t < e" for x e t fates
    using that by (simp add: receive_def io_get_def io_return_def)
  moreover have "(name, part) \<in> set (receipt_files ?fs')"
    using map_of_SomeD [OF until(5)] name(1,2) by (simp add: receipt_files_def)
  ultimately show ?thesis by blast
qed

theorem unreadable_file_stops_instance_witness:
  "receive default_quota ''d2'' 5000 60 (fst (snd (purge_expired_receipts default_quota 50 (receipt_run default_quota
      (sample_opened @ [(ReceiptReceive ''d1'' 1000 10, [Crashed ''4242-0'' ''see''])]) fs_fresh, []))), []) =
    (Inr ReceiptIndeterminate, fst (snd (purge_expired_receipts default_quota 50 (receipt_run default_quota
      (sample_opened @ [(ReceiptReceive ''d1'' 1000 10, [Crashed ''4242-0'' ''see''])]) fs_fresh, []))), [])"
proof -
  let ?ops = "sample_opened @ [(ReceiptReceive ''d1'' 1000 10, [Crashed ''4242-0'' ''see''])]"
  let ?tmp = "temporary_name (entry_path ''d1'') ''4242-0''"
  have zero: "parse_timestamp (show_int 0) = Some 0" by (rule parse_show_timestamp) (simp add: is_i64_def i64_max_def i64_min_def)
  have tokens: "validate_token ''d1''" "validate_token ''d2''" by code_simp+
  have "length (show_int 1000) = 4" by (simp add: show_int_def show_nat.simps)
  with zero tokens have fs: "receipt_run default_quota ?ops fs_fresh = put_file ?tmp ''see'' (receipt_run default_quota sample_opened fs_fresh)"
    unfolding receipt_run_snoc sample_open
    by (simp add: receive_def io_get_def io_bind_def io_return_def directory_is_healthy_def read_max_expires_at_def
        read_file_def receipt_is_quarantined_def would_exceed_quota_def receipt_files_def default_quota_def u64_saturating_add_def
        u64_max_def persist_entry_def write_private_file_atomic_def next_fate_def)
  have healthy: "directory_is_healthy (receipt_run default_quota ?ops fs_fresh)"
    and stray: "(?tmp, ''see'') \<in> set (receipt_files (receipt_run default_quota ?ops fs_fresh))"
    unfolding fs sample_open
    by (simp_all add: zero directory_is_healthy_def read_max_expires_at_def read_file_def put_file_def receipt_files_def)
  have "parse_entry ''see'' = None" by code_simp
  from unreadable_file_stops_instance [OF healthy stray this, of 50] tokens(2)
  show ?thesis by (auto simp: default_quota_def saturating_add_def i64_saturate_def i64_max_def i64_min_def)
qed

end
