(* ===== verification/Store_Tables.thy ===== *)
theory Store_Tables
  imports Contracts Message Guidance Referent_Control
begin

text \<open>
  The SQLite tables of \<open>crates/bridget-daemon/src/idempotency.rs\<close> (\<open>init_schema\<close>) as a record
  of row lists, and the error type of the store. A column with a \<open>CHECK\<close> over a closed list
  of texts is a datatype; a nullable column is an option. The tables of the referent control
  and of the guidance journal live in the same database.

  Decoding a stored envelope (\<open>serde_json::from_slice\<close>), the two SQL JSON accessors and the
  JSON summary of a reply are code of libraries: they are the fields of \<open>Codec\<close>, an argument
  of every operation that uses them. Of the table of interruptions, which another store owns,
  only the columns read here are kept.
\<close>

section \<open>Keys, states, results\<close>

datatype OperationKind = OpSend | OpSpawn

fun kind_name :: "OperationKind \<Rightarrow> string" where
  "kind_name OpSend = ''send''"
| "kind_name OpSpawn = ''spawn''"

record IdempotencyKey =
  issuer_scope_of :: string
  operation_kind :: OperationKind
  idempotency_key :: string

datatype RecordState = Prepared | Dispatching | Terminal

fun state_as_str :: "RecordState \<Rightarrow> string" where
  "state_as_str Prepared = ''prepared''"
| "state_as_str Dispatching = ''dispatching''"
| "state_as_str Terminal = ''terminal''"

datatype IdempotencyError =
    InvalidIssuerScope
  | InvalidIdempotencyKey
  | CanonicalTooLarge
  | InvalidIssuedAt
  | InvalidHorizon
  | InvalidTransition RecordState RecordState
  | InvalidDelivery
  | HeldQueueFull
  | DispatchUnavailable
  | MissingRecord
  | CorruptRecord string
  | Sqlite

definition state_from_str :: "string \<Rightarrow> IdempotencyError + RecordState" where
  "state_from_str v =
     (if v = ''prepared'' then Inr Prepared
      else if v = ''dispatching'' then Inr Dispatching
      else if v = ''terminal'' then Inr Terminal
      else Inl (CorruptRecord ([CHR 0xC3, CHR 0xA9] @ ''tat inconnu'')))"

datatype PublicResult =
    Accepted int
  | Rejected string string
  | Orphaned string

datatype LookupResult =
    LAccepted int
  | LRejected string string int
  | LOutcomeUnknown int
  | LOrphaned int string
  | LIdempotencyExpired

datatype Reservation =
    ResPrepared int
  | ResReplayed LookupResult
  | ResEnvelopeMismatch
  | ResIdempotencyExpired

section \<open>Rows\<close>

record RecordRow =
  rr_key :: IdempotencyKey
  rr_canonical_bytes :: string
  rr_state :: RecordState
  rr_result_kind :: "string option"
  rr_result_category :: "string option"
  rr_result_reason :: "string option"
  rr_issued_at :: int
  rr_expires_at :: int

datatype Phase = DDispatching | DAcked | DIndeterminate | DOrphaned | DHeld | DCancelled

record DeliveryRow =
  dr_queue_rank :: int
  dr_delivery_id :: string
  dr_key :: IdempotencyKey
  dr_recipient_instance_id :: string
  dr_delivery_generation :: nat
  dr_phase :: Phase
  dr_expires_at :: int
  dr_message_bytes :: "string option"
  dr_recipient_agent :: string
  dr_turn_gate :: bool
  dr_acked_at :: "int option"

record SendDelivery =
  sd_delivery_id :: string
  sd_recipient_instance_id :: string
  sd_delivery_generation :: nat
  sd_expires_at :: int
  sd_message_bytes :: string

record DeliveryExecutionLink =
  dl_delivery_id :: string
  dl_submission_id :: string
  dl_execution_id :: string

record ReplyTracking =
  rt_request_id :: string
  rt_sender :: string
  rt_target :: string
  rt_created_at :: int
  rt_deadline_at :: int

datatype RequestState = ReqOpen | ReqAnswered | ReqCancelled | ReqTimedOut

record RequestRow =
  tq_id :: string
  tq_sender :: string
  tq_target :: string
  tq_state :: RequestState
  tq_created_at :: int
  tq_deadline_at :: int
  tq_escalation_level :: nat
  tq_cancel_reason :: "string option"
  tq_completed_at :: "int option"
  tq_reply_summary :: "string option"

record LedgerRow =
  lg_id :: string
  lg_ts :: int
  lg_sender :: string
  lg_target :: string
  lg_body :: string
  lg_conversation_key :: string

record NoticeRow =
  nt_delivery_id :: string
  nt_sender :: string
  nt_body :: string
  nt_created_at :: int
  nt_notified_at :: "int option"

record OrphanedDeliveryNotice =
  on_delivery_id :: string
  on_message_id :: string
  on_sender :: string
  on_target :: string
  on_reason :: string

datatype QueueEditAction = EditCancel | EditReorder | EditPromote

datatype QueueEditState = EditApplied | EditRefused

record EditRow =
  qe_issuer_scope :: string
  qe_request_id :: string
  qe_canonical_bytes :: string
  qe_action :: QueueEditAction
  qe_actor :: string
  qe_delivery_id :: "string option"
  qe_before_delivery_id :: "string option"
  qe_state :: QueueEditState
  qe_refusal :: "string option"
  qe_created_at :: int
  qe_expires_at :: int

record InterruptionRow =
  ir_target_agent :: string
  ir_resume_execution_id :: "string option"
  ir_resumed_at :: "int option"

text \<open>
  A deposit at the guichet and the single lifecycle event of a deposit. The column
  \<open>operation_kind\<close> is always \<open>'service_request'\<close> and is left out, as is the random
  identifier of a lifecycle event.
\<close>

datatype GuichetState = GQueued | GClaimed | GReplied | GRejected

record GuichetRow =
  gr_deposited_sequence :: int
  gr_issuer_scope :: string
  gr_request_id :: string
  gr_canonical_request :: string
  gr_authorization_attestation :: "string option"
  gr_issued_at :: int
  gr_expires_at :: int
  gr_sender :: string
  gr_linked_request_id :: "string option"
  gr_state :: GuichetState
  gr_claim_owner :: "string option"
  gr_claim_generation :: int
  gr_claim_token :: "string option"
  gr_claim_lease_expires_at :: "int option"
  gr_result_issue :: "string option"
  gr_reply_bytes :: "string option"

datatype GuichetLifecycleState = GAnswered | GCancelled | GTimedOut

record LifecycleRow =
  lc_issuer_scope :: string
  lc_request_id :: string
  lc_state :: GuichetLifecycleState
  lc_observed_at :: int
  lc_in_reply_to :: "string option"
  lc_response_message_id :: "string option"

text \<open>A reminder that was sent, numbered by the cursor of its stream, and one that was deferred.\<close>

record CoordinationRow =
  co_cursor :: int
  co_event_id :: string
  co_request_id :: string
  co_reminder_message_id :: string
  co_recipient :: string
  co_generation :: int
  co_observed_at :: int

record RequestEventRow =
  ev_request_id :: string
  ev_event_type :: string
  ev_level :: nat
  ev_ts :: int

record Db =
  db_records :: "RecordRow table"
  db_deliveries :: "DeliveryRow table"
  db_last_rank :: int
  db_links :: "DeliveryExecutionLink table"
  db_requests :: "RequestRow table"
  db_ledger :: "LedgerRow table"
  db_notices :: "NoticeRow table"
  db_edits :: "EditRow table"
  db_guidance :: GuidanceLog
  db_control :: ControlDb
  db_interruptions :: "InterruptionRow table"
  db_guichet :: "GuichetRow table"
  db_last_sequence :: int
  db_lifecycle :: "LifecycleRow table"
  db_request_events :: "RequestEventRow table"
  db_coordination :: "CoordinationRow table"
  db_high_watermark :: int

record Codec =
  decode :: "string \<Rightarrow> BridgetMessage option"
  json_id :: "string \<Rightarrow> string option"
  json_thread_notice_absent :: "string \<Rightarrow> bool"
  summary_json :: "string \<Rightarrow> string \<Rightarrow> string \<Rightarrow> bool \<Rightarrow> string"

definition db_empty :: Db where
  "db_empty = \<lparr>db_records = [], db_deliveries = [], db_last_rank = 0, db_links = [], db_requests = [],
     db_ledger = [], db_notices = [], db_edits = [], db_guidance = empty_guidance_log,
     db_control = control_initial, db_interruptions = [], db_guichet = [],
     db_last_sequence = 0, db_lifecycle = [], db_request_events = [], db_coordination = [], db_high_watermark = 0\<rparr>"

interpretation record_states: closed_vocabulary "[Prepared, Dispatching, Terminal]" state_as_str
proof
  show "k \<in> set [Prepared, Dispatching, Terminal]" for k by (cases k) simp_all
qed simp

lemma state_from_as_str [simp]: "state_from_str (state_as_str s) = Inr s"
  by (cases s) (simp_all add: state_from_str_def)

section \<open>Guards shared by the operations\<close>

type_synonym 'r outcome = "IdempotencyError + 'r"

definition MIN_ISSUER_SCOPE_LEN :: nat where "MIN_ISSUER_SCOPE_LEN = 22"
definition MAX_ISSUER_SCOPE_LEN :: nat where "MAX_ISSUER_SCOPE_LEN = 128"
definition MAX_IDEMPOTENCY_KEY_LEN :: nat where "MAX_IDEMPOTENCY_KEY_LEN = 256"
definition MAX_CANONICAL_BYTES :: nat where "MAX_CANONICAL_BYTES = 1024 * 1024"
definition QUEUE_EDIT_RETENTION_SECS :: int where "QUEUE_EDIT_RETENTION_SECS = 7 * 86400"

definition validate_issuer_scope :: "string \<Rightarrow> unit outcome" where
  "validate_issuer_scope v =
     (if \<not> (MIN_ISSUER_SCOPE_LEN \<le> length v \<and> length v \<le> MAX_ISSUER_SCOPE_LEN) \<or>
         \<not> list_all (\<lambda>b. is_ascii_alphanumeric b \<or> b = CHR ''-'' \<or> b = CHR ''_'') v
      then Inl InvalidIssuerScope else Inr ())"

definition validate_idempotency_key :: "string \<Rightarrow> unit outcome" where
  "validate_idempotency_key v =
     (if v = [] \<or> MAX_IDEMPOTENCY_KEY_LEN < length v \<or> \<not> list_all is_ascii_graphic v
      then Inl InvalidIdempotencyKey else Inr ())"

definition validate_canonical_bytes :: "string \<Rightarrow> unit outcome" where
  "validate_canonical_bytes v = (if MAX_CANONICAL_BYTES < length v then Inl CanonicalTooLarge else Inr ())"

definition key_new :: "string \<Rightarrow> OperationKind \<Rightarrow> string \<Rightarrow> IdempotencyKey outcome" where
  "key_new scope kind key =
     (case validate_issuer_scope scope of
        Inl e \<Rightarrow> Inl e
      | Inr _ \<Rightarrow>
          (case validate_idempotency_key key of
             Inl e \<Rightarrow> Inl e
           | Inr _ \<Rightarrow> Inr \<lparr>issuer_scope_of = scope, operation_kind = kind, idempotency_key = key\<rparr>))"

text \<open>\<open>ON DELETE CASCADE\<close>: a deleted record takes its delivery along, a delivery its link.\<close>

definition delete_records :: "(RecordRow \<Rightarrow> bool) \<Rightarrow> Db \<Rightarrow> nat \<times> Db" where
  "delete_records p db =
     (let gone = map rr_key (filter p (db_records db));
          lost = filter (\<lambda>d. dr_key d \<in> set gone) (db_deliveries db)
      in (sql_matches p (db_records db),
          db\<lparr>db_records := sql_delete p (db_records db),
             db_deliveries := sql_delete (\<lambda>d. dr_key d \<in> set gone) (db_deliveries db),
             db_links := sql_delete (\<lambda>l. dl_delivery_id l \<in> dr_delivery_id ` set lost) (db_links db)\<rparr>))"

end
