(* ===== verification/Idempotency.thy ===== *)
theory Idempotency
  imports Store_Tables
begin

text \<open>
  The transactional base of \<open>crates/bridget-daemon/src/idempotency.rs\<close>: reserving a key,
  replaying it, moving its record from prepared to dispatching to terminal, reading its
  result, purging it. Each operation takes the database and returns its result beside the
  new database; on an error (\<open>Inl\<close>) the transaction is rolled back, so no database is
  returned. \<open>reserve\<close> is the only operation of two statements outside a transaction:
  \<open>reserve_insert\<close> is its second statement, so that another connection may act in between.
\<close>

section \<open>Operations\<close>

definition load_record :: "IdempotencyKey \<Rightarrow> Db \<Rightarrow> RecordRow option" where
  "load_record key db = sql_row (\<lambda>r. rr_key r = key) (db_records db)"

definition lookup_result :: "RecordRow \<Rightarrow> LookupResult outcome" where
  "lookup_result r =
     (if rr_state r \<noteq> Terminal then Inr (LOutcomeUnknown (rr_expires_at r))
      else if rr_result_kind r = Some ''accepted'' then Inr (LAccepted (rr_expires_at r))
      else if rr_result_kind r = Some ''rejected'' then
        (case rr_result_category r of
           None \<Rightarrow> Inl (CorruptRecord (''cat'' @ [CHR 0xC3, CHR 0xA9] @ ''gorie absente''))
         | Some category \<Rightarrow>
             (case rr_result_reason r of
                None \<Rightarrow> Inl (CorruptRecord ''motif absent'')
              | Some reason \<Rightarrow> Inr (LRejected category reason (rr_expires_at r))))
      else if rr_result_kind r = Some ''orphaned'' then
        Inr (LOrphaned (rr_expires_at r)
          (case rr_result_reason r of
             Some reason \<Rightarrow> reason
           | None \<Rightarrow> ''destinataire purg'' @ [CHR 0xC3, CHR 0xA9] @ '' '' @ [CHR 0xE2, CHR 0x80, CHR 0x94] @ '' remise orpheline''))
      else Inl (CorruptRecord ''issue terminale absente''))"

definition replay_existing ::
  "IdempotencyKey \<Rightarrow> string \<Rightarrow> int \<Rightarrow> Db \<Rightarrow> Reservation option outcome"
where
  "replay_existing key canonical_bytes now db =
     (case load_record key db of
        None \<Rightarrow> Inr None
      | Some record \<Rightarrow>
          if rr_expires_at record \<le> now then Inr (Some ResIdempotencyExpired)
          else if rr_canonical_bytes record \<noteq> canonical_bytes then Inr (Some ResEnvelopeMismatch)
          else case lookup_result record of
                 Inl e \<Rightarrow> Inl e
               | Inr res \<Rightarrow> Inr (Some (ResReplayed res)))"

definition new_record :: "IdempotencyKey \<Rightarrow> string \<Rightarrow> int \<Rightarrow> int \<Rightarrow> RecordRow" where
  "new_record key canonical_bytes issued_at expires_at =
     \<lparr>rr_key = key, rr_canonical_bytes = canonical_bytes, rr_state = Prepared,
      rr_result_kind = None, rr_result_category = None, rr_result_reason = None,
      rr_issued_at = issued_at, rr_expires_at = expires_at\<rparr>"

text \<open>\<open>INSERT .. ON CONFLICT DO NOTHING\<close>, then the replay when another writer was first.\<close>

definition reserve_insert ::
  "IdempotencyKey \<Rightarrow> string \<Rightarrow> int \<Rightarrow> int \<Rightarrow> int \<Rightarrow> Db \<Rightarrow> (Reservation \<times> Db) outcome"
where
  "reserve_insert key canonical_bytes issued_at expires_at now db =
     (if \<not> sql_exists (\<lambda>r. rr_key r = key) (db_records db)
      then Inr (ResPrepared expires_at,
                db\<lparr>db_records := db_records db @ [new_record key canonical_bytes issued_at expires_at]\<rparr>)
      else case replay_existing key canonical_bytes now db of
             Inl e \<Rightarrow> Inl e
           | Inr None \<Rightarrow> Inl MissingRecord
           | Inr (Some replay) \<Rightarrow> Inr (replay, db))"

definition reserve ::
  "IdempotencyKey \<Rightarrow> string \<Rightarrow> int \<Rightarrow> int \<Rightarrow> int \<Rightarrow> int \<Rightarrow> Db \<Rightarrow> (Reservation \<times> Db) outcome"
where
  "reserve key canonical_bytes issued_at horizon_secs now tolerance_secs db =
     (case validate_canonical_bytes canonical_bytes of
        Inl e \<Rightarrow> Inl e
      | Inr _ \<Rightarrow>
          if saturating_add now (max tolerance_secs 0) < issued_at then Inl InvalidIssuedAt
          else case replay_existing key canonical_bytes now db of
                 Inl e \<Rightarrow> Inl e
               | Inr (Some replay) \<Rightarrow> Inr (replay, db)
               | Inr None \<Rightarrow>
                   if horizon_secs \<le> 0 then Inl InvalidHorizon
                   else case checked_add issued_at horizon_secs of
                          None \<Rightarrow> Inl InvalidHorizon
                        | Some expires_at \<Rightarrow>
                            if expires_at \<le> now then Inr (ResIdempotencyExpired, db)
                            else reserve_insert key canonical_bytes issued_at expires_at now db)"

definition lookup :: "IdempotencyKey \<Rightarrow> int \<Rightarrow> Db \<Rightarrow> LookupResult outcome" where
  "lookup key now db =
     (case load_record key db of
        None \<Rightarrow> Inr LIdempotencyExpired
      | Some record \<Rightarrow>
          if rr_expires_at record \<le> now then Inr LIdempotencyExpired else lookup_result record)"

definition prepared_expiry :: "IdempotencyKey \<Rightarrow> int \<Rightarrow> Db \<Rightarrow> int option" where
  "prepared_expiry key now db =
     (case load_record key db of
        Some record \<Rightarrow>
          if rr_state record = Prepared \<and> now < rr_expires_at record then Some (rr_expires_at record)
          else None
      | None \<Rightarrow> None)"

text \<open>\<open>UPDATE idempotency_records SET .. WHERE key AND state\<close>, with the number of rows.\<close>

definition at_key_state :: "IdempotencyKey \<Rightarrow> RecordState \<Rightarrow> RecordRow \<Rightarrow> bool" where
  "at_key_state key st r \<longleftrightarrow> rr_key r = key \<and> rr_state r = st"

definition settle_row ::
  "string \<Rightarrow> string option \<Rightarrow> string option \<Rightarrow> RecordRow \<Rightarrow> RecordRow"
where
  "settle_row kind category reason r =
     r\<lparr>rr_state := Terminal, rr_result_kind := Some kind, rr_result_category := category,
       rr_result_reason := reason\<rparr>"

definition start_record :: "IdempotencyKey \<Rightarrow> Db \<Rightarrow> nat \<times> Db" where
  "start_record key db =
     (sql_matches (at_key_state key Prepared) (db_records db),
      db\<lparr>db_records := sql_update (at_key_state key Prepared) (\<lambda>r. r\<lparr>rr_state := Dispatching\<rparr>)
                         (db_records db)\<rparr>)"

definition settle_record ::
  "IdempotencyKey \<Rightarrow> string \<Rightarrow> string option \<Rightarrow> string option \<Rightarrow> Db \<Rightarrow> nat \<times> Db"
where
  "settle_record key kind category reason db =
     (sql_matches (at_key_state key Dispatching) (db_records db),
      db\<lparr>db_records := sql_update (at_key_state key Dispatching) (settle_row kind category reason)
                         (db_records db)\<rparr>)"

definition record_transition ::
  "IdempotencyKey \<Rightarrow> RecordState \<Rightarrow> RecordState \<Rightarrow> Db \<Rightarrow> (unit \<times> Db) outcome"
where
  "record_transition key from to db =
     (if \<not> (from = Prepared \<and> to = Dispatching) then Inl (InvalidTransition from to)
      else case start_record key db of
             (n, db') \<Rightarrow>
               if n = 1 then Inr ((), db')
               else if load_record key db \<noteq> None then Inl (InvalidTransition from to)
               else Inl MissingRecord)"

definition finalize :: "IdempotencyKey \<Rightarrow> PublicResult \<Rightarrow> Db \<Rightarrow> (unit \<times> Db) outcome" where
  "finalize key result db =
     (let (kind, category, reason) =
            (case result of
               Accepted _ \<Rightarrow> (''accepted'', None, None)
             | Rejected category reason \<Rightarrow> (''rejected'', Some category, Some reason)
             | Orphaned reason \<Rightarrow> (''orphaned'', None, Some reason));
          (n, db') = settle_record key kind category reason db
      in if n = 1 then Inr ((), db')
         else case load_record key db of
                Some record \<Rightarrow> Inl (InvalidTransition (rr_state record) Terminal)
              | None \<Rightarrow> Inl MissingRecord)"

definition reject_prepared ::
  "IdempotencyKey \<Rightarrow> string \<Rightarrow> string \<Rightarrow> Db \<Rightarrow> (unit \<times> Db) outcome"
where
  "reject_prepared key category reason db =
     (case start_record key db of
        (dispatched, db1) \<Rightarrow>
          if dispatched \<noteq> 1 then Inl DispatchUnavailable
          else case settle_record key ''rejected'' (Some category) (Some reason) db1 of
                 (terminal, db2) \<Rightarrow>
                   if terminal \<noteq> 1 then Inl DispatchUnavailable else Inr ((), db2))"

definition purge_queue_edits :: "int \<Rightarrow> Db \<Rightarrow> nat \<times> Db" where
  "purge_queue_edits now db =
     (sql_matches (\<lambda>e. qe_expires_at e < now) (db_edits db),
      db\<lparr>db_edits := sql_delete (\<lambda>e. qe_expires_at e < now) (db_edits db)\<rparr>)"

definition purge_expired :: "int \<Rightarrow> Db \<Rightarrow> nat \<times> Db" where
  "purge_expired now db =
     (let (records, db1) = delete_records (\<lambda>r. rr_expires_at r \<le> now) db;
          (edits, db2) = purge_queue_edits now db1
      in (records + edits, db2))"

definition purge_expired_sends :: "int \<Rightarrow> int \<Rightarrow> Db \<Rightarrow> nat \<times> Db" where
  "purge_expired_sends now grace db =
     delete_records (\<lambda>r. operation_kind (rr_key r) = OpSend \<and>
       rr_expires_at r \<le> saturating_sub now grace) db"

section \<open>Lemmas on the table of records\<close>

definition records_inv :: "Db \<Rightarrow> bool" where
  "records_inv db \<longleftrightarrow> distinct (map rr_key (db_records db))"

text \<open>A terminal row carries a result that \<open>lookup_result\<close> can read; the others carry none.\<close>

definition row_result_ok :: "RecordRow \<Rightarrow> bool" where
  "row_result_ok r \<longleftrightarrow>
     (if rr_state r = Terminal
      then rr_result_kind r = Some ''accepted'' \<or> rr_result_kind r = Some ''orphaned'' \<or>
           rr_result_kind r = Some ''rejected'' \<and> rr_result_category r \<noteq> None \<and> rr_result_reason r \<noteq> None
      else rr_result_kind r = None)"

lemma lookup_result_ok: "row_result_ok r \<Longrightarrow> \<exists>res. lookup_result r = Inr res"
  by (auto simp: row_result_ok_def lookup_result_def split: if_splits)

lemma load_record_SomeD: "load_record key db = Some r \<Longrightarrow> r \<in> set (db_records db) \<and> rr_key r = key"
  using sql_row_SomeD [of "\<lambda>r. rr_key r = key"] by (auto simp: load_record_def)

lemma load_record_None_iff: "load_record key db = None \<longleftrightarrow> key \<notin> rr_key ` set (db_records db)"
  by (auto simp: load_record_def sql_row_None_iff)

lemma load_record_member:
  assumes "records_inv db" and "r \<in> set (db_records db)"
  shows "load_record (rr_key r) db = Some r"
  using assms sql_row_unique [of rr_key "db_records db" r] by (simp add: load_record_def records_inv_def)

lemma load_record_cong: "db_records db = db_records db' \<Longrightarrow> load_record key db = load_record key db'"
  by (simp add: load_record_def)

lemma load_record_append:
  "db_records db' = db_records db @ [r] \<Longrightarrow>
   load_record key db' =
     (case load_record key db of Some x \<Rightarrow> Some x | None \<Rightarrow> if rr_key r = key then Some r else None)"
  by (auto simp: load_record_def sql_row_append split: option.splits) (simp_all add: sql_row_def)

text \<open>An update that keeps keys acts on the loaded record.\<close>

lemma load_record_update:
  assumes "\<And>r. rr_key (f r) = rr_key r" and "db_records db' = sql_update p f (db_records db)"
  shows "load_record key db' = map_option (\<lambda>r. if p r then f r else r) (load_record key db)"
  using assms(2) sql_row_update [of rr_key f key p "db_records db"] assms(1) by (simp add: load_record_def)

end
