(* ===== verification/Send_Delivery.thy ===== *)
theory Send_Delivery
  imports Idempotency
begin

text \<open>
  Idempotent delivery, \<open>crates/bridget-daemon/src/idempotency/send_delivery.rs\<close>: a delivery
  is created with the passage of its record to dispatching, in one transaction with the
  ledger, the tracked request and the causal link, and is then acknowledged, declared
  indeterminate, orphaned or reassigned. The queue of held messages is in the theory
  \<open>Held_Queue\<close>. \<open>ts\<close> is the clock that the source reads inside an operation.
\<close>

section \<open>The question mark\<close>

text \<open>\<open>x?\<close> followed by the rest of the function.\<close>

definition q_bind :: "'a outcome \<Rightarrow> ('a \<Rightarrow> 'b outcome) \<Rightarrow> 'b outcome" where
  "q_bind x f = (case x of Inl e \<Rightarrow> Inl e | Inr v \<Rightarrow> f v)"

lemma q_bind_simps [simp]: "q_bind (Inl e) f = Inl e" "q_bind (Inr v) f = f v"
  by (simp_all add: q_bind_def)

lemma q_bind_Inr_iff: "q_bind x f = Inr y \<longleftrightarrow> (\<exists>v. x = Inr v \<and> f v = Inr y)"
  by (cases x) auto

section \<open>Rows\<close>

definition send_key :: "IdempotencyKey \<Rightarrow> IdempotencyKey" where
  "send_key key = key\<lparr>operation_kind := OpSend\<rparr>"

lemma send_key_id [simp]: "operation_kind key = OpSend \<Longrightarrow> send_key key = key"
  by (cases key) (simp add: send_key_def)

definition into_delivery :: "DeliveryRow \<Rightarrow> SendDelivery option" where
  "into_delivery d =
     map_option (\<lambda>bytes. \<lparr>sd_delivery_id = dr_delivery_id d,
        sd_recipient_instance_id = dr_recipient_instance_id d,
        sd_delivery_generation = dr_delivery_generation d, sd_expires_at = dr_expires_at d,
        sd_message_bytes = bytes\<rparr>) (dr_message_bytes d)"

definition insert_delivery :: "DeliveryRow \<Rightarrow> Db \<Rightarrow> Db outcome" where
  "insert_delivery d db =
     (if sql_exists (\<lambda>x. dr_delivery_id x = dr_delivery_id d) (db_deliveries db) \<or>
         sql_exists (\<lambda>x. dr_key x = dr_key d) (db_deliveries db) \<or>
         \<not> sql_exists (\<lambda>r. rr_key r = dr_key d) (db_records db) \<or>
         dr_delivery_generation d = 0 \<or> i64_max < int (dr_delivery_generation d)
      then Inl Sqlite
      else Inr (db\<lparr>db_deliveries := db_deliveries db @ [d\<lparr>dr_queue_rank := db_last_rank db + 1\<rparr>],
                   db_last_rank := db_last_rank db + 1\<rparr>))"

definition insert_link :: "DeliveryExecutionLink \<Rightarrow> Db \<Rightarrow> Db outcome" where
  "insert_link l db =
     (if sql_exists (\<lambda>x. dl_delivery_id x = dl_delivery_id l) (db_links db) \<or>
         \<not> sql_exists (\<lambda>d. dr_delivery_id d = dl_delivery_id l) (db_deliveries db)
      then Inl Sqlite else Inr (db\<lparr>db_links := db_links db @ [l]\<rparr>))"

definition record_message_in_transaction :: "int \<Rightarrow> BridgetMessage \<Rightarrow> string \<Rightarrow> Db \<Rightarrow> Db" where
  "record_message_in_transaction ts msg conversation_key db =
     db\<lparr>db_ledger :=
       sql_delete (\<lambda>l. lg_id l = msg_id msg \<and> lg_target l = msg_to msg) (db_ledger db) @
       [\<lparr>lg_id = msg_id msg, lg_ts = ts, lg_sender = msg_from msg, lg_target = msg_to msg,
         lg_body = body msg, lg_conversation_key = conversation_key\<rparr>]\<rparr>"

definition insert_request :: "ReplyTracking \<Rightarrow> Db \<Rightarrow> Db outcome" where
  "insert_request r db =
     (if sql_exists (\<lambda>q. tq_id q = rt_request_id r) (db_requests db) then Inl Sqlite
      else Inr (db\<lparr>db_requests := db_requests db @
        [\<lparr>tq_id = rt_request_id r, tq_sender = rt_sender r, tq_target = rt_target r, tq_state = ReqOpen,
          tq_created_at = rt_created_at r, tq_deadline_at = rt_deadline_at r, tq_escalation_level = 0,
          tq_cancel_reason = None, tq_completed_at = None, tq_reply_summary = None\<rparr>]\<rparr>))"

type_synonym guidance_admission = "int \<times> string \<times> string \<times> string \<times> string \<times> string option"

definition insert_guidance :: "guidance_admission \<Rightarrow> Db \<Rightarrow> Db outcome" where
  "insert_guidance g db =
     (case g of (at, actor, tgt, act, path, message_id) \<Rightarrow>
        if \<not> (act = ''steer'' \<or> act = ''interrupt'') \<or>
           \<not> (path = ''send_idempotent'' \<or> path = ''send'' \<or> path = ''control'' \<or> path = ''cancel'')
        then Inl Sqlite
        else Inr (db\<lparr>db_guidance :=
          record_guidance_event at actor tgt act path message_id ''admitted'' (db_guidance db)\<rparr>))"

section \<open>Creating a delivery\<close>

definition held_count :: "string \<Rightarrow> Db \<Rightarrow> nat" where
  "held_count agent db =
     sql_matches (\<lambda>d. dr_recipient_agent d = agent \<and> dr_phase d = DHeld) (db_deliveries db)"

definition resumed_gate :: "DeliveryExecutionLink option \<Rightarrow> BridgetMessage \<Rightarrow> Db \<Rightarrow> bool" where
  "resumed_gate link msg db =
     (case link of
        None \<Rightarrow> False
      | Some l \<Rightarrow>
          sql_exists (\<lambda>d. dr_recipient_agent d = msg_to msg \<and> dr_phase d = DHeld) (db_deliveries db) \<and>
          sql_exists (\<lambda>i. ir_resume_execution_id i = Some (dl_execution_id l) \<and>
                          ir_target_agent i = msg_to msg) (db_interruptions db))"

definition delivery_args_ok ::
  "IdempotencyKey \<Rightarrow> SendDelivery \<Rightarrow> DeliveryExecutionLink option \<Rightarrow> string option \<Rightarrow> bool"
where
  "delivery_args_ok key delivery link held_for_agent \<longleftrightarrow>
     operation_kind key = OpSend \<and> sd_delivery_id delivery \<noteq> [] \<and>
     sd_message_bytes delivery \<noteq> [] \<and> length (sd_message_bytes delivery) \<le> MAX_CANONICAL_BYTES \<and>
     (case link of
        Some l \<Rightarrow> dl_delivery_id l = sd_delivery_id delivery \<and> dl_submission_id l \<noteq> [] \<and>
                  dl_execution_id l \<noteq> []
      | None \<Rightarrow> True) \<and>
     held_for_agent \<noteq> Some [] \<and> \<not> (held_for_agent \<noteq> None \<and> link \<noteq> None)"

text \<open>The row that is written; its rank is given by the table.\<close>

definition begin_row ::
  "IdempotencyKey \<Rightarrow> SendDelivery \<Rightarrow> string option \<Rightarrow> BridgetMessage \<Rightarrow> bool \<Rightarrow> DeliveryRow"
where
  "begin_row key delivery held_for_agent msg gate =
     \<lparr>dr_queue_rank = 0, dr_delivery_id = sd_delivery_id delivery, dr_key = key,
      dr_recipient_instance_id = sd_recipient_instance_id delivery,
      dr_delivery_generation = sd_delivery_generation delivery,
      dr_phase = (if held_for_agent \<noteq> None then DHeld else DDispatching),
      dr_expires_at = sd_expires_at delivery,
      dr_message_bytes = Some (sd_message_bytes delivery),
      dr_recipient_agent = (case held_for_agent of Some a \<Rightarrow> a | None \<Rightarrow> msg_to msg),
      dr_turn_gate = gate, dr_acked_at = None\<rparr>"

definition begin_send_delivery_with_guidance ::
  "Codec \<Rightarrow> int \<Rightarrow> IdempotencyKey \<Rightarrow> SendDelivery \<Rightarrow> ReplyTracking option \<Rightarrow>
   DeliveryExecutionLink option \<Rightarrow> guidance_admission option \<Rightarrow> nat option \<Rightarrow> string option \<Rightarrow>
   Db \<Rightarrow> (unit \<times> Db) outcome"
where
  "begin_send_delivery_with_guidance codec ts key delivery tracking link guidance held_capacity
     held_for_agent db =
     (if \<not> delivery_args_ok key delivery link held_for_agent then Inl InvalidDelivery
      else case decode codec (sd_message_bytes delivery) of
        None \<Rightarrow> Inl (CorruptRecord ''enveloppe de remise illisible'')
      | Some msg \<Rightarrow>
          if (case (held_for_agent, held_capacity) of
                (Some agent, Some capacity) \<Rightarrow> capacity \<le> held_count agent db | _ \<Rightarrow> False)
          then Inl HeldQueueFull
          else case start_record key db of
            (transitioned, db1) \<Rightarrow>
              if transitioned \<noteq> 1 then Inl DispatchUnavailable
              else
                q_bind (insert_delivery
                  (begin_row key delivery held_for_agent msg (resumed_gate link msg db1)) db1) (\<lambda>db2.
                q_bind (case link of Some l \<Rightarrow> insert_link l db2 | None \<Rightarrow> Inr db2) (\<lambda>db3.
                q_bind (case tracking of
                          Some r \<Rightarrow> insert_request r
                            (record_message_in_transaction ts msg (msg_from msg @ ''|'' @ msg_to msg) db3)
                        | None \<Rightarrow> Inr
                            (record_message_in_transaction ts msg (msg_from msg @ ''|'' @ msg_to msg) db3))
                (\<lambda>db4.
                q_bind (case guidance of Some g \<Rightarrow> insert_guidance g db4 | None \<Rightarrow> Inr db4) (\<lambda>db5.
                Inr ((), db5))))))"

definition begin_send_delivery ::
  "Codec \<Rightarrow> int \<Rightarrow> IdempotencyKey \<Rightarrow> SendDelivery \<Rightarrow> Db \<Rightarrow> (unit \<times> Db) outcome"
where
  "begin_send_delivery codec ts key delivery db =
     begin_send_delivery_with_guidance codec ts key delivery None None None None None db"

definition begin_send_delivery_with_reply ::
  "Codec \<Rightarrow> int \<Rightarrow> IdempotencyKey \<Rightarrow> SendDelivery \<Rightarrow> ReplyTracking \<Rightarrow> Db \<Rightarrow> (unit \<times> Db) outcome"
where
  "begin_send_delivery_with_reply codec ts key delivery tracking db =
     begin_send_delivery_with_guidance codec ts key delivery (Some tracking) None None None None db"

definition begin_send_delivery_with_execution ::
  "Codec \<Rightarrow> int \<Rightarrow> IdempotencyKey \<Rightarrow> SendDelivery \<Rightarrow> ReplyTracking option \<Rightarrow> DeliveryExecutionLink \<Rightarrow>
   Db \<Rightarrow> (unit \<times> Db) outcome"
where
  "begin_send_delivery_with_execution codec ts key delivery tracking link db =
     begin_send_delivery_with_guidance codec ts key delivery tracking (Some link) None None None db"

section \<open>Links\<close>

definition delivery_execution_link :: "string \<Rightarrow> Db \<Rightarrow> DeliveryExecutionLink option" where
  "delivery_execution_link delivery_id db = sql_row (\<lambda>l. dl_delivery_id l = delivery_id) (db_links db)"

definition link_send_delivery :: "DeliveryExecutionLink \<Rightarrow> Db \<Rightarrow> (unit \<times> Db) outcome" where
  "link_send_delivery link db =
     (if dl_delivery_id link = [] \<or> dl_submission_id link = [] \<or> dl_execution_id link = []
      then Inl InvalidDelivery
      else
        q_bind (if sql_exists (\<lambda>l. dl_delivery_id l = dl_delivery_id link) (db_links db) then Inr db
                else insert_link link db) (\<lambda>db'.
        case delivery_execution_link (dl_delivery_id link) db' of
          Some existing \<Rightarrow> if existing = link then Inr ((), db') else Inl InvalidDelivery
        | None \<Rightarrow> Inl (CorruptRecord ''lien causal de remise absent'')))"

section \<open>Reassignment\<close>

definition movable :: "Codec \<Rightarrow> DeliveryRow \<Rightarrow> bool" where
  "movable codec d \<longleftrightarrow>
     (case dr_message_bytes d of None \<Rightarrow> True | Some bytes \<Rightarrow> json_thread_notice_absent codec bytes)"

definition reassign_dispatching_deliveries ::
  "Codec \<Rightarrow> string \<Rightarrow> string \<Rightarrow> int \<Rightarrow> Db \<Rightarrow> nat \<times> Db"
where
  "reassign_dispatching_deliveries codec from_instance_id to_instance_id now db =
     (if from_instance_id = [] \<or> to_instance_id = [] \<or> from_instance_id = to_instance_id then (0, db)
      else
        let p = (\<lambda>d. dr_recipient_instance_id d = from_instance_id \<and>
                     (dr_phase d = DDispatching \<or> dr_phase d = DHeld) \<and> now < dr_expires_at d \<and>
                     movable codec d)
        in (sql_matches p (db_deliveries db),
            db\<lparr>db_deliveries := sql_update p (\<lambda>d. d\<lparr>dr_recipient_instance_id := to_instance_id\<rparr>)
                                  (db_deliveries db)\<rparr>))"

definition wake_scopes :: "string list" where
  "wake_scopes = [''bridget_internal_cli_wake158B_v1'', ''bridget_internal_scheduled_wake158B_v1'', ''bridget_internal_missed_summary158B_v1'']"

definition adopt_held_for_agent ::
  "Codec \<Rightarrow> string \<Rightarrow> string \<Rightarrow> bool \<Rightarrow> int \<Rightarrow> Db \<Rightarrow> (nat \<times> Db) outcome"
where
  "adopt_held_for_agent codec agent_id instance_id recover_dispatching ts db =
     (if agent_id = [] \<or> instance_id = [] then Inl InvalidDelivery
      else
        let p = (\<lambda>d. dr_recipient_agent d = agent_id \<and>
                  (dr_phase d = DHeld \<or>
                   recover_dispatching \<and> dr_phase d = DDispatching \<and>
                   dr_recipient_instance_id d \<noteq> instance_id \<and> ts < dr_expires_at d \<and>
                   issuer_scope_of (dr_key d) \<notin> set wake_scopes \<and> movable codec d))
        in Inr (sql_matches p (db_deliveries db),
                db\<lparr>db_deliveries := sql_update p
                     (\<lambda>d. d\<lparr>dr_recipient_instance_id := instance_id,
                            dr_turn_gate := (if dr_phase d = DDispatching then True else dr_turn_gate d)\<rparr>)
                     (db_deliveries db)\<rparr>))"

section \<open>Reading deliveries\<close>

definition stored_send_delivery :: "IdempotencyKey \<Rightarrow> Db \<Rightarrow> DeliveryRow option" where
  "stored_send_delivery key db = sql_row (\<lambda>d. dr_key d = send_key key) (db_deliveries db)"

definition send_delivery :: "IdempotencyKey \<Rightarrow> Db \<Rightarrow> SendDelivery option" where
  "send_delivery key db =
     (case stored_send_delivery key db of
        None \<Rightarrow> None
      | Some d \<Rightarrow> if dr_phase d \<noteq> DDispatching then None else into_delivery d)"

definition send_delivery_phase :: "IdempotencyKey \<Rightarrow> Db \<Rightarrow> Phase option" where
  "send_delivery_phase key db = map_option dr_phase (stored_send_delivery key db)"

definition orphaned_delivery_id :: "IdempotencyKey \<Rightarrow> Db \<Rightarrow> string option" where
  "orphaned_delivery_id key db =
     map_option dr_delivery_id
       (sql_row (\<lambda>d. dr_key d = send_key key \<and> dr_phase d = DOrphaned) (db_deliveries db))"

definition correlated_project_reason :: "Codec \<Rightarrow> string \<Rightarrow> string \<Rightarrow> string \<Rightarrow> Db \<Rightarrow> string option" where
  "correlated_project_reason codec request_id sender tgt db =
     (case filter (\<lambda>d. operation_kind (dr_key d) = OpSend \<and> idempotency_key (dr_key d) = request_id \<and>
                       (dr_phase d = DDispatching \<or> dr_phase d = DAcked)) (db_deliveries db) of
        [d] \<Rightarrow>
          (case Option.bind (dr_message_bytes d) (decode codec) of
             Some m \<Rightarrow>
               if reply m \<and> msg_from m = sender \<and> msg_to m = tgt then cross_project_reason m else None
           | None \<Rightarrow> None)
      | _ \<Rightarrow> None)"

definition queued_deliveries_for_recipient ::
  "string \<Rightarrow> int \<Rightarrow> nat \<Rightarrow> bool \<Rightarrow> Db \<Rightarrow> (SendDelivery \<times> int \<times> bool) list outcome"
where
  "queued_deliveries_for_recipient recipient_instance_id now limit include_held db =
     (let rows = take (min limit 200) (sort_key dr_queue_rank
            (filter (\<lambda>d. load_record (dr_key d) db \<noteq> None \<and>
                         dr_recipient_instance_id d = recipient_instance_id \<and>
                         (dr_phase d = DDispatching \<or> include_held \<and> dr_phase d = DHeld) \<and>
                         now < dr_expires_at d) (db_deliveries db)))
      in if list_ex (\<lambda>d. dr_message_bytes d = None) rows then Inl Sqlite
         else Inr (map (\<lambda>d. (the (into_delivery d), rr_issued_at (the (load_record (dr_key d) db)),
                             dr_phase d = DHeld)) rows))"

definition dispatching_deliveries_for_instance ::
  "string \<Rightarrow> int \<Rightarrow> Db \<Rightarrow> (SendDelivery list \<times> Db) outcome"
where
  "dispatching_deliveries_for_instance recipient_instance_id now db =
     (let db1 = db\<lparr>db_deliveries := sql_update
            (\<lambda>d. dr_recipient_instance_id d = recipient_instance_id \<and> dr_phase d = DDispatching \<and>
                 dr_message_bytes d = None)
            (\<lambda>d. d\<lparr>dr_phase := DIndeterminate, dr_turn_gate := False\<rparr>) (db_deliveries db)\<rparr>;
          stored = sort_key dr_queue_rank
            (filter (\<lambda>d. dr_recipient_instance_id d = recipient_instance_id \<and>
                         dr_phase d = DDispatching \<and> now < dr_expires_at d) (db_deliveries db1))
      in if list_ex (\<lambda>d. dr_message_bytes d = None) stored
         then Inl (CorruptRecord (''remise dispatching sans enveloppe apr'' @ [CHR 0xC3, CHR 0xA8] @ ''s reclassement''))
         else Inr (map (\<lambda>d. the (into_delivery d)) stored, db1))"

definition dispatching_delivery_for_execution_any_instance ::
  "string \<Rightarrow> int \<Rightarrow> Db \<Rightarrow> SendDelivery option outcome"
where
  "dispatching_delivery_for_execution_any_instance execution_id now db =
     (if trim execution_id = [] then Inr None
      else
        let rows = take 2 (sort_key dr_delivery_id
              (filter (\<lambda>d. sql_exists (\<lambda>l. dl_delivery_id l = dr_delivery_id d \<and>
                                            dl_execution_id l = execution_id) (db_links db) \<and>
                           dr_phase d = DDispatching \<and> now < dr_expires_at d) (db_deliveries db)))
        in if list_ex (\<lambda>d. dr_message_bytes d = None) rows then Inl Sqlite
           else case rows of
                  [] \<Rightarrow> Inr None
                | [d] \<Rightarrow> Inr (into_delivery d)
                | _ \<Rightarrow> Inl (CorruptRecord (''plusieurs remises actives pour une ex'' @ [CHR 0xC3, CHR 0xA9] @ ''cution'')))"

definition dispatching_delivery_for_execution ::
  "string \<Rightarrow> string \<Rightarrow> int \<Rightarrow> Db \<Rightarrow> SendDelivery option outcome"
where
  "dispatching_delivery_for_execution execution_id recipient_instance_id now db =
     (if trim execution_id = [] \<or> trim recipient_instance_id = [] then Inr None
      else
        case sql_row (\<lambda>d. sql_exists (\<lambda>l. dl_delivery_id l = dr_delivery_id d \<and>
                                          dl_execution_id l = execution_id) (db_links db) \<and>
                         dr_recipient_instance_id d = recipient_instance_id \<and>
                         dr_phase d = DDispatching \<and> now < dr_expires_at d) (db_deliveries db) of
          None \<Rightarrow> Inr None
        | Some d \<Rightarrow> if dr_message_bytes d = None then Inl Sqlite else Inr (into_delivery d))"

section \<open>The end of a delivery\<close>

definition mark_delivery_indeterminate ::
  "string \<Rightarrow> string \<Rightarrow> nat \<Rightarrow> Db \<Rightarrow> (unit \<times> Db) outcome"
where
  "mark_delivery_indeterminate delivery_id recipient_instance_id gen db =
     (let p = (\<lambda>d. dr_delivery_id d = delivery_id \<and> dr_recipient_instance_id d = recipient_instance_id \<and>
                   dr_delivery_generation d = gen \<and> dr_phase d = DDispatching)
      in if i64_max < int gen then Inl Sqlite
         else if sql_matches p (db_deliveries db) = 1
         then Inr ((), db\<lparr>db_deliveries := sql_update p
                (\<lambda>d. d\<lparr>dr_phase := DIndeterminate, dr_turn_gate := False\<rparr>) (db_deliveries db)\<rparr>)
         else Inl InvalidDelivery)"

definition settle_expired_dispatching :: "int \<Rightarrow> Db \<Rightarrow> nat \<times> Db" where
  "settle_expired_dispatching now db =
     (let p = (\<lambda>d. dr_phase d = DDispatching \<and> dr_expires_at d \<le> now)
      in (sql_matches p (db_deliveries db),
          db\<lparr>db_deliveries := sql_update p
             (\<lambda>d. d\<lparr>dr_phase := DIndeterminate, dr_turn_gate := False\<rparr>) (db_deliveries db)\<rparr>))"

definition insert_notice :: "string \<Rightarrow> string \<Rightarrow> string \<Rightarrow> int \<Rightarrow> Db \<Rightarrow> Db" where
  "insert_notice delivery_id sender notice_body created_at db =
     (if sql_exists (\<lambda>n. nt_delivery_id n = delivery_id) (db_notices db) then db
      else db\<lparr>db_notices := db_notices db @
        [\<lparr>nt_delivery_id = delivery_id, nt_sender = sender, nt_body = notice_body,
          nt_created_at = created_at, nt_notified_at = None\<rparr>]\<rparr>)"

definition orphan_body :: "string \<Rightarrow> string \<Rightarrow> string \<Rightarrow> string \<Rightarrow> string" where
  "orphan_body message_id tgt delivery_id reason =
     ''ORPHELIN: le message '' @ message_id @ '' destin'' @ [CHR 0xC3, CHR 0xA9] @ '' '' @
     [CHR 0xC3, CHR 0xA0] @ '' '' @ tgt @ '' n'' @ [CHR 0x27] @ ''a pas '' @ [CHR 0xC3, CHR 0xA9] @
     ''t'' @ [CHR 0xC3, CHR 0xA9] @ '' livr'' @ [CHR 0xC3, CHR 0xA9] @ '' '' @
     [CHR 0xE2, CHR 0x80, CHR 0x94] @ '' pr'' @ [CHR 0xC3, CHR 0xA9] @ ''sence purg'' @
     [CHR 0xC3, CHR 0xA9] @ ''e (delivery '' @ delivery_id @ ''). '' @ reason @ [CHR 0x0A] @
     ''Le rejeu '' @ [CHR 0xC3, CHR 0xA0] @ '' l'' @ [CHR 0x27] @ ''identique ne sert '' @
     [CHR 0xC3, CHR 0xA0] @ '' rien '' @ [CHR 0xE2, CHR 0x80, CHR 0x94] @ '' cette cl'' @
     [CHR 0xC3, CHR 0xA9] @
     '' est close. Change de destinataire, ou attends son retour avec une cl'' @
     [CHR 0xC3, CHR 0xA9] @ '' neuve.''"

definition orphan_one ::
  "Codec \<Rightarrow> string \<Rightarrow> int \<Rightarrow> DeliveryRow \<Rightarrow> Db \<Rightarrow> (OrphanedDeliveryNotice \<times> Db) outcome"
where
  "orphan_one codec reason ts d db =
     (let (message_id, sender, tgt) =
            (case decode codec (case dr_message_bytes d of Some b \<Rightarrow> b | None \<Rightarrow> []) of
               Some msg \<Rightarrow> (msg_id msg, msg_from msg, msg_to msg)
             | None \<Rightarrow> (dr_delivery_id d, ''inconnu'', ''inconnu''));
          p = (\<lambda>x. dr_delivery_id x = dr_delivery_id d \<and> (dr_phase x = DDispatching \<or> dr_phase x = DHeld));
          delivery = sql_matches p (db_deliveries db);
          db1 = db\<lparr>db_deliveries := sql_update p
                  (\<lambda>x. x\<lparr>dr_phase := DOrphaned, dr_turn_gate := False\<rparr>) (db_deliveries db)\<rparr>;
          (record, db2) = settle_record (dr_key d) ''orphaned'' None (Some reason) db1
      in if delivery \<noteq> 1 \<or> record \<noteq> 1 then Inl DispatchUnavailable
         else Inr (\<lparr>on_delivery_id = dr_delivery_id d, on_message_id = message_id, on_sender = sender,
                    on_target = tgt, on_reason = reason\<rparr>,
                   insert_notice (dr_delivery_id d) sender
                     (orphan_body message_id tgt (dr_delivery_id d) reason) ts db2))"

fun orphan_loop ::
  "Codec \<Rightarrow> string \<Rightarrow> int \<Rightarrow> DeliveryRow list \<Rightarrow> Db \<Rightarrow> (OrphanedDeliveryNotice list \<times> Db) outcome"
where
  "orphan_loop codec reason ts [] db = Inr ([], db)"
| "orphan_loop codec reason ts (d # ds) db =
     q_bind (orphan_one codec reason ts d db) (\<lambda>(notice, db1).
     q_bind (orphan_loop codec reason ts ds db1) (\<lambda>(notices, db2). Inr (notice # notices, db2)))"

definition orphan_dispatching_for_instance ::
  "Codec \<Rightarrow> string \<Rightarrow> string \<Rightarrow> int \<Rightarrow> Db \<Rightarrow> (OrphanedDeliveryNotice list \<times> Db) outcome"
where
  "orphan_dispatching_for_instance codec recipient_instance_id reason ts db =
     orphan_loop codec reason ts
       (filter (\<lambda>d. dr_recipient_instance_id d = recipient_instance_id \<and>
                    (dr_phase d = DDispatching \<or> dr_phase d = DHeld)) (db_deliveries db)) db"

definition pending_orphan_emitter_notices :: "Db \<Rightarrow> (string \<times> string \<times> string) list" where
  "pending_orphan_emitter_notices db =
     map (\<lambda>n. (nt_delivery_id n, nt_sender n, nt_body n))
       (sort_key (\<lambda>n. (nt_created_at n, nt_delivery_id n))
         (filter (\<lambda>n. nt_notified_at n = None) (db_notices db)))"

definition mark_orphan_emitter_notified :: "string \<Rightarrow> int \<Rightarrow> Db \<Rightarrow> Db" where
  "mark_orphan_emitter_notified delivery_id now db =
     db\<lparr>db_notices := sql_update (\<lambda>n. nt_delivery_id n = delivery_id \<and> nt_notified_at n = None)
          (\<lambda>n. n\<lparr>nt_notified_at := Some now\<rparr>) (db_notices db)\<rparr>"

text \<open>The start of the answer's body, cut at a character; \<open>serde_json\<close> writes the object.\<close>

definition is_char_boundary :: "string \<Rightarrow> nat \<Rightarrow> bool" where
  "is_char_boundary s i \<longleftrightarrow> i = 0 \<or> i = length s \<or> i < length s \<and> \<not> is_continuation (s ! i)"

fun floor_loop :: "string \<Rightarrow> nat \<Rightarrow> nat" where
  "floor_loop s 0 = 0"
| "floor_loop s (Suc i) = (if is_char_boundary s (Suc i) then Suc i else floor_loop s i)"

definition floor_char_boundary :: "string \<Rightarrow> nat \<Rightarrow> nat" where
  "floor_char_boundary s index = floor_loop s (min index (length s))"

definition request_reply_summary :: "Codec \<Rightarrow> BridgetMessage \<Rightarrow> string" where
  "request_reply_summary codec msg =
     (let cut = floor_char_boundary (body msg) 1024
      in summary_json codec (msg_id msg) (msg_from msg) (take cut (body msg)) (cut < length (body msg)))"

definition mark_answered_in_transaction ::
  "int \<Rightarrow> string \<Rightarrow> string \<Rightarrow> string \<Rightarrow> string option \<Rightarrow> Db \<Rightarrow> bool \<times> Db"
where
  "mark_answered_in_transaction ts rid responder recipient summary db =
     (let p = (\<lambda>q. tq_id q = rid \<and> tq_sender q = recipient \<and> tq_target q = responder \<and> tq_state q = ReqOpen)
      in (sql_matches p (db_requests db) = 1,
          db\<lparr>db_requests := sql_update p
             (\<lambda>q. q\<lparr>tq_state := ReqAnswered, tq_completed_at := Some ts, tq_reply_summary := summary\<rparr>)
             (db_requests db)\<rparr>))"

text \<open>Both updates of an acknowledgement, with the rows they changed.\<close>

definition ack_tables :: "DeliveryRow \<Rightarrow> int \<Rightarrow> Db \<Rightarrow> nat \<times> nat \<times> Db" where
  "ack_tables d now db =
     (let p = (\<lambda>x. dr_delivery_id x = dr_delivery_id d \<and> dr_phase x = DDispatching);
          db1 = db\<lparr>db_deliveries := sql_update p
                  (\<lambda>x. x\<lparr>dr_phase := DAcked,
                         dr_acked_at := (case dr_acked_at x of Some a \<Rightarrow> Some a | None \<Rightarrow> Some now)\<rparr>)
                  (db_deliveries db)\<rparr>
      in (sql_matches p (db_deliveries db), settle_record (dr_key d) ''accepted'' None None db1))"

text \<open>The request that the delivered message answers, if it was open.\<close>

definition answer_request :: "Codec \<Rightarrow> int \<Rightarrow> DeliveryRow \<Rightarrow> Db \<Rightarrow> string option \<times> Db" where
  "answer_request codec ts d db =
     (case Option.bind (dr_message_bytes d) (decode codec) of
        None \<Rightarrow> (None, db)
      | Some msg \<Rightarrow>
          (case in_reply_to msg of
             None \<Rightarrow> (None, db)
           | Some rid \<Rightarrow>
               (case mark_answered_in_transaction ts rid (msg_from msg) (msg_to msg)
                       (Some (request_reply_summary codec msg)) db of
                  (changed, db') \<Rightarrow> (if changed then Some rid else None, db'))))"

definition acknowledge_send_delivery_at ::
  "Codec \<Rightarrow> int \<Rightarrow> string \<Rightarrow> string \<Rightarrow> nat \<Rightarrow> int \<Rightarrow> Db \<Rightarrow> (string option \<times> Db) outcome"
where
  "acknowledge_send_delivery_at codec ts delivery_id recipient_instance_id gen now db =
     (case sql_row (\<lambda>d. dr_delivery_id d = delivery_id) (db_deliveries db) of
        None \<Rightarrow> Inl InvalidDelivery
      | Some d \<Rightarrow>
          if dr_recipient_instance_id d \<noteq> recipient_instance_id \<or> dr_delivery_generation d \<noteq> gen
          then Inl InvalidDelivery
          else if dr_phase d = DAcked then Inr (None, db)
          else if dr_phase d \<noteq> DDispatching then Inl InvalidDelivery
          else case ack_tables d now db of
                 (delivery, record, db2) \<Rightarrow>
                   if delivery \<noteq> 1 \<or> record \<noteq> 1 then Inl DispatchUnavailable
                   else Inr (answer_request codec ts d db2))"

definition acknowledge_send_delivery ::
  "Codec \<Rightarrow> int \<Rightarrow> string \<Rightarrow> string \<Rightarrow> nat \<Rightarrow> Db \<Rightarrow> (string option \<times> Db) outcome"
where
  "acknowledge_send_delivery codec ts delivery_id recipient_instance_id gen db =
     acknowledge_send_delivery_at codec ts delivery_id recipient_instance_id gen ts db"

end
