(* ===== verification/Held_Queue.thy ===== *)
theory Held_Queue
  imports Send_Delivery
begin

text \<open>
  The queue of held messages of \<open>idempotency/send_delivery.rs\<close>: releasing the next message
  when the recipient's turn is over, settling a message that has lost its purpose, and the
  three edits of a queue (cancel, reorder, promote), each of them applied once per request.

  \<open>json_id\<close> of the codec is \<open>json_extract(.., '$.id')\<close>: a held envelope has been decoded when it
  was written, so the error of SQLite on malformed JSON does not arise. The random identifier
  of a lifecycle event is left out of its row.
\<close>

section \<open>Settling a held message\<close>

definition request_open :: "BridgetMessage \<Rightarrow> int \<Rightarrow> Db \<Rightarrow> bool" where
  "request_open msg now db =
     sql_exists (\<lambda>q. tq_id q = msg_id msg \<and> tq_sender q = msg_from msg \<and> tq_target q = msg_to msg \<and>
                     tq_state q = ReqOpen \<and> now < tq_deadline_at q) (db_requests db)"

definition unique_held_public_id :: "Codec \<Rightarrow> string \<Rightarrow> string \<Rightarrow> Db \<Rightarrow> string option" where
  "unique_held_public_id codec recipient_agent message_id db =
     (case take 2 (sort_key dr_queue_rank
             (filter (\<lambda>d. dr_recipient_agent d = recipient_agent \<and> dr_phase d = DHeld \<and>
                          Option.bind (dr_message_bytes d) (json_id codec) = Some message_id)
               (db_deliveries db))) of
        [d] \<Rightarrow> Some (dr_delivery_id d)
      | _ \<Rightarrow> None)"

definition record_lifecycle_event_in_transaction ::
  "string \<Rightarrow> string \<Rightarrow> GuichetLifecycleState \<Rightarrow> int \<Rightarrow> string option \<Rightarrow> string option \<Rightarrow> Db \<Rightarrow> Db"
where
  "record_lifecycle_event_in_transaction scope rid st observed_at reply_to response db =
     (if sql_exists (\<lambda>e. lc_issuer_scope e = scope \<and> lc_request_id e = rid) (db_lifecycle db) then db
      else db\<lparr>db_lifecycle := db_lifecycle db @
        [\<lparr>lc_issuer_scope = scope, lc_request_id = rid, lc_state = st, lc_observed_at = observed_at,
          lc_in_reply_to = reply_to, lc_response_message_id = response\<rparr>]\<rparr>)"

definition record_lifecycle_for_linked_request_in_transaction ::
  "string \<Rightarrow> GuichetLifecycleState \<Rightarrow> int \<Rightarrow> Db \<Rightarrow> Db"
where
  "record_lifecycle_for_linked_request_in_transaction linked_request_id st observed_at db =
     fold (\<lambda>g. record_lifecycle_event_in_transaction (gr_issuer_scope g) (gr_request_id g) st
                 observed_at (Some linked_request_id) None)
       (sort_key gr_deposited_sequence
         (filter (\<lambda>g. gr_linked_request_id g = Some linked_request_id) (db_guichet db))) db"

definition settlement_reasons :: "string list" where
  "settlement_reasons = [''expired_in_queue'', ''request_closed_in_queue'', ''cancelled_in_queue'']"

definition withdrawn_body :: "BridgetMessage \<Rightarrow> string \<Rightarrow> string" where
  "withdrawn_body msg reason =
     ''RETIR'' @ [CHR 0xC3, CHR 0x89] @ '' DE LA FILE : votre message '' @ msg_id msg @ '' pour '' @
     msg_to msg @ '' a '' @ [CHR 0xC3, CHR 0xA9] @ ''t'' @ [CHR 0xC3, CHR 0xA9] @ '' retir'' @
     [CHR 0xC3, CHR 0xA9] @ '' avant livraison ('' @ reason @ ''). Il ne sera pas livr'' @
     [CHR 0xC3, CHR 0xA9] @ ''.''"

text \<open>The request that a withdrawn message carried is closed with it.\<close>

definition close_request :: "BridgetMessage \<Rightarrow> string \<Rightarrow> int \<Rightarrow> Db \<Rightarrow> Db" where
  "close_request msg reason now db =
     (let ours = (\<lambda>q. tq_id q = msg_id msg \<and> tq_sender q = msg_from msg \<and> tq_target q = msg_to msg \<and>
                      tq_state q = ReqOpen);
          expired = sql_exists (\<lambda>q. ours q \<and> tq_deadline_at q \<le> now) (db_requests db);
          db' = db\<lparr>db_requests := sql_update ours
                  (\<lambda>q. q\<lparr>tq_state := (if expired then ReqTimedOut else ReqCancelled),
                         tq_cancel_reason := (if expired then None else Some reason),
                         tq_completed_at := Some now\<rparr>) (db_requests db)\<rparr>
      in if sql_matches ours (db_requests db) = 1
         then record_lifecycle_for_linked_request_in_transaction (msg_id msg)
                (if expired then GTimedOut else GCancelled) now db'
         else db')"

text \<open>Both updates of a withdrawal, with the rows they changed.\<close>

definition withdraw_tables :: "DeliveryRow \<Rightarrow> BridgetMessage \<Rightarrow> string \<Rightarrow> Db \<Rightarrow> nat \<times> nat \<times> Db" where
  "withdraw_tables d msg reason db =
     (let held = (\<lambda>x. dr_delivery_id x = dr_delivery_id d \<and> dr_phase x = DHeld);
          db1 = db\<lparr>db_deliveries := sql_update held
                  (\<lambda>x. x\<lparr>dr_phase := DCancelled, dr_turn_gate := False\<rparr>) (db_deliveries db)\<rparr>
      in (sql_matches held (db_deliveries db),
          settle_record (dr_key d) ''rejected'' (Some reason) (Some (withdrawn_body msg reason)) db1))"

definition settle_held_in_transaction ::
  "Codec \<Rightarrow> string \<Rightarrow> string \<Rightarrow> int \<Rightarrow> Db \<Rightarrow> (OrphanedDeliveryNotice option \<times> Db) outcome"
where
  "settle_held_in_transaction codec delivery_id reason now db =
     (if reason \<notin> set settlement_reasons then Inl InvalidDelivery
      else case sql_row (\<lambda>d. dr_delivery_id d = delivery_id \<and> dr_phase d = DHeld \<and>
                             load_record (dr_key d) db \<noteq> None) (db_deliveries db) of
        None \<Rightarrow> Inr (None, db)
      | Some d \<Rightarrow>
          (case dr_message_bytes d of
             None \<Rightarrow> Inl Sqlite
           | Some bytes \<Rightarrow>
               if reason = ''expired_in_queue'' \<and> now < dr_expires_at d \<and>
                  now < rr_expires_at (the (load_record (dr_key d) db))
               then Inr (None, db)
               else case decode codec bytes of
                 None \<Rightarrow> Inl (CorruptRecord ''enveloppe retenue illisible'')
               | Some msg \<Rightarrow>
                   if reason = ''request_closed_in_queue'' \<and> (\<not> reply msg \<or> request_open msg now db)
                   then Inr (None, db)
                   else case withdraw_tables d msg reason db of
                     (m, n, db2) \<Rightarrow>
                       if m \<noteq> 1 \<or> n \<noteq> 1 then Inl DispatchUnavailable
                       else Inr (Some \<lparr>on_delivery_id = delivery_id, on_message_id = msg_id msg,
                                       on_sender = msg_from msg, on_target = msg_to msg, on_reason = reason\<rparr>,
                                 insert_notice delivery_id (msg_from msg) (withdrawn_body msg reason) now
                                   (if reply msg then close_request msg reason now db2 else db2))))"

definition settle_held ::
  "Codec \<Rightarrow> string \<Rightarrow> string \<Rightarrow> int \<Rightarrow> Db \<Rightarrow> (OrphanedDeliveryNotice option \<times> Db) outcome"
where
  "settle_held codec delivery_id reason now db = settle_held_in_transaction codec delivery_id reason now db"

section \<open>Releasing the next message\<close>

definition pending_pause :: "string \<Rightarrow> Db \<Rightarrow> bool" where
  "pending_pause agent db =
     sql_exists (\<lambda>i. ir_target_agent i = agent \<and> ir_resumed_at i = None) (db_interruptions db)"

definition gated :: "string \<Rightarrow> Db \<Rightarrow> bool" where
  "gated agent db = sql_exists (\<lambda>d. dr_recipient_agent d = agent \<and> dr_turn_gate d) (db_deliveries db)"

definition expire_gates :: "string \<Rightarrow> int \<Rightarrow> Db \<Rightarrow> Db" where
  "expire_gates agent now db =
     db\<lparr>db_deliveries := sql_update
       (\<lambda>d. dr_recipient_agent d = agent \<and> dr_turn_gate d \<and> dr_phase d = DAcked \<and>
            (case dr_acked_at d of Some at \<Rightarrow> at < saturating_sub now 30 | None \<Rightarrow> False))
       (\<lambda>d. d\<lparr>dr_turn_gate := False\<rparr>) (db_deliveries db)\<rparr>"

definition held_rows :: "string \<Rightarrow> Db \<Rightarrow> DeliveryRow list" where
  "held_rows agent db =
     sort_key dr_queue_rank (filter (\<lambda>d. dr_recipient_agent d = agent \<and> dr_phase d = DHeld) (db_deliveries db))"

definition open_turn :: "(DeliveryRow \<Rightarrow> bool) \<Rightarrow> Db \<Rightarrow> nat \<times> Db" where
  "open_turn p db =
     (sql_matches (\<lambda>d. p d \<and> dr_phase d = DHeld \<and> \<not> dr_turn_gate d) (db_deliveries db),
      db\<lparr>db_deliveries := sql_update (\<lambda>d. p d \<and> dr_phase d = DHeld \<and> \<not> dr_turn_gate d)
           (\<lambda>d. d\<lparr>dr_phase := DDispatching, dr_turn_gate := True\<rparr>) (db_deliveries db)\<rparr>)"

text \<open>Why a held message must not leave the queue any more.\<close>

definition lost_purpose :: "DeliveryRow \<Rightarrow> BridgetMessage \<Rightarrow> int \<Rightarrow> Db \<Rightarrow> string option" where
  "lost_purpose d msg now db =
     (if dr_expires_at d \<le> now \<or> rr_expires_at (the (load_record (dr_key d) db)) \<le> now
      then Some ''expired_in_queue''
      else if reply msg \<and> \<not> request_open msg now db then Some ''request_closed_in_queue'' else None)"

definition release_candidate ::
  "Codec \<Rightarrow> int \<Rightarrow> DeliveryRow \<Rightarrow> Db \<Rightarrow>
   ((SendDelivery option \<times> OrphanedDeliveryNotice option) \<times> Db) outcome"
where
  "release_candidate codec now d db =
     (case dr_message_bytes d of
        None \<Rightarrow> Inl Sqlite
      | Some bytes \<Rightarrow>
          if sql_exists (\<lambda>l. dl_delivery_id l = dr_delivery_id d) (db_links db) then Inl InvalidDelivery
          else case decode codec bytes of
            None \<Rightarrow> Inl (CorruptRecord ''enveloppe retenue illisible'')
          | Some msg \<Rightarrow>
              (case lost_purpose d msg now db of
                 Some why \<Rightarrow>
                   q_bind (settle_held_in_transaction codec (dr_delivery_id d) why now db)
                     (\<lambda>(notice, db2). Inr ((None, notice), db2))
               | None \<Rightarrow>
                   (case open_turn (\<lambda>x. dr_delivery_id x = dr_delivery_id d) db of
                      (n, db2) \<Rightarrow>
                        if n \<noteq> 1 then Inl DispatchUnavailable
                        else Inr ((into_delivery d, None), db2))))"

definition release_next_held ::
  "Codec \<Rightarrow> string \<Rightarrow> int \<Rightarrow> Db \<Rightarrow>
   ((SendDelivery option \<times> OrphanedDeliveryNotice option) \<times> Db) outcome"
where
  "release_next_held codec agent now db =
     (if admit_autonomous_effect HeldRelease (control_read (db_control db)) \<noteq> Admitted
      then Inr ((None, None), db)
      else if pending_pause agent db then Inr ((None, None), db)
      else
        let db1 = expire_gates agent now db in
        if gated agent db1 then Inr ((None, None), db)
        else case filter (\<lambda>d. load_record (dr_key d) db1 \<noteq> None) (held_rows agent db1) of
          [] \<Rightarrow> Inr ((None, None), db1)
        | d # _ \<Rightarrow> release_candidate codec now d db1)"

definition clear_held_turn_gate :: "string \<Rightarrow> Db \<Rightarrow> Db" where
  "clear_held_turn_gate agent db =
     db\<lparr>db_deliveries := sql_update (\<lambda>d. dr_recipient_agent d = agent \<and> dr_turn_gate d)
          (\<lambda>d. d\<lparr>dr_turn_gate := False\<rparr>) (db_deliveries db)\<rparr>"

section \<open>Edits of the queue, once per request\<close>

datatype QueueEditEffect = Unconfirmed

record QueueEditReceipt =
  qr_state :: QueueEditState
  qr_refusal :: "string option"
  qr_effect :: "QueueEditEffect option"

text \<open>
  What an edit answers inside the transaction: the deliveries it resolved, its decision
  (the effect, or a refusal with the notice of a settlement that must survive it), and
  the database it leaves.
\<close>

type_synonym 't edit_decision = "(string \<times> OrphanedDeliveryNotice option) + 't"

type_synonym 't edit_apply =
  "Db \<Rightarrow> ((string option \<times> string option \<times> 't edit_decision) \<times> Db) outcome"

definition edit_effect :: "QueueEditState \<Rightarrow> QueueEditAction \<Rightarrow> QueueEditEffect option" where
  "edit_effect st act = (if st = EditApplied \<and> act = EditPromote then Some Unconfirmed else None)"

definition edit_row ::
  "string \<Rightarrow> string \<Rightarrow> string \<Rightarrow> QueueEditAction \<Rightarrow> string \<Rightarrow> int \<Rightarrow> string option \<Rightarrow> string option \<Rightarrow>
   QueueEditState \<Rightarrow> string option \<Rightarrow> EditRow"
where
  "edit_row scope rid canonical act actor now delivery before st refusal =
     \<lparr>qe_issuer_scope = scope, qe_request_id = rid, qe_canonical_bytes = canonical, qe_action = act,
      qe_actor = actor, qe_delivery_id = delivery, qe_before_delivery_id = before, qe_state = st,
      qe_refusal = refusal, qe_created_at = now, qe_expires_at = now + QUEUE_EDIT_RETENTION_SECS\<rparr>"

definition queue_edit_once ::
  "string \<Rightarrow> string \<Rightarrow> string \<Rightarrow> QueueEditAction \<Rightarrow> string \<Rightarrow> int \<Rightarrow> 't edit_apply \<Rightarrow> Db \<Rightarrow>
   ((QueueEditReceipt \<times> 't option \<times> OrphanedDeliveryNotice option) \<times> Db) outcome"
where
  "queue_edit_once scope rid canonical act actor now app db =
     q_bind (validate_issuer_scope scope) (\<lambda>_.
     q_bind (validate_idempotency_key rid) (\<lambda>_.
     q_bind (validate_canonical_bytes canonical) (\<lambda>_.
     if checked_add now QUEUE_EDIT_RETENTION_SECS = None then Inl InvalidIssuedAt
     else case sql_row (\<lambda>e. qe_issuer_scope e = scope \<and> qe_request_id e = rid) (db_edits db) of
       Some e \<Rightarrow>
         if qe_canonical_bytes e \<noteq> canonical \<or> qe_action e \<noteq> act
         then Inr ((\<lparr>qr_state = EditRefused, qr_refusal = Some ''envelope_mismatch'', qr_effect = None\<rparr>,
                    None, None), db)
         else Inr ((\<lparr>qr_state = qe_state e, qr_refusal = qe_refusal e,
                     qr_effect = edit_effect (qe_state e) act\<rparr>, None, None), db)
     | None \<Rightarrow>
         q_bind (app db) (\<lambda>((delivery, before, decision), db1).
         case decision of
           Inr eff \<Rightarrow>
             Inr ((\<lparr>qr_state = EditApplied, qr_refusal = None, qr_effect = edit_effect EditApplied act\<rparr>,
                   Some eff, None),
                  db1\<lparr>db_edits := db_edits db1 @
                    [edit_row scope rid canonical act actor now delivery before EditApplied None]\<rparr>)
         | Inl (refusal, Some notice) \<Rightarrow>
             if act \<noteq> EditPromote \<or> refusal \<noteq> ''not_held'' \<or> delivery \<noteq> Some (on_delivery_id notice)
             then Inl InvalidDelivery
             else Inr ((\<lparr>qr_state = EditRefused, qr_refusal = Some refusal, qr_effect = None\<rparr>,
                        None, Some notice),
                       db1\<lparr>db_edits := db_edits db1 @
                         [edit_row scope rid canonical act actor now delivery before EditRefused
                           (Some refusal)]\<rparr>)
         | Inl (refusal, None) \<Rightarrow>
             Inr ((\<lparr>qr_state = EditRefused, qr_refusal = Some refusal, qr_effect = None\<rparr>, None, None),
                  db\<lparr>db_edits := db_edits db @
                    [edit_row scope rid canonical act actor now delivery before EditRefused
                      (Some refusal)]\<rparr>)))))"

section \<open>Cancel\<close>

definition cancel_apply :: "Codec \<Rightarrow> string \<Rightarrow> string \<Rightarrow> int \<Rightarrow> OrphanedDeliveryNotice edit_apply" where
  "cancel_apply codec agent message_id now db =
     (case unique_held_public_id codec agent message_id db of
        None \<Rightarrow> Inr ((None, None, Inl (''not_held'', None)), db)
      | Some did \<Rightarrow>
          q_bind (settle_held_in_transaction codec did ''cancelled_in_queue'' now db) (\<lambda>(notice, db1).
          case notice of
            None \<Rightarrow> Inl DispatchUnavailable
          | Some n \<Rightarrow> Inr ((Some did, None, Inr n), db1)))"

definition apply_cancel ::
  "Codec \<Rightarrow> string \<Rightarrow> string \<Rightarrow> string \<Rightarrow> string \<Rightarrow> string \<Rightarrow> string \<Rightarrow> int \<Rightarrow> Db \<Rightarrow>
   ((QueueEditReceipt \<times> OrphanedDeliveryNotice option) \<times> Db) outcome"
where
  "apply_cancel codec scope rid canonical actor agent message_id now db =
     q_bind (queue_edit_once scope rid canonical EditCancel actor now
              (cancel_apply codec agent message_id now) db)
       (\<lambda>((receipt, eff, _), db'). Inr ((receipt, eff), db'))"

section \<open>Reorder\<close>

text \<open>\<open>UPDATE send_deliveries SET queue_rank\<close>; the rank is the primary key.\<close>

definition update_rank :: "(DeliveryRow \<Rightarrow> bool) \<Rightarrow> int \<Rightarrow> Db \<Rightarrow> Db outcome" where
  "update_rank p rank db =
     (if sql_matches p (db_deliveries db) = 0 then Inl DispatchUnavailable
      else if 1 < sql_matches p (db_deliveries db) \<or>
              sql_exists (\<lambda>d. \<not> p d \<and> dr_queue_rank d = rank) (db_deliveries db)
      then Inl Sqlite
      else Inr (db\<lparr>db_deliveries := sql_update p (\<lambda>d. d\<lparr>dr_queue_rank := rank\<rparr>) (db_deliveries db)\<rparr>))"

fun negate_ranks :: "string \<Rightarrow> (string \<times> int) list \<Rightarrow> Db \<Rightarrow> Db outcome" where
  "negate_ranks agent [] db = Inr db"
| "negate_ranks agent ((row_id, rank) # rows) db =
     q_bind (update_rank (\<lambda>d. dr_delivery_id d = row_id \<and> dr_recipient_agent d = agent \<and>
                              dr_phase d = DHeld \<and> dr_queue_rank d = rank) (- rank) db)
       (negate_ranks agent rows)"

fun assign_ranks :: "string \<Rightarrow> (string \<times> int) list \<Rightarrow> Db \<Rightarrow> Db outcome" where
  "assign_ranks agent [] db = Inr db"
| "assign_ranks agent ((row_id, rank) # rows) db =
     q_bind (update_rank (\<lambda>d. dr_delivery_id d = row_id \<and> dr_recipient_agent d = agent \<and>
                              dr_phase d = DHeld \<and> dr_queue_rank d < 0) rank db)
       (assign_ranks agent rows)"

text \<open>\<open>position\<close>, \<open>remove\<close> and \<open>insert\<close> of the Rust vector.\<close>

fun position :: "'a \<Rightarrow> 'a list \<Rightarrow> nat option" where
  "position x [] = None"
| "position x (y # ys) = (if y = x then Some 0 else map_option Suc (position x ys))"

definition vec_remove :: "nat \<Rightarrow> 'a list \<Rightarrow> 'a list" where
  "vec_remove i xs = take i xs @ drop (Suc i) xs"

definition vec_insert :: "nat \<Rightarrow> 'a \<Rightarrow> 'a list \<Rightarrow> 'a list" where
  "vec_insert i x xs = take i xs @ x # drop i xs"

definition reorder_rows ::
  "string \<Rightarrow> string \<Rightarrow> string option \<Rightarrow> (string \<times> int) list \<Rightarrow> Db \<Rightarrow> Db outcome"
where
  "reorder_rows agent did before rows db =
     (if list_ex (\<lambda>(_, rank). rank \<le> 0) rows then Inl (CorruptRecord ''rang retenu non positif'')
      else case position did (map fst rows) of
        None \<Rightarrow> Inl DispatchUnavailable
      | Some source \<Rightarrow>
          if before = Some did then Inr db
          else
            let ordered = vec_remove source (map fst rows) in
            (case (case before of Some b \<Rightarrow> position b ordered | None \<Rightarrow> Some (length ordered)) of
               None \<Rightarrow> Inl DispatchUnavailable
             | Some destination \<Rightarrow>
                 let reordered = vec_insert destination did ordered in
                 if map fst rows = reordered then Inr db
                 else q_bind (negate_ranks agent rows db)
                        (assign_ranks agent (zip reordered (map snd rows)))))"

definition reorder_apply :: "Codec \<Rightarrow> string \<Rightarrow> string \<Rightarrow> string option \<Rightarrow> unit edit_apply" where
  "reorder_apply codec agent message_id before_message_id db =
     (case unique_held_public_id codec agent message_id db of
        None \<Rightarrow> Inr ((None, None, Inl (''not_held'', None)), db)
      | Some did \<Rightarrow>
          (case (case before_message_id of
                   Some before \<Rightarrow> map_option Some (unique_held_public_id codec agent before db)
                 | None \<Rightarrow> Some None) of
             None \<Rightarrow> Inr ((Some did, None, Inl (''not_held'', None)), db)
           | Some before \<Rightarrow>
               q_bind (reorder_rows agent did before
                         (map (\<lambda>d. (dr_delivery_id d, dr_queue_rank d)) (held_rows agent db)) db)
                 (\<lambda>db1. Inr ((Some did, before, Inr ()), db1))))"

definition apply_reorder ::
  "Codec \<Rightarrow> string \<Rightarrow> string \<Rightarrow> string \<Rightarrow> string \<Rightarrow> string \<Rightarrow> string \<Rightarrow> string option \<Rightarrow> int \<Rightarrow> Db \<Rightarrow>
   ((QueueEditReceipt \<times> unit option) \<times> Db) outcome"
where
  "apply_reorder codec scope rid canonical actor agent message_id before_message_id now db =
     q_bind (queue_edit_once scope rid canonical EditReorder actor now
              (reorder_apply codec agent message_id before_message_id) db)
       (\<lambda>((receipt, eff, _), db'). Inr ((receipt, eff), db'))"

section \<open>Promote\<close>

text \<open>The facts of the guard that are read again inside the transaction.\<close>

definition promote_facts :: "GuidanceFacts \<Rightarrow> string \<Rightarrow> DeliveryRow \<Rightarrow> BridgetMessage \<Rightarrow> int \<Rightarrow> Db \<Rightarrow> GuidanceFacts" where
  "promote_facts rights agent d msg now db =
     (let r = the (load_record (dr_key d) db) in
      rights\<lparr>message_editable := (now < dr_expires_at d \<and> now < rr_expires_at r \<and>
               rr_state r = Dispatching \<and>
               \<not> sql_exists (\<lambda>l. dl_delivery_id l = dr_delivery_id d) (db_links db) \<and>
               \<not> gated agent db \<and> (reply msg \<longrightarrow> request_open msg now db)),
             paused := (cf_paused (control_read (db_control db)) \<or> pending_pause agent db),
             gf_now := now\<rparr>)"

definition promote_candidate ::
  "Codec \<Rightarrow> (GuidanceRefusal \<Rightarrow> string) \<Rightarrow> GuidanceFacts \<Rightarrow> string \<Rightarrow> int \<Rightarrow> DeliveryRow \<Rightarrow> SendDelivery edit_apply"
where
  "promote_candidate codec code rights agent now d db =
     (case dr_message_bytes d of
        None \<Rightarrow> Inl Sqlite
      | Some bytes \<Rightarrow>
          (case decode codec bytes of
             None \<Rightarrow> Inl (CorruptRecord ''enveloppe retenue illisible'')
           | Some msg \<Rightarrow>
               (case lost_purpose d msg now db of
                  Some why \<Rightarrow>
                    q_bind (settle_held_in_transaction codec (dr_delivery_id d) why now db) (\<lambda>(notice, db1).
                    case notice of
                      None \<Rightarrow> Inl DispatchUnavailable
                    | Some n \<Rightarrow> Inr ((Some (dr_delivery_id d), None, Inl (''not_held'', Some n)), db1))
                | None \<Rightarrow>
                    (case authorize_queue_edit (promote_facts rights agent d msg now db) of
                       Inl refusal \<Rightarrow> Inr ((Some (dr_delivery_id d), None, Inl (code refusal, None)), db)
                     | Inr _ \<Rightarrow>
                         (case open_turn (\<lambda>x. dr_delivery_id x = dr_delivery_id d \<and>
                                              dr_recipient_agent x = agent) db of
                            (n, db1) \<Rightarrow>
                              if n \<noteq> 1 then Inl DispatchUnavailable
                              else Inr ((Some (dr_delivery_id d), None, Inr (the (into_delivery d))), db1))))))"

definition promote_apply ::
  "Codec \<Rightarrow> (GuidanceRefusal \<Rightarrow> string) \<Rightarrow> GuidanceFacts \<Rightarrow> string \<Rightarrow> string \<Rightarrow> int \<Rightarrow> SendDelivery edit_apply"
where
  "promote_apply codec code rights agent message_id now db =
     (case unique_held_public_id codec agent message_id db of
        None \<Rightarrow> Inr ((None, None, Inl (''not_held'', None)), db)
      | Some did \<Rightarrow>
          (case sql_row (\<lambda>d. dr_delivery_id d = did \<and> dr_phase d = DHeld \<and>
                             load_record (dr_key d) db \<noteq> None) (db_deliveries db) of
             None \<Rightarrow> Inl Sqlite
           | Some d \<Rightarrow> promote_candidate codec code rights agent now d db))"

definition apply_promote ::
  "Codec \<Rightarrow> string \<Rightarrow> string \<Rightarrow> string \<Rightarrow> string \<Rightarrow> string \<Rightarrow> string \<Rightarrow> GuidanceFacts \<Rightarrow>
   (GuidanceRefusal \<Rightarrow> string) \<Rightarrow> int \<Rightarrow> Db \<Rightarrow>
   ((QueueEditReceipt \<times> SendDelivery option \<times> OrphanedDeliveryNotice option) \<times> Db) outcome"
where
  "apply_promote codec scope rid canonical actor agent message_id facts code now db =
     (let rights = facts\<lparr>gf_action := QueuePromote\<rparr> in
      case authorize rights of
        Inl refusal \<Rightarrow>
          Inr ((\<lparr>qr_state = EditRefused, qr_refusal = Some (code refusal), qr_effect = None\<rparr>, None, None), db)
      | Inr _ \<Rightarrow>
          queue_edit_once scope rid canonical EditPromote actor now
            (promote_apply codec code rights agent message_id now) db)"

end
