(* ===== verification/Store_Steps.thy ===== *)
theory Store_Steps
  imports Held_Queue
begin

text \<open>
  The table changes that the operations of the store are made of. \<open>core\<close> keeps the four
  tables that decide the fate of a key: records, deliveries, the last queue rank, links.
  \<open>core_step A\<close> is one change of them that keeps the invariant \<open>core_inv\<close>; the permission set
  \<open>A\<close> names the only rows that may be purged, keys that may be finalized without their
  delivery, and deliveries that may be created. The theory \<open>Store_Machine\<close> shows that every
  operation is a sequence of such steps.
\<close>

section \<open>The life of a delivery\<close>

inductive phase_step :: "Phase \<Rightarrow> Phase \<Rightarrow> bool" where
  phase_open: "phase_step DHeld DDispatching"
| phase_withdraw: "phase_step DHeld DCancelled"
| phase_orphan_held: "phase_step DHeld DOrphaned"
| phase_ack: "phase_step DDispatching DAcked"
| phase_lose: "phase_step DDispatching DIndeterminate"
| phase_orphan: "phase_step DDispatching DOrphaned"

fun phase_final :: "Phase \<Rightarrow> bool" where
  "phase_final DHeld = False"
| "phase_final DDispatching = False"
| "phase_final _ = True"

inductive_cases phase_step_fromE: "phase_step s t"

interpretation delivery_machine: absorbing_machine phase_step phase_final
  by unfold_locales (auto elim: phase_step_fromE)

text \<open>What a row may become: its identity, envelope and deadline are frozen.\<close>

definition frozen_part :: "DeliveryRow \<Rightarrow> string \<times> IdempotencyKey \<times> nat \<times> int \<times> string option \<times> string" where
  "frozen_part d = (dr_delivery_id d, dr_key d, dr_delivery_generation d, dr_expires_at d,
     dr_message_bytes d, dr_recipient_agent d)"

definition row_step :: "DeliveryRow \<Rightarrow> DeliveryRow \<Rightarrow> bool" where
  "row_step d d' \<longleftrightarrow>
     frozen_part d' = frozen_part d \<and> phase_step\<^sup>*\<^sup>* (dr_phase d) (dr_phase d') \<and>
     (phase_final (dr_phase d) \<longrightarrow>
        dr_recipient_instance_id d' = dr_recipient_instance_id d \<and> dr_acked_at d' = dr_acked_at d \<and>
        dr_queue_rank d' = dr_queue_rank d)"

lemma row_step_refl [simp]: "row_step d d"
  by (simp add: row_step_def)

lemma row_step_trans: "row_step a b \<Longrightarrow> row_step b c \<Longrightarrow> row_step a c"
  unfolding row_step_def using delivery_machine.terminal_absorbing by fastforce

lemma row_step_final:
  assumes "row_step d d'" and "phase_final (dr_phase d)"
  shows "dr_phase d' = dr_phase d"
  using assms delivery_machine.terminal_absorbing by (auto simp: row_step_def)

lemma row_step_frozen:
  assumes "row_step d d'"
  shows "dr_delivery_id d' = dr_delivery_id d" and "dr_key d' = dr_key d"
    and "dr_delivery_generation d' = dr_delivery_generation d" and "dr_message_bytes d' = dr_message_bytes d"
    and "dr_recipient_agent d' = dr_recipient_agent d" and "dr_expires_at d' = dr_expires_at d"
  using assms by (simp_all add: row_step_def frozen_part_def)

section \<open>Steps\<close>

type_synonym core = "RecordRow table \<times> DeliveryRow table \<times> int \<times> DeliveryExecutionLink table"

definition core_of :: "Db \<Rightarrow> core" where
  "core_of db = (db_records db, db_deliveries db, db_last_rank db, db_links db)"

datatype permission = MayPurge RecordRow | MayFinalize IdempotencyKey | MayInsert DeliveryRow

definition result_ok :: "string \<Rightarrow> string option \<Rightarrow> string option \<Rightarrow> bool" where
  "result_ok kind category reason \<longleftrightarrow>
     kind = ''accepted'' \<or> kind = ''orphaned'' \<or> kind = ''rejected'' \<and> category \<noteq> None \<and> reason \<noteq> None"

text \<open>The public result that the end of a delivery writes.\<close>

fun phase_result :: "Phase \<Rightarrow> string option" where
  "phase_result DAcked = Some ''accepted''"
| "phase_result DOrphaned = Some ''orphaned''"
| "phase_result DCancelled = Some ''rejected''"
| "phase_result _ = None"

definition row_move :: "DeliveryRow \<Rightarrow> DeliveryRow \<Rightarrow> bool" where
  "row_move d d' \<longleftrightarrow>
     row_step d d' \<and> dr_queue_rank d' = dr_queue_rank d \<and>
     (dr_phase d' = dr_phase d \<or> dr_phase d' = DDispatching \<or> dr_phase d' = DIndeterminate)"

definition row_end :: "Phase \<Rightarrow> DeliveryRow \<Rightarrow> DeliveryRow \<Rightarrow> bool" where
  "row_end ph d d' \<longleftrightarrow>
     row_step d d' \<and> dr_queue_rank d' = dr_queue_rank d \<and> dr_phase d' = ph \<and> \<not> phase_final (dr_phase d)"

text \<open>A renumbering: only ranks of held rows change, and the ranks in use are the same.\<close>

definition renumbered :: "DeliveryRow table \<Rightarrow> DeliveryRow table \<Rightarrow> bool" where
  "renumbered D D' \<longleftrightarrow>
     list_all2 (\<lambda>d d'. d' = d \<or> dr_phase d = DHeld \<and> (\<exists>rank. d' = d\<lparr>dr_queue_rank := rank\<rparr>)) D D' \<and>
     set (map dr_queue_rank D') \<subseteq> set (map dr_queue_rank D) \<and>
     distinct (map dr_queue_rank D')"

inductive core_step :: "permission set \<Rightarrow> core \<Rightarrow> core \<Rightarrow> bool" for A :: "permission set" where
  core_reserve:
    "key \<notin> rr_key ` set R \<Longrightarrow>
     core_step A (R, D, n, L) (R @ [new_record key canonical issued expires], D, n, L)"
| core_start:
    "core_step A (R, D, n, L)
       (sql_update (at_key_state key Prepared) (\<lambda>r. r\<lparr>rr_state := Dispatching\<rparr>) R, D, n, L)"
| core_reject:
    "core_step A (R, D, n, L)
       (sql_update (at_key_state key Prepared) (settle_row ''rejected'' (Some category) (Some reason)) R,
        D, n, L)"
| core_finalize:
    "MayFinalize key \<in> A \<Longrightarrow> result_ok kind category reason \<Longrightarrow>
     core_step A (R, D, n, L)
       (sql_update (at_key_state key Dispatching) (settle_row kind category reason) R, D, n, L)"
| core_insert:
    "MayInsert d \<in> A \<Longrightarrow> r \<in> set R \<Longrightarrow> rr_key r = dr_key d \<Longrightarrow> rr_state r = Dispatching \<Longrightarrow>
     dr_key d \<notin> dr_key ` set D \<Longrightarrow> dr_delivery_id d \<notin> dr_delivery_id ` set D \<Longrightarrow>
     operation_kind (dr_key d) = OpSend \<Longrightarrow> \<not> phase_final (dr_phase d) \<Longrightarrow>
     0 < dr_delivery_generation d \<Longrightarrow> dr_message_bytes d \<noteq> None \<Longrightarrow> dr_queue_rank d = n + 1 \<Longrightarrow>
     core_step A (R, D, n, L) (R, D @ [d], n + 1, L)"
| core_move:
    "(\<And>d. d \<in> set D \<Longrightarrow> p d \<Longrightarrow> row_move d (f d)) \<Longrightarrow>
     core_step A (R, D, n, L) (R, sql_update p f D, n, L)"
| core_end:
    "d \<in> set D \<Longrightarrow> p d \<Longrightarrow> (\<And>x. x \<in> set D \<Longrightarrow> p x \<Longrightarrow> dr_delivery_id x = dr_delivery_id d) \<Longrightarrow>
     row_end ph d (f d) \<Longrightarrow> phase_result ph = Some kind \<Longrightarrow> result_ok kind category reason \<Longrightarrow>
     r \<in> set R \<Longrightarrow> rr_key r = dr_key d \<Longrightarrow> rr_state r = Dispatching \<Longrightarrow>
     core_step A (R, D, n, L)
       (sql_update (at_key_state (dr_key d) Dispatching) (settle_row kind category reason) R,
        sql_update p f D, n, L)"
| core_renumber:
    "renumbered D D' \<Longrightarrow> core_step A (R, D, n, L) (R, D', n, L)"
| core_link:
    "dl_delivery_id l \<in> dr_delivery_id ` set D \<Longrightarrow> dl_delivery_id l \<notin> dl_delivery_id ` set L \<Longrightarrow>
     core_step A (R, D, n, L) (R, D, n, L @ [l])"
| core_purge:
    "(\<And>r. r \<in> set R \<Longrightarrow> p r \<Longrightarrow> MayPurge r \<in> A) \<Longrightarrow>
     core_step A (R, D, n, L)
       (sql_delete p R, sql_delete (\<lambda>d. dr_key d \<in> rr_key ` {r \<in> set R. p r}) D, n,
        sql_delete (\<lambda>l. dl_delivery_id l \<in>
          dr_delivery_id ` {d \<in> set D. dr_key d \<in> rr_key ` {r \<in> set R. p r}}) L)"

abbreviation core_steps :: "permission set \<Rightarrow> core \<Rightarrow> core \<Rightarrow> bool" where
  "core_steps A \<equiv> (core_step A)\<^sup>*\<^sup>*"

section \<open>The invariant\<close>

text \<open>
  How a delivery agrees with the record of its key: a record that has a delivery is no
  longer prepared, and an ended delivery has written its result.
\<close>

definition agrees :: "DeliveryRow \<Rightarrow> RecordRow \<Rightarrow> bool" where
  "agrees d r \<longleftrightarrow>
     rr_state r \<noteq> Prepared \<and>
     (phase_result (dr_phase d) \<noteq> None \<longrightarrow>
        rr_state r = Terminal \<and> rr_result_kind r = phase_result (dr_phase d))"

definition core_inv :: "core \<Rightarrow> bool" where
  "core_inv s \<longleftrightarrow>
     (case s of (R, D, n, L) \<Rightarrow>
        distinct (map rr_key R) \<and> (\<forall>r\<in>set R. row_result_ok r) \<and>
        distinct (map dr_delivery_id D) \<and> distinct (map dr_key D) \<and> distinct (map dr_queue_rank D) \<and>
        (\<forall>d\<in>set D. 0 < dr_queue_rank d \<and> dr_queue_rank d \<le> n \<and> 0 < dr_delivery_generation d \<and>
           dr_message_bytes d \<noteq> None \<and> operation_kind (dr_key d) = OpSend \<and>
           (\<exists>r\<in>set R. rr_key r = dr_key d \<and> agrees d r)) \<and>
        distinct (map dl_delivery_id L) \<and> dl_delivery_id ` set L \<subseteq> dr_delivery_id ` set D \<and> 0 \<le> n)"

text \<open>The clauses of the invariant about the records, about a delivery table and about links.\<close>

definition deliveries_inv :: "RecordRow table \<Rightarrow> int \<Rightarrow> DeliveryRow table \<Rightarrow> bool" where
  "deliveries_inv R n D \<longleftrightarrow>
     distinct (map dr_delivery_id D) \<and> distinct (map dr_key D) \<and> distinct (map dr_queue_rank D) \<and>
     (\<forall>d\<in>set D. 0 < dr_queue_rank d \<and> dr_queue_rank d \<le> n \<and> 0 < dr_delivery_generation d \<and>
        dr_message_bytes d \<noteq> None \<and> operation_kind (dr_key d) = OpSend \<and>
        (\<exists>r\<in>set R. rr_key r = dr_key d \<and> agrees d r))"

lemma core_inv_iff:
  "core_inv (R, D, n, L) \<longleftrightarrow>
     distinct (map rr_key R) \<and> (\<forall>r\<in>set R. row_result_ok r) \<and> deliveries_inv R n D \<and>
     distinct (map dl_delivery_id L) \<and> dl_delivery_id ` set L \<subseteq> dr_delivery_id ` set D \<and> 0 \<le> n"
  by (auto simp: core_inv_def deliveries_inv_def)

text \<open>A change of the records that keeps the agreement of every delivery keeps the deliveries.\<close>

lemma deliveries_inv_records:
  assumes "deliveries_inv R n D"
    and "\<And>d r. d \<in> set D \<Longrightarrow> r \<in> set R \<Longrightarrow> rr_key r = dr_key d \<Longrightarrow> agrees d r \<Longrightarrow>
           \<exists>r'\<in>set R'. rr_key r' = dr_key d \<and> agrees d r'"
  shows "deliveries_inv R' n D"
proof -
  have "\<exists>r'\<in>set R'. rr_key r' = dr_key d \<and> agrees d r'" if d: "d \<in> set D" for d
  proof -
    obtain r where "r \<in> set R" "rr_key r = dr_key d" "agrees d r"
      using assms(1) d by (auto simp: deliveries_inv_def)
    then show ?thesis by (rule assms(2) [OF d])
  qed
  with assms(1) show ?thesis by (simp add: deliveries_inv_def)
qed

lemma agrees_start: "agrees d r \<Longrightarrow> rr_state r \<noteq> Prepared"
  by (simp add: agrees_def)

lemma agrees_update:
  assumes "agrees d r" and "\<And>x. rr_key (f x) = rr_key x" and "p r \<Longrightarrow> agrees d (f r)" and "r \<in> set R"
    and "rr_key r = dr_key d"
  shows "\<exists>r'\<in>set (sql_update p f R). rr_key r' = dr_key d \<and> agrees d r'"
  using assms by (intro bexI [of _ "if p r then f r else r"]) (auto simp: set_sql_update)

lemma row_result_ok_update:
  assumes "\<forall>r\<in>set R. row_result_ok r" and "\<And>r. p r \<Longrightarrow> row_result_ok r \<Longrightarrow> row_result_ok (f r)"
  shows "\<forall>r\<in>set (sql_update p f R). row_result_ok r"
  using assms by (auto simp: set_sql_update)

lemma row_result_ok_settle: "result_ok kind category reason \<Longrightarrow> row_result_ok (settle_row kind category reason r)"
  by (auto simp: row_result_ok_def settle_row_def result_ok_def)

lemma settle_row_simps [simp]:
  "rr_key (settle_row k c e r) = rr_key r" "rr_state (settle_row k c e r) = Terminal"
  "rr_result_kind (settle_row k c e r) = Some k" "rr_expires_at (settle_row k c e r) = rr_expires_at r"
  "rr_canonical_bytes (settle_row k c e r) = rr_canonical_bytes r"
  "rr_issued_at (settle_row k c e r) = rr_issued_at r"
  "rr_result_category (settle_row k c e r) = c" "rr_result_reason (settle_row k c e r) = e"
  by (simp_all add: settle_row_def)

lemma inv_records_change:
  assumes "core_inv (R, D, n, L)" and "\<And>x. rr_key (f x) = rr_key x"
    and "\<And>r. p r \<Longrightarrow> row_result_ok r \<Longrightarrow> row_result_ok (f r)"
    and "\<And>d r. d \<in> set D \<Longrightarrow> agrees d r \<Longrightarrow> p r \<Longrightarrow> agrees d (f r)"
  shows "core_inv (sql_update p f R, D, n, L)"
proof -
  have "deliveries_inv (sql_update p f R) n D"
  proof (rule deliveries_inv_records)
    show "deliveries_inv R n D" using assms(1) by (simp add: core_inv_iff)
    fix d r
    assume "d \<in> set D" "r \<in> set R" "rr_key r = dr_key d" "agrees d r"
    with assms(2,4) show "\<exists>r'\<in>set (sql_update p f R). rr_key r' = dr_key d \<and> agrees d r'"
      by (intro agrees_update) auto
  qed
  moreover have "distinct (map rr_key (sql_update p f R))"
    using assms(1,2) by (intro distinct_map_sql_update) (simp_all add: core_inv_iff)
  moreover have "\<forall>r\<in>set (sql_update p f R). row_result_ok r"
    using assms(1,3) by (intro row_result_ok_update) (simp_all add: core_inv_iff)
  ultimately show ?thesis using assms(1) by (simp add: core_inv_iff)
qed

lemma agrees_move:
  assumes "agrees d r" and "row_move d d'"
  shows "agrees d' r"
proof (cases "dr_phase d' = dr_phase d")
  case True
  with assms show ?thesis by (simp add: agrees_def)
next
  case False
  with assms have "phase_result (dr_phase d') = None" by (auto simp: row_move_def)
  with assms(1) show ?thesis by (simp add: agrees_def)
qed

lemma ids_update:
  assumes "\<And>d. d \<in> set D \<Longrightarrow> p d \<Longrightarrow> row_step d (f d)"
  shows "map dr_delivery_id (sql_update p f D) = map dr_delivery_id D"
  using assms row_step_frozen by (simp add: sql_update_def)

lemma id_set_update:
  assumes "\<And>d. d \<in> set D \<Longrightarrow> p d \<Longrightarrow> row_step d (f d)"
  shows "dr_delivery_id ` set (sql_update p f D) = dr_delivery_id ` set D"
  using ids_update [of D p f] assms by (metis set_map)

lemma deliveries_inv_update:
  assumes "deliveries_inv R n D"
    and "\<And>d. d \<in> set D \<Longrightarrow> p d \<Longrightarrow> row_step d (f d) \<and> dr_queue_rank (f d) = dr_queue_rank d"
    and "\<And>d. d \<in> set D \<Longrightarrow> \<exists>r\<in>set R'. rr_key r = dr_key d \<and> agrees (if p d then f d else d) r"
  shows "deliveries_inv R' n (sql_update p f D)"
proof -
  have id_keep: "map dr_delivery_id (sql_update p f D) = map dr_delivery_id D"
    using assms(2) by (intro ids_update) blast
  have key_keep: "map dr_key (sql_update p f D) = map dr_key D"
    using assms(2) row_step_frozen by (simp add: sql_update_def)
  have rank_keep: "map dr_queue_rank (sql_update p f D) = map dr_queue_rank D"
    using assms(2) by (simp add: sql_update_def)
  have "0 < dr_queue_rank d' \<and> dr_queue_rank d' \<le> n \<and> 0 < dr_delivery_generation d' \<and>
      dr_message_bytes d' \<noteq> None \<and> operation_kind (dr_key d') = OpSend \<and>
      (\<exists>r\<in>set R'. rr_key r = dr_key d' \<and> agrees d' r)"
    if d': "d' \<in> set (sql_update p f D)" for d'
  proof -
    obtain d where d: "d \<in> set D" "d' = (if p d then f d else d)" using d' by (rule in_sql_updateE)
    have "row_step d d'" "dr_queue_rank d' = dr_queue_rank d" using assms(2) [OF d(1)] d(2) by auto
    with assms(1,3) d show ?thesis by (auto simp: deliveries_inv_def row_step_frozen)
  qed
  with assms(1) id_keep key_keep rank_keep show ?thesis by (simp add: deliveries_inv_def)
qed

lemma inv_move:
  assumes "core_inv (R, D, n, L)" and "\<And>d. d \<in> set D \<Longrightarrow> p d \<Longrightarrow> row_move d (f d)"
  shows "core_inv (R, sql_update p f D, n, L)"
proof -
  have "deliveries_inv R n (sql_update p f D)"
  proof (rule deliveries_inv_update)
    show "deliveries_inv R n D" using assms(1) by (simp add: core_inv_iff)
    show "row_step d (f d) \<and> dr_queue_rank (f d) = dr_queue_rank d" if "d \<in> set D" "p d" for d
      using assms(2) [OF that] by (simp add: row_move_def)
    fix d
    assume d: "d \<in> set D"
    then obtain r where "r \<in> set R" "rr_key r = dr_key d" "agrees d r"
      using assms(1) by (auto simp: core_inv_iff deliveries_inv_def)
    then show "\<exists>r\<in>set R. rr_key r = dr_key d \<and> agrees (if p d then f d else d) r"
      using assms(2) [OF d] agrees_move by (intro bexI [of _ r]) auto
  qed
  moreover have "dr_delivery_id ` set (sql_update p f D) = dr_delivery_id ` set D"
    using assms(2) by (intro id_set_update) (simp add: row_move_def)
  ultimately show ?thesis using assms(1) by (simp add: core_inv_iff)
qed

text \<open>The end of a delivery and of its record, in one step.\<close>

lemma agrees_end: "phase_result (dr_phase d) = Some kind \<Longrightarrow> agrees d (settle_row kind category reason r)"
  by (simp add: agrees_def)

lemma inv_end:
  assumes inv: "core_inv (R, D, n, L)" and d: "d \<in> set D" "p d"
    and p: "\<And>x. x \<in> set D \<Longrightarrow> p x \<Longrightarrow> dr_delivery_id x = dr_delivery_id d"
    and f: "row_end ph d (f d)" and res: "phase_result ph = Some kind" "result_ok kind category reason"
    and r: "r \<in> set R" "rr_key r = dr_key d" "rr_state r = Dispatching"
  shows "core_inv (sql_update (at_key_state (dr_key d) Dispatching) (settle_row kind category reason) R,
           sql_update p f D, n, L)" (is "core_inv (?R, ?D, n, L)")
proof -
  have D: "deliveries_inv R n D" and R: "distinct (map rr_key R)" using inv by (simp_all add: core_inv_iff)
  have only: "x = d" if "x \<in> set D" "p x" for x
    using p [OF that] that d(1) D by (auto simp: deliveries_inv_def distinct_map inj_on_def)
  have "deliveries_inv ?R n ?D"
  proof (rule deliveries_inv_update [OF D])
    show "row_step x (f x) \<and> dr_queue_rank (f x) = dr_queue_rank x" if "x \<in> set D" "p x" for x
      using only [OF that] f by (simp add: row_end_def)
    fix x
    assume x: "x \<in> set D"
    show "\<exists>r'\<in>set ?R. rr_key r' = dr_key x \<and> agrees (if p x then f x else x) r'"
    proof (cases "x = d")
      case True
      have "settle_row kind category reason r \<in> set ?R"
        using r by (auto simp: set_sql_update at_key_state_def)
      with True d(2) r f res show ?thesis
        by (intro bexI [of _ "settle_row kind category reason r"]) (auto simp: row_end_def intro: agrees_end)
    next
      case False
      then have "\<not> p x" using only x by blast
      obtain q where q: "q \<in> set R" "rr_key q = dr_key x" "agrees x q"
        using D x by (auto simp: deliveries_inv_def)
      have "dr_key x \<noteq> dr_key d" using D x d(1) False by (auto simp: deliveries_inv_def distinct_map inj_on_def)
      then have "q \<in> set ?R" using q by (auto simp: set_sql_update at_key_state_def)
      with q \<open>\<not> p x\<close> show ?thesis by auto
    qed
  qed
  moreover have "distinct (map rr_key ?R)" using R by (intro distinct_map_sql_update) simp_all
  moreover have "\<forall>q\<in>set ?R. row_result_ok q"
    using inv res by (intro row_result_ok_update row_result_ok_settle) (simp_all add: core_inv_iff)
  moreover have "dr_delivery_id ` set ?D = dr_delivery_id ` set D"
    using only f by (intro id_set_update) (auto simp: row_end_def)
  ultimately show ?thesis using inv by (simp add: core_inv_iff)
qed

lemma inv_insert:
  assumes inv: "core_inv (R, D, n, L)" and r: "r \<in> set R" "rr_key r = dr_key d" "rr_state r = Dispatching"
    and fresh: "dr_key d \<notin> dr_key ` set D" "dr_delivery_id d \<notin> dr_delivery_id ` set D"
    and d: "operation_kind (dr_key d) = OpSend" "\<not> phase_final (dr_phase d)" "0 < dr_delivery_generation d"
      "dr_message_bytes d \<noteq> None" "dr_queue_rank d = n + 1"
  shows "core_inv (R, D @ [d], n + 1, L)"
proof -
  have "phase_result (dr_phase d) = None" using d(2) by (cases "dr_phase d") simp_all
  then have "agrees d r" using r by (simp add: agrees_def)
  moreover have "n + 1 \<notin> dr_queue_rank ` set D" using inv by (force simp: core_inv_iff deliveries_inv_def)
  ultimately show ?thesis using inv r fresh d by (auto simp: core_inv_iff deliveries_inv_def)
qed

lemma renumbered_row:
  assumes "renumbered D D'" and "d' \<in> set D'"
  obtains d where "d \<in> set D" and "row_step d d'" and "dr_phase d' = dr_phase d"
proof -
  obtain i where i: "i < length D'" "d' = D' ! i" using assms(2) by (auto simp: in_set_conv_nth)
  have "length D' = length D" using assms(1) by (auto simp: renumbered_def dest: list_all2_lengthD)
  then have "i < length D" using i by simp
  moreover have "D' ! i = D ! i \<or> dr_phase (D ! i) = DHeld \<and> (\<exists>rank. D' ! i = (D ! i)\<lparr>dr_queue_rank := rank\<rparr>)"
    using assms(1) \<open>i < length D\<close> by (auto simp: renumbered_def list_all2_conv_all_nth)
  ultimately show thesis using that [of "D ! i"] i by (auto simp: row_step_def frozen_part_def)
qed

lemma renumbered_map:
  assumes "renumbered D D'" and "\<And>d rank. g (d\<lparr>dr_queue_rank := rank\<rparr>) = g d"
  shows "map g D' = map g D"
  using assms unfolding renumbered_def
  by (auto simp: list_all2_conv_all_nth intro!: nth_equalityI)

lemma inv_renumber:
  assumes inv: "core_inv (R, D, n, L)" and "renumbered D D'"
  shows "core_inv (R, D', n, L)"
proof -
  have D: "deliveries_inv R n D" using inv by (simp add: core_inv_iff)
  have ids: "map dr_delivery_id D' = map dr_delivery_id D" and keys: "map dr_key D' = map dr_key D"
    by (rule renumbered_map [OF assms(2)]; simp)+
  have "deliveries_inv R n D'"
    unfolding deliveries_inv_def
  proof (intro conjI ballI)
    show "distinct (map dr_delivery_id D')" "distinct (map dr_key D')"
      using D ids keys by (simp_all add: deliveries_inv_def)
    show "distinct (map dr_queue_rank D')" using assms(2) by (simp add: renumbered_def)
    fix d'
    assume d': "d' \<in> set D'"
    obtain d where d: "d \<in> set D" "row_step d d'" "dr_phase d' = dr_phase d"
      using renumbered_row [OF assms(2) d'] by blast
    have "dr_queue_rank d' \<in> dr_queue_rank ` set D" using assms(2) d' by (auto simp: renumbered_def)
    with D show "0 < dr_queue_rank d'" "dr_queue_rank d' \<le> n" by (auto simp: deliveries_inv_def)
    show "0 < dr_delivery_generation d'" "dr_message_bytes d' \<noteq> None" "operation_kind (dr_key d') = OpSend"
      using D d by (auto simp: deliveries_inv_def row_step_frozen)
    show "\<exists>r\<in>set R. rr_key r = dr_key d' \<and> agrees d' r"
      using D d by (auto simp: deliveries_inv_def row_step_frozen agrees_def)
  qed
  moreover have "dr_delivery_id ` set D' = dr_delivery_id ` set D" using ids by (metis set_map)
  ultimately show ?thesis using inv by (simp add: core_inv_iff)
qed

lemma inv_purge:
  assumes inv: "core_inv (R, D, n, L)"
  shows "core_inv (sql_delete p R, sql_delete (\<lambda>d. dr_key d \<in> rr_key ` {r \<in> set R. p r}) D, n,
        sql_delete (\<lambda>l. dl_delivery_id l \<in>
          dr_delivery_id ` {d \<in> set D. dr_key d \<in> rr_key ` {r \<in> set R. p r}}) L)"
    (is "core_inv (?R, ?D, n, ?L)")
proof -
  have D: "deliveries_inv R n D" using inv by (simp add: core_inv_iff)
  have row: "\<exists>r\<in>set ?R. rr_key r = dr_key d \<and> agrees d r" if d: "d \<in> set ?D" for d
  proof -
    have "d \<in> set D" "dr_key d \<notin> rr_key ` {r \<in> set R. p r}" using d by (auto simp: set_sql_delete)
    moreover from this obtain r where "r \<in> set R" "rr_key r = dr_key d" "agrees d r"
      using D by (auto simp: deliveries_inv_def)
    ultimately show ?thesis by (force simp: set_sql_delete)
  qed
  have "deliveries_inv ?R n ?D"
    unfolding deliveries_inv_def
  proof (intro conjI ballI)
    show "distinct (map dr_delivery_id ?D)" "distinct (map dr_key ?D)" "distinct (map dr_queue_rank ?D)"
      using D by (simp_all add: deliveries_inv_def distinct_map_sql_delete)
  qed (use D row in \<open>auto simp: deliveries_inv_def set_sql_delete\<close>)
  moreover have "distinct (map rr_key ?R)" "distinct (map dl_delivery_id ?L)"
    using inv by (simp_all add: core_inv_iff distinct_map_sql_delete)
  moreover have "dl_delivery_id ` set ?L \<subseteq> dr_delivery_id ` set ?D"
  proof
    fix i
    assume "i \<in> dl_delivery_id ` set ?L"
    then have "i \<in> dl_delivery_id ` set L"
      and lost: "i \<notin> dr_delivery_id ` {d \<in> set D. dr_key d \<in> rr_key ` {r \<in> set R. p r}}"
      by (auto simp: set_sql_delete)
    then obtain d where d: "d \<in> set D" "i = dr_delivery_id d" using inv by (auto simp: core_inv_iff)
    with lost have "d \<in> set ?D" by (auto simp: set_sql_delete)
    with d show "i \<in> dr_delivery_id ` set ?D" by blast
  qed
  ultimately show ?thesis using inv by (simp add: core_inv_iff set_sql_delete)
qed

lemma core_step_inv:
  assumes "core_step A s s'" and "core_inv s"
  shows "core_inv s'"
  using assms
proof (induction rule: core_step.induct)
  case (core_reserve key R D n L canonical issued expires)
  then show ?case
    by (force simp: core_inv_iff new_record_def row_result_ok_def intro: deliveries_inv_records)
next
  case (core_start R D n L key)
  then show ?case by (intro inv_records_change) (auto simp: at_key_state_def row_result_ok_def agrees_def)
next
  case (core_reject R D n L key category reason)
  then show ?case by (intro inv_records_change)
    (auto simp: at_key_state_def agrees_def result_ok_def intro: row_result_ok_settle)
next
  case (core_finalize key kind category reason R D n L)
  then show ?case by (intro inv_records_change)
    (auto simp: at_key_state_def agrees_def intro: row_result_ok_settle)
next
  case (core_insert d r R D n L)
  from core_insert.prems core_insert.hyps(2-) show ?case by (rule inv_insert)
next
  case (core_move D p f R n L)
  from core_move.prems core_move.hyps show ?case by (rule inv_move)
next
  case (core_end d D p ph f kind category reason r R n L)
  from core_end.prems core_end.hyps show ?case by (rule inv_end)
next
  case (core_renumber D D' R n L)
  from core_renumber.prems core_renumber.hyps show ?case by (rule inv_renumber)
next
  case (core_link l D L R n)
  then show ?case by (auto simp: core_inv_iff)
next
  case (core_purge R p D n L)
  from core_purge.prems show ?case by (rule inv_purge)
qed

lemma core_steps_inv: "core_steps A s s' \<Longrightarrow> core_inv s \<Longrightarrow> core_inv s'"
  by (induction rule: rtranclp_induct) (auto dest: core_step_inv)

section \<open>What the steps keep\<close>

text \<open>A record keeps its envelope and its dates; a terminal one keeps everything.\<close>

definition record_step :: "RecordRow \<Rightarrow> RecordRow \<Rightarrow> bool" where
  "record_step r r' \<longleftrightarrow>
     rr_key r' = rr_key r \<and> rr_canonical_bytes r' = rr_canonical_bytes r \<and>
     rr_issued_at r' = rr_issued_at r \<and> rr_expires_at r' = rr_expires_at r \<and>
     (rr_state r = Terminal \<longrightarrow> r' = r) \<and> (rr_state r' = Prepared \<longrightarrow> rr_state r = Prepared)"

lemma record_step_refl [simp]: "record_step r r"
  by (simp add: record_step_def)

lemma record_step_trans:
  assumes "record_step a b" and "record_step b c"
  shows "record_step a c"
proof (cases "rr_state a = Terminal")
  case True
  then have "b = a" using assms(1) by (simp add: record_step_def)
  with assms(2) show ?thesis by simp
next
  case False
  have "rr_state a = Prepared" if "rr_state c = Prepared"
    using assms that unfolding record_step_def by blast
  with False assms show ?thesis unfolding record_step_def by (metis (no_types))
qed

lemma record_step_update:
  assumes "r \<in> set R" and "p r \<Longrightarrow> record_step r (f r)"
  shows "\<exists>r'\<in>set (sql_update p f R). record_step r r'"
  using assms by (intro bexI [of _ "if p r then f r else r"]) (auto simp: set_sql_update)

lemma core_step_record:
  assumes "core_step A s s'" and "r \<in> set (fst s)"
  shows "(\<exists>r'\<in>set (fst s'). record_step r r') \<or> MayPurge r \<in> A"
  using assms
proof (induction rule: core_step.induct)
  case (core_reserve key R D n L canonical issued expires)
  then show ?case by (auto intro!: bexI [of _ r])
next
  case (core_start R D n L key)
  show ?case using core_start.prems unfolding fst_conv
    by (intro disjI1 record_step_update) (simp_all add: at_key_state_def record_step_def)
next
  case (core_reject R D n L key category reason)
  show ?case using core_reject.prems unfolding fst_conv
    by (intro disjI1 record_step_update) (simp_all add: at_key_state_def record_step_def)
next
  case (core_finalize key kind category reason R D n L)
  show ?case using core_finalize.prems unfolding fst_conv
    by (intro disjI1 record_step_update) (simp_all add: at_key_state_def record_step_def)
next
  case (core_end d D p ph f kind category reason r0 R n L)
  show ?case using core_end.prems unfolding fst_conv
    by (intro disjI1 record_step_update) (simp_all add: at_key_state_def record_step_def)
next
  case (core_purge R p D n L)
  then show ?case by (cases "p r") (auto simp: set_sql_delete intro!: bexI [of _ r])
qed (auto intro!: bexI [of _ r])

lemma core_steps_record:
  assumes "core_steps A s s'" and "r \<in> set (fst s)" and "\<forall>r'. record_step r r' \<longrightarrow> MayPurge r' \<notin> A"
  shows "\<exists>r'\<in>set (fst s'). record_step r r'"
  using assms
proof (induction rule: rtranclp_induct)
  case (step y z)
  then obtain r' where r': "r' \<in> set (fst y)" "record_step r r'" by blast
  with step.prems(2) have "MayPurge r' \<notin> A" by blast
  then obtain r'' where "r'' \<in> set (fst z)" "record_step r' r''"
    using core_step_record [OF step.hyps(2) r'(1)] by blast
  with r'(2) show ?case using record_step_trans by blast
qed (auto intro!: bexI [of _ r])

lemma row_update_forward:
  assumes "d \<in> set D" and "p d \<Longrightarrow> row_step d (f d)"
  shows "\<exists>d'\<in>set (sql_update p f D). row_step d d'"
  using assms by (intro bexI [of _ "if p d then f d else d"]) (auto simp: set_sql_update)

lemma row_update_backward:
  assumes "d' \<in> set (sql_update p f D)" and "\<And>d. d \<in> set D \<Longrightarrow> p d \<Longrightarrow> row_step d (f d)"
  shows "\<exists>d\<in>set D. row_step d d'"
  using assms(1)
proof (rule in_sql_updateE)
  fix d
  assume "d \<in> set D" "d' = (if p d then f d else d)"
  then show ?thesis using assms(2) [of d] by (intro bexI [of _ d]) auto
qed

lemma renumbered_forward:
  assumes "renumbered D D'" and "d \<in> set D"
  shows "\<exists>d'\<in>set D'. row_step d d'"
proof -
  obtain i where i: "i < length D" "d = D ! i" using assms(2) by (auto simp: in_set_conv_nth)
  then have "i < length D'" using assms(1) by (auto simp: renumbered_def dest: list_all2_lengthD)
  moreover have "D' ! i = D ! i \<or> dr_phase (D ! i) = DHeld \<and> (\<exists>rank. D' ! i = (D ! i)\<lparr>dr_queue_rank := rank\<rparr>)"
    using assms(1) i(1) by (auto simp: renumbered_def list_all2_conv_all_nth)
  ultimately show ?thesis using i by (intro bexI [of _ "D' ! i"]) (auto simp: row_step_def frozen_part_def)
qed

lemma end_rows:
  assumes "core_inv (R, D, n, L)" and "d \<in> set D" and "row_end ph d (f d)"
    and "\<And>x. x \<in> set D \<Longrightarrow> p x \<Longrightarrow> dr_delivery_id x = dr_delivery_id d"
    and "x \<in> set D" and "p x"
  shows "row_step x (f x)"
proof -
  have "x = d" using assms(1,2,5) assms(4) [OF assms(5,6)]
    by (auto simp: core_inv_iff deliveries_inv_def distinct_map inj_on_def)
  with assms(3) show ?thesis by (simp add: row_end_def)
qed

lemma core_step_delivery:
  assumes "core_step A s s'" and "core_inv s" and "d \<in> set (fst (snd s))"
  shows "(\<exists>d'\<in>set (fst (snd s')). row_step d d') \<or>
    (\<exists>r\<in>set (fst s). rr_key r = dr_key d \<and> MayPurge r \<in> A)"
  using assms
proof (induction rule: core_step.induct)
  case (core_move D p f R n L)
  have "row_step x (f x)" if "x \<in> set D" "p x" for x
    using core_move.hyps [OF that] by (simp add: row_move_def)
  with core_move.prems(2) show ?case unfolding fst_conv snd_conv by (intro disjI1 row_update_forward)
next
  case (core_end d0 D p ph f kind category reason r R n L)
  have "row_step x (f x)" if "x \<in> set D" "p x" for x
    using end_rows [of R D n L d0 ph f p x] core_end.prems(1) core_end.hyps(1,3,4) that by blast
  with core_end.prems(2) show ?case unfolding fst_conv snd_conv by (intro disjI1 row_update_forward)
next
  case (core_renumber D D' R n L)
  then show ?case by (auto intro: renumbered_forward)
next
  case (core_purge R p D n L)
  show ?case
  proof (cases "dr_key d \<in> rr_key ` {r \<in> set R. p r}")
    case True
    then obtain r where "r \<in> set R" "p r" "rr_key r = dr_key d" by auto
    with core_purge.hyps show ?thesis by auto
  next
    case False
    with core_purge.prems show ?thesis by (intro disjI1 bexI [of _ d]) (auto simp: set_sql_delete)
  qed
qed (auto intro!: bexI [of _ d])

lemma core_step_delivery_back:
  assumes "core_step A s s'" and "core_inv s" and "d' \<in> set (fst (snd s'))"
  shows "(\<exists>d\<in>set (fst (snd s)). row_step d d') \<or> MayInsert d' \<in> A"
  using assms
proof (induction rule: core_step.induct)
  case (core_insert d r R D n L)
  then show ?case by (auto intro!: bexI [of _ d'])
next
  case (core_move D p f R n L)
  have "row_step x (f x)" if "x \<in> set D" "p x" for x
    using core_move.hyps [OF that] by (simp add: row_move_def)
  with core_move.prems(2) show ?case unfolding fst_conv snd_conv by (intro disjI1 row_update_backward)
next
  case (core_end d0 D p ph f kind category reason r R n L)
  have "row_step x (f x)" if "x \<in> set D" "p x" for x
    using end_rows [of R D n L d0 ph f p x] core_end.prems(1) core_end.hyps(1,3,4) that by blast
  with core_end.prems(2) show ?case unfolding fst_conv snd_conv by (intro disjI1 row_update_backward)
next
  case (core_renumber D D' R n L)
  then obtain d where "d \<in> set D" "row_step d d'" using renumbered_row by force
  then show ?case by auto
next
  case (core_purge R p D n L)
  then show ?case by (auto simp: set_sql_delete intro!: bexI [of _ d'])
qed (auto intro!: bexI [of _ d'])

lemma core_steps_delivery:
  assumes "core_steps A s s'" and "core_inv s" and "d \<in> set (fst (snd s))"
    and "r \<in> set (fst s)" and "rr_key r = dr_key d" and "\<forall>r'. record_step r r' \<longrightarrow> MayPurge r' \<notin> A"
  shows "\<exists>d'\<in>set (fst (snd s')). row_step d d'"
  using assms
proof (induction rule: rtranclp_induct)
  case (step y z)
  then obtain d' where d': "d' \<in> set (fst (snd y))" "row_step d d'" by blast
  obtain r' where r': "r' \<in> set (fst y)" "record_step r r'"
    using core_steps_record [OF step.hyps(1) step.prems(3,5)] by blast
  have inv: "core_inv y" using step.hyps(1) step.prems(1) by (rule core_steps_inv)
  have "MayPurge q \<notin> A" if "q \<in> set (fst y)" "rr_key q = dr_key d'" for q
  proof -
    have "rr_key q = rr_key r'" using that(2) d'(2) r'(2) step.prems(4) by (simp add: row_step_frozen record_step_def)
    moreover have "distinct (map rr_key (fst y))" using inv by (cases y) (simp add: core_inv_iff)
    ultimately have "q = r'" using distinct_map_eq [of rr_key "fst y" q r'] that(1) r'(1) by blast
    with r'(2) step.prems(5) show ?thesis by blast
  qed
  then obtain d'' where "d'' \<in> set (fst (snd z))" "row_step d' d''"
    using core_step_delivery [OF step.hyps(2) inv d'(1)] by blast
  with d'(2) show ?case using row_step_trans by blast
qed (auto intro!: bexI [of _ d])

text \<open>
  The converse of the agreement: a delivery that has not written a result has a record that
  still waits for one, for every key outside \<open>K\<close> (the keys finalized directly).
\<close>

definition coherent :: "IdempotencyKey set \<Rightarrow> core \<Rightarrow> bool" where
  "coherent K s \<longleftrightarrow>
     (\<forall>d\<in>set (fst (snd s)). \<forall>r\<in>set (fst s). rr_key r = dr_key d \<longrightarrow> dr_key d \<notin> K \<longrightarrow>
        phase_result (dr_phase d) = None \<longrightarrow> rr_state r = Dispatching)"

lemma coherent_records:
  assumes "coherent K (R, D, n, L)" and "\<And>x. rr_key (f x) = rr_key x"
    and "\<And>d r. d \<in> set D \<Longrightarrow> r \<in> set R \<Longrightarrow> p r \<Longrightarrow> rr_key r = dr_key d \<Longrightarrow> dr_key d \<notin> K \<Longrightarrow> False"
  shows "coherent K (sql_update p f R, D, n, L)"
  unfolding coherent_def
proof (intro ballI impI)
  fix d r'
  assume d: "d \<in> set (fst (snd (sql_update p f R, D, n, L)))" "phase_result (dr_phase d) = None" "dr_key d \<notin> K"
    and r': "r' \<in> set (fst (sql_update p f R, D, n, L))" "rr_key r' = dr_key d"
  obtain r where r: "r \<in> set R" "r' = (if p r then f r else r)" using r'(1) by (auto elim: in_sql_updateE)
  then have "rr_key r = dr_key d" using r'(2) assms(2) by (auto split: if_splits)
  moreover from this have "\<not> p r" using assms(3) [of d r] d r(1) by auto
  ultimately show "rr_state r' = Dispatching" using assms(1) d r by (auto simp: coherent_def)
qed

lemma agreeing_record:
  assumes "core_inv (R, D, n, L)" and "d \<in> set D" and "r \<in> set R" and "rr_key r = dr_key d"
  shows "agrees d r"
proof -
  obtain q where q: "q \<in> set R" "rr_key q = dr_key d" "agrees d q"
    using assms(1,2) by (auto simp: core_inv_iff deliveries_inv_def)
  moreover have "distinct (map rr_key R)" using assms(1) by (simp add: core_inv_iff)
  ultimately show ?thesis using distinct_map_eq [of rr_key R r q] assms(3,4) by simp
qed

lemma coherent_rows:
  assumes "coherent K (R, D, n, L)" and "\<And>r'. r' \<in> set R' \<Longrightarrow> rr_state r' \<noteq> Dispatching \<Longrightarrow> r' \<in> set R \<or> rr_key r' = k"
    and "\<And>d'. d' \<in> set D' \<Longrightarrow> phase_result (dr_phase d') = None \<Longrightarrow> dr_key d' \<noteq> k \<Longrightarrow>
           \<exists>d\<in>set D. dr_key d = dr_key d' \<and> phase_result (dr_phase d) = None"
    and "\<And>d'. d' \<in> set D' \<Longrightarrow> dr_key d' = k \<Longrightarrow> phase_result (dr_phase d') \<noteq> None \<or> k \<in> K"
  shows "coherent K (R', D', n', L')"
  unfolding coherent_def
proof (intro ballI impI)
  fix d r
  assume d: "d \<in> set (fst (snd (R', D', n', L')))" "phase_result (dr_phase d) = None" "dr_key d \<notin> K"
    and r: "r \<in> set (fst (R', D', n', L'))" "rr_key r = dr_key d"
  have "dr_key d \<noteq> k" using assms(4) [of d] d by auto
  then obtain x where x: "x \<in> set D" "dr_key x = dr_key d" "phase_result (dr_phase x) = None"
    using assms(3) [of d] d by auto
  show "rr_state r = Dispatching"
  proof (rule ccontr)
    assume "rr_state r \<noteq> Dispatching"
    then have "r \<in> set R" using assms(2) [of r] r \<open>dr_key d \<noteq> k\<close> by auto
    with assms(1) x r d(3) have "rr_state r = Dispatching" by (auto simp: coherent_def)
    with \<open>rr_state r \<noteq> Dispatching\<close> show False by contradiction
  qed
qed

lemma row_step_pending:
  assumes "row_step d d'" and "phase_result (dr_phase d') = None"
  shows "phase_result (dr_phase d) = None"
proof (rule ccontr)
  assume "phase_result (dr_phase d) \<noteq> None"
  then have "phase_final (dr_phase d)" by (cases "dr_phase d") simp_all
  with assms \<open>phase_result (dr_phase d) \<noteq> None\<close> show False using row_step_final by fastforce
qed

lemma core_step_coherent:
  assumes "core_step A s s'" and "core_inv s" and "coherent K s" and "\<forall>k. MayFinalize k \<in> A \<longrightarrow> k \<in> K"
  shows "coherent K s'"
  using assms
proof (induction rule: core_step.induct)
  case (core_reserve key R D n L canonical issued expires)
  have "\<forall>d\<in>set D. dr_key d \<noteq> key"
    using core_reserve.hyps core_reserve.prems(1) by (force simp: core_inv_iff deliveries_inv_def)
  with core_reserve.prems(2) show ?case by (auto simp: coherent_def new_record_def)
next
  case (core_start R D n L key)
  show ?case using core_start.prems(2)
    by (rule coherent_records) (auto simp: at_key_state_def dest: agreeing_record [OF core_start.prems(1)] agrees_start)
next
  case (core_reject R D n L key category reason)
  show ?case using core_reject.prems(2)
    by (rule coherent_records) (auto simp: at_key_state_def dest: agreeing_record [OF core_reject.prems(1)] agrees_start)
next
  case (core_finalize key kind category reason R D n L)
  have "key \<in> K" using core_finalize.hyps(1) core_finalize.prems(3) by blast
  show ?case using core_finalize.prems(2)
    by (rule coherent_records) (use \<open>key \<in> K\<close> in \<open>auto simp: at_key_state_def\<close>)
next
  case (core_insert d r R D n L)
  have "x = r" if "x \<in> set R" "rr_key x = dr_key d" for x
    using distinct_map_eq [of rr_key R x r] core_insert.prems(1) core_insert.hyps(2,3) that
    by (simp add: core_inv_iff)
  with core_insert.prems(2) core_insert.hyps(4) show ?case by (auto simp: coherent_def)
next
  case (core_move D p f R n L)
  have pre: "\<exists>d\<in>set D. row_step d d'" if "d' \<in> set (sql_update p f D)" for d'
    using that
  proof (rule row_update_backward)
    show "row_step d (f d)" if "d \<in> set D" "p d" for d
      using core_move.hyps [OF that] by (simp add: row_move_def)
  qed
  show ?case unfolding coherent_def fst_conv snd_conv
  proof (intro ballI impI)
    fix d' r
    assume "d' \<in> set (sql_update p f D)" and r: "r \<in> set R" "rr_key r = dr_key d'" "dr_key d' \<notin> K"
      "phase_result (dr_phase d') = None"
    then obtain d where "d \<in> set D" "row_step d d'" using pre by blast
    with r core_move.prems(2) show "rr_state r = Dispatching"
      using row_step_pending [of d d'] by (auto simp: coherent_def row_step_frozen)
  qed
next
  case (core_end d0 D p ph f kind category reason r R n L)
  show ?case using core_end.prems(2)
  proof (rule coherent_rows [where k = "dr_key d0"])
    fix d'
    assume d': "d' \<in> set (sql_update p f D)"
    have step: "row_step x (f x)" if "x \<in> set D" "p x" for x
      using end_rows [of R D n L d0 ph f p x] core_end.prems(1) core_end.hyps(1,3,4) that by blast
    obtain d where d: "d \<in> set D" "row_step d d'" using row_update_backward [OF d' step] by blast
    show "\<exists>d\<in>set D. dr_key d = dr_key d' \<and> phase_result (dr_phase d) = None"
      if "phase_result (dr_phase d') = None"
      using d that row_step_pending by (auto simp: row_step_frozen)
    show "phase_result (dr_phase d') \<noteq> None \<or> dr_key d0 \<in> K" if "dr_key d' = dr_key d0"
    proof -
      obtain x where x: "x \<in> set D" "d' = (if p x then f x else x)" using d' by (rule in_sql_updateE)
      have "row_step x d'" using step [of x] x by (cases "p x") simp_all
      then have "dr_key x = dr_key d0" using that by (simp add: row_step_frozen)
      then have "x = d0" using distinct_map_eq [of dr_key D x d0] x(1) core_end.hyps(1) core_end.prems(1)
        by (simp add: core_inv_iff deliveries_inv_def)
      with x core_end.hyps show ?thesis by (simp add: row_end_def)
    qed
  qed (auto simp: set_sql_update at_key_state_def)
next
  case (core_renumber D D' R n L)
  show ?case unfolding coherent_def fst_conv snd_conv
  proof (intro ballI impI)
    fix d' r
    assume "d' \<in> set D'" and r: "r \<in> set R" "rr_key r = dr_key d'" "dr_key d' \<notin> K"
      "phase_result (dr_phase d') = None"
    then obtain d where "d \<in> set D" "row_step d d'" "dr_phase d' = dr_phase d"
      using renumbered_row [OF core_renumber.hyps] by metis
    with r core_renumber.prems(2) show "rr_state r = Dispatching" by (auto simp: coherent_def row_step_frozen)
  qed
next
  case (core_link l D L R n)
  then show ?case by (simp add: coherent_def)
next
  case (core_purge R p D n L)
  then show ?case by (auto simp: coherent_def set_sql_delete)
qed

end
