(* ===== verification/Store_Refinement.thy ===== *)
theory Store_Refinement
  imports Store_Steps
begin

text \<open>
  Every operation on records and deliveries is a sequence of the steps of \<open>Store_Steps\<close>,
  with the permissions that the operation needs and no other. The reordering of a queue,
  which needs more, is in \<open>Queue_Order\<close>.
\<close>

named_theorems store_refinement \<open>operations as sequences of core steps\<close>

lemma core_of_simps [simp]:
  "core_of (db\<lparr>db_requests := a\<rparr>) = core_of db" "core_of (db\<lparr>db_ledger := b\<rparr>) = core_of db"
  "core_of (db\<lparr>db_notices := c\<rparr>) = core_of db" "core_of (db\<lparr>db_edits := e\<rparr>) = core_of db"
  "core_of (db\<lparr>db_guidance := g\<rparr>) = core_of db" "core_of (db\<lparr>db_control := k\<rparr>) = core_of db"
  "core_of (db\<lparr>db_lifecycle := l\<rparr>) = core_of db" "core_of (db\<lparr>db_interruptions := i\<rparr>) = core_of db"
  "core_of (db\<lparr>db_guichet := j\<rparr>) = core_of db"
  by (simp_all add: core_of_def)

text \<open>A statement that hit exactly one row hit a row.\<close>

lemma sql_matches_1D: "sql_matches p rows = 1 \<Longrightarrow> \<exists>r\<in>set rows. p r"
  using sql_matches_0_iff [of p rows] by fastforce

section \<open>Records\<close>

lemma reserve_insert_steps:
  assumes "reserve_insert key c issued expires now db = Inr (res, db')"
  shows "core_steps A (core_of db) (core_of db')"
proof (cases "sql_exists (\<lambda>r. rr_key r = key) (db_records db)")
  case True
  with assms have "db' = db" by (auto simp: reserve_insert_def split: sum.splits option.splits)
  then show ?thesis by simp
next
  case False
  then have "key \<notin> rr_key ` set (db_records db)" by (auto simp: sql_exists_iff)
  moreover have "db' = db\<lparr>db_records := db_records db @ [new_record key c issued expires]\<rparr>"
    using assms False by (simp add: reserve_insert_def)
  ultimately show ?thesis by (auto simp: core_of_def intro: r_into_rtranclp core_reserve)
qed

lemma reserve_steps [store_refinement]:
  assumes "reserve key c issued horizon now tolerance db = Inr (res, db')"
  shows "core_steps A (core_of db) (core_of db')"
proof -
  have "db' = db \<or> (\<exists>expires. reserve_insert key c issued expires now db = Inr (res, db'))"
    using assms by (auto simp: reserve_def split: sum.splits option.splits if_splits)
  then show ?thesis using reserve_insert_steps by auto
qed

lemma start_step: "core_step A (core_of db) (core_of (snd (start_record key db)))"
  by (simp add: core_of_def start_record_def core_start)

lemma record_transition_steps [store_refinement]:
  assumes "record_transition key a b db = Inr (u, db')"
  shows "core_steps A (core_of db) (core_of db')"
proof -
  have "db' = snd (start_record key db)"
    using assms by (auto simp: record_transition_def split: prod.splits if_splits)
  then show ?thesis using start_step by auto
qed

lemma finalize_steps [store_refinement]:
  assumes "finalize key result db = Inr (u, db')" and "MayFinalize key \<in> A"
  shows "core_steps A (core_of db) (core_of db')"
proof -
  have "\<exists>kind category reason. result_ok kind category reason \<and> db' = snd (settle_record key kind category reason db)"
  proof (cases result)
    case (Accepted x)
    with assms(1) show ?thesis
      by (intro exI [of _ "''accepted''"] exI [of _ None])
        (auto simp: finalize_def result_ok_def split: prod.splits if_splits option.splits)
  next
    case (Rejected c e)
    with assms(1) show ?thesis
      by (intro exI [of _ "''rejected''"] exI [of _ "Some c"] exI [of _ "Some e"])
        (auto simp: finalize_def result_ok_def split: prod.splits if_splits option.splits)
  next
    case (Orphaned e)
    with assms(1) show ?thesis
      by (intro exI [of _ "''orphaned''"] exI [of _ None] exI [of _ "Some e"])
        (auto simp: finalize_def result_ok_def split: prod.splits if_splits option.splits)
  qed
  then obtain kind category reason where "result_ok kind category reason"
    "db' = snd (settle_record key kind category reason db)" by blast
  then have "core_step A (core_of db) (core_of db')"
    using assms(2) by (simp add: core_of_def settle_record_def core_finalize)
  then show ?thesis by (rule r_into_rtranclp)
qed

text \<open>The two updates of \<open>reject_prepared\<close> amount to one: from prepared to terminal.\<close>

lemma start_then_settle:
  assumes "\<forall>r\<in>set R. \<not> at_key_state key Dispatching r"
  shows "sql_update (at_key_state key Dispatching) (settle_row k c e)
      (sql_update (at_key_state key Prepared) (\<lambda>r. r\<lparr>rr_state := Dispatching\<rparr>) R) =
    sql_update (at_key_state key Prepared) (settle_row k c e) R"
  using assms by (auto simp: sql_update_def at_key_state_def settle_row_def)

lemma no_second_state:
  assumes "distinct (map rr_key R)" and "sql_matches (at_key_state key Prepared) R = 1"
  shows "\<forall>r\<in>set R. \<not> at_key_state key Dispatching r"
proof
  fix r
  assume r: "r \<in> set R"
  obtain q where q: "q \<in> set R" "at_key_state key Prepared q" using sql_matches_1D [OF assms(2)] by blast
  show "\<not> at_key_state key Dispatching r"
    using distinct_map_eq [OF assms(1) r q(1)] q(2) by (auto simp: at_key_state_def)
qed

lemma reject_prepared_steps [store_refinement]:
  assumes "reject_prepared key category reason db = Inr (u, db')" and "core_inv (core_of db)"
  shows "core_steps A (core_of db) (core_of db')"
proof -
  let ?up = "sql_update (at_key_state key Prepared) (settle_row ''rejected'' (Some category) (Some reason))"
  have one: "sql_matches (at_key_state key Prepared) (db_records db) = 1"
    using assms(1) by (auto simp: reject_prepared_def start_record_def split: prod.splits if_splits)
  have "db' = db\<lparr>db_records := ?up (db_records db)\<rparr>"
    using assms one no_second_state [of "db_records db" key]
    by (simp add: reject_prepared_def start_record_def settle_record_def start_then_settle core_of_def
        core_inv_iff split: if_splits)
  then show ?thesis by (auto simp: core_of_def intro: r_into_rtranclp core_reject)
qed

lemma delete_records_step:
  assumes "\<And>r. r \<in> set (db_records db) \<Longrightarrow> p r \<Longrightarrow> MayPurge r \<in> A"
  shows "core_step A (core_of db) (core_of (snd (delete_records p db)))"
proof -
  have keys: "set (map rr_key (filter p (db_records db))) = rr_key ` {r \<in> set (db_records db). p r}" by auto
  show ?thesis unfolding core_of_def delete_records_def Let_def
    using core_purge [of "db_records db" p A "db_deliveries db" "db_last_rank db" "db_links db"] assms
    by (simp add: keys)
qed

lemma purge_expired_sends_steps [store_refinement]:
  assumes "purge_expired_sends now grace db = (n, db')"
    and "\<And>r. operation_kind (rr_key r) = OpSend \<Longrightarrow> rr_expires_at r \<le> saturating_sub now grace \<Longrightarrow> MayPurge r \<in> A"
  shows "core_steps A (core_of db) (core_of db')"
proof -
  have "db' = snd (delete_records (\<lambda>r. operation_kind (rr_key r) = OpSend \<and>
      rr_expires_at r \<le> saturating_sub now grace) db)"
    using assms(1) by (simp add: purge_expired_sends_def)
  then show ?thesis using assms(2) by (auto intro!: r_into_rtranclp delete_records_step)
qed

lemma purge_expired_steps [store_refinement]:
  assumes "purge_expired now db = (n, db')" and "\<And>r. rr_expires_at r \<le> now \<Longrightarrow> MayPurge r \<in> A"
  shows "core_steps A (core_of db) (core_of db')"
proof -
  have "core_of db' = core_of (snd (delete_records (\<lambda>r. rr_expires_at r \<le> now) db))"
    using assms(1) by (auto simp: purge_expired_def purge_queue_edits_def Let_def split: prod.splits)
  then show ?thesis using assms(2) by (auto intro!: r_into_rtranclp delete_records_step)
qed

section \<open>Moves\<close>

lemma moves:
  assumes "\<And>d. d \<in> set (db_deliveries db) \<Longrightarrow> p d \<Longrightarrow> row_move d (f d)"
  shows "core_step A (core_of db) (core_of (db\<lparr>db_deliveries := sql_update p f (db_deliveries db)\<rparr>))"
  using core_move [of "db_deliveries db" p f A] assms by (simp add: core_of_def)

lemma row_move_gate: "row_move d (d\<lparr>dr_turn_gate := g\<rparr>)"
  by (simp add: row_move_def row_step_def frozen_part_def)

lemma row_move_lose: "dr_phase d = DDispatching \<Longrightarrow> row_move d (d\<lparr>dr_phase := DIndeterminate, dr_turn_gate := g\<rparr>)"
  by (auto simp: row_move_def row_step_def frozen_part_def intro: phase_lose)

lemma row_move_open: "dr_phase d = DHeld \<Longrightarrow> row_move d (d\<lparr>dr_phase := DDispatching, dr_turn_gate := g\<rparr>)"
  by (auto simp: row_move_def row_step_def frozen_part_def intro: phase_open)

lemma row_move_instance:
  "\<not> phase_final (dr_phase d) \<Longrightarrow> row_move d (d\<lparr>dr_recipient_instance_id := i, dr_turn_gate := g\<rparr>)"
  by (simp add: row_move_def row_step_def frozen_part_def)

lemma reassign_steps [store_refinement]:
  assumes "reassign_dispatching_deliveries codec a b now db = (n, db')"
  shows "core_steps A (core_of db) (core_of db')"
proof -
  have move: "row_move d (d\<lparr>dr_recipient_instance_id := b\<rparr>)" if "dr_phase d = DDispatching \<or> dr_phase d = DHeld" for d
    using row_move_instance [where d = d and i = b and g = "dr_turn_gate d"] that by auto
  show ?thesis
  proof (cases "a = [] \<or> b = [] \<or> a = b")
    case True
    with assms show ?thesis by (auto simp: reassign_dispatching_deliveries_def)
  next
    case False
    with assms show ?thesis
      by (auto simp: reassign_dispatching_deliveries_def Let_def intro!: r_into_rtranclp moves move)
  qed
qed

lemma adopt_steps [store_refinement]:
  assumes "adopt_held_for_agent codec agent inst recover ts db = Inr (n, db')"
  shows "core_steps A (core_of db) (core_of db')"
  using assms
  by (auto simp: adopt_held_for_agent_def Let_def split: if_splits intro!: r_into_rtranclp moves row_move_instance)

lemma dispatching_deliveries_steps [store_refinement]:
  assumes "dispatching_deliveries_for_instance inst now db = Inr (ds, db')"
  shows "core_steps A (core_of db) (core_of db')"
  using assms
  by (auto simp: dispatching_deliveries_for_instance_def Let_def split: if_splits
      intro!: r_into_rtranclp moves row_move_lose)

lemma mark_indeterminate_steps [store_refinement]:
  assumes "mark_delivery_indeterminate did inst gen db = Inr (u, db')"
  shows "core_steps A (core_of db) (core_of db')"
  using assms
  by (auto simp: mark_delivery_indeterminate_def Let_def split: if_splits intro!: r_into_rtranclp moves row_move_lose)

lemma settle_expired_steps [store_refinement]:
  assumes "settle_expired_dispatching now db = (n, db')"
  shows "core_steps A (core_of db) (core_of db')"
  using assms
  by (auto simp: settle_expired_dispatching_def Let_def intro!: r_into_rtranclp moves row_move_lose)

lemma clear_gate_steps [store_refinement]: "core_steps A (core_of db) (core_of (clear_held_turn_gate agent db))"
  by (auto simp: clear_held_turn_gate_def intro!: r_into_rtranclp moves row_move_gate)

lemma expire_gates_steps: "core_steps A (core_of db) (core_of (expire_gates agent now db))"
  by (auto simp: expire_gates_def intro!: r_into_rtranclp moves row_move_gate)

lemma open_turn_steps: "core_steps A (core_of db) (core_of (snd (open_turn p db)))"
  by (auto simp: open_turn_def intro!: r_into_rtranclp moves row_move_open)

section \<open>Creation\<close>

lemma insert_link_steps:
  assumes "insert_link l db = Inr db'"
  shows "core_steps A (core_of db) (core_of db')"
proof -
  have "db' = db\<lparr>db_links := db_links db @ [l]\<rparr>" and "dl_delivery_id l \<notin> dl_delivery_id ` set (db_links db)"
    and "dl_delivery_id l \<in> dr_delivery_id ` set (db_deliveries db)"
    using assms by (force simp: insert_link_def sql_exists_iff split: if_splits)+
  then show ?thesis by (simp add: core_of_def r_into_rtranclp core_link)
qed

lemma link_send_delivery_steps [store_refinement]:
  assumes "link_send_delivery link db = Inr (u, db')"
  shows "core_steps A (core_of db) (core_of db')"
proof -
  have "db' = db \<or> insert_link link db = Inr db'"
    using assms by (auto simp: link_send_delivery_def q_bind_Inr_iff split: if_splits option.splits)
  then show ?thesis using insert_link_steps by auto
qed

lemma insert_delivery_Inr:
  assumes "insert_delivery d db = Inr db'"
  shows "db' = db\<lparr>db_deliveries := db_deliveries db @ [d\<lparr>dr_queue_rank := db_last_rank db + 1\<rparr>],
      db_last_rank := db_last_rank db + 1\<rparr>"
    and "dr_delivery_id d \<notin> dr_delivery_id ` set (db_deliveries db)"
    and "dr_key d \<notin> dr_key ` set (db_deliveries db)" and "0 < dr_delivery_generation d"
  using assms by (auto simp: insert_delivery_def sql_exists_iff split: if_splits)

text \<open>The frame of an insertion: what the rest of the transaction leaves of the core.\<close>

lemma insert_rest_core:
  "insert_request r db = Inr db' \<Longrightarrow> core_of db' = core_of db"
  "insert_guidance g db = Inr db' \<Longrightarrow> core_of db' = core_of db"
  "core_of (record_message_in_transaction ts msg ck db) = core_of db"
  by (auto simp: insert_request_def insert_guidance_def record_message_in_transaction_def split: if_splits prod.splits)

lemma begin_Inr:
  assumes "begin_send_delivery_with_guidance codec ts key delivery tracking link guidance cap held db = Inr (u, db')"
  obtains msg db2 db3 db4 where
    "delivery_args_ok key delivery link held" and "decode codec (sd_message_bytes delivery) = Some msg"
    and "\<And>agent c. held = Some agent \<Longrightarrow> cap = Some c \<Longrightarrow> held_count agent db < c"
    and "sql_matches (at_key_state key Prepared) (db_records db) = 1"
    and "insert_delivery (begin_row key delivery held msg (resumed_gate link msg (snd (start_record key db))))
           (snd (start_record key db)) = Inr db2"
    and "(case link of Some l \<Rightarrow> insert_link l db2 | None \<Rightarrow> Inr db2) = Inr db3"
    and "(case tracking of
        Some r \<Rightarrow> insert_request r (record_message_in_transaction ts msg (msg_from msg @ ''|'' @ msg_to msg) db3)
      | None \<Rightarrow> Inr (record_message_in_transaction ts msg (msg_from msg @ ''|'' @ msg_to msg) db3)) = Inr db4"
    and "(case guidance of Some g \<Rightarrow> insert_guidance g db4 | None \<Rightarrow> Inr db4) = Inr db'"
proof -
  from assms obtain msg where msg: "delivery_args_ok key delivery link held"
    "decode codec (sd_message_bytes delivery) = Some msg"
    by (auto simp: begin_send_delivery_with_guidance_def split: if_splits option.splits)
  have cap: "held_count agent db < c" if "held = Some agent" "cap = Some c" for agent c
    using assms msg that by (auto simp: begin_send_delivery_with_guidance_def split: if_splits)
  have one: "sql_matches (at_key_state key Prepared) (db_records db) = 1"
    using assms msg by (auto simp: begin_send_delivery_with_guidance_def start_record_def split: if_splits)
  from assms msg show thesis
    by (auto simp: begin_send_delivery_with_guidance_def q_bind_Inr_iff split: if_splits prod.splits
        intro!: that [OF msg cap one])
qed

lemma begin_core:
  assumes "(case tracking of Some r \<Rightarrow> insert_request r (record_message_in_transaction ts msg ck db3)
      | None \<Rightarrow> Inr (record_message_in_transaction ts msg ck db3)) = Inr db4"
    and "(case guidance of Some g \<Rightarrow> insert_guidance g db4 | None \<Rightarrow> Inr db4) = Inr db'"
  shows "core_of db' = core_of db3"
  using assms insert_rest_core by (auto split: option.splits)

definition begins :: "IdempotencyKey \<Rightarrow> SendDelivery \<Rightarrow> string option \<Rightarrow> DeliveryRow \<Rightarrow> bool" where
  "begins key delivery held d \<longleftrightarrow>
     dr_delivery_id d = sd_delivery_id delivery \<and> dr_key d = key \<and>
     dr_delivery_generation d = sd_delivery_generation delivery \<and> dr_expires_at d = sd_expires_at delivery \<and>
     dr_message_bytes d = Some (sd_message_bytes delivery) \<and>
     (case held of Some agent \<Rightarrow> dr_phase d = DHeld \<and> dr_recipient_agent d = agent
                 | None \<Rightarrow> dr_phase d = DDispatching)"

lemma begins_row: "begins key delivery held ((begin_row key delivery held msg gate)\<lparr>dr_queue_rank := rank\<rparr>)"
  by (simp add: begins_def begin_row_def split: option.split)

lemma begin_steps [store_refinement]:
  assumes "begin_send_delivery_with_guidance codec ts key delivery tracking link guidance cap held db = Inr (u, db')"
    and "\<And>d. begins key delivery held d \<Longrightarrow> MayInsert d \<in> A"
  shows "core_steps A (core_of db) (core_of db')"
  using assms(1)
proof (rule begin_Inr)
  fix msg db2 db3 db4
  let ?db1 = "snd (start_record key db)"
  let ?d = "(begin_row key delivery held msg (resumed_gate link msg ?db1))\<lparr>dr_queue_rank := db_last_rank ?db1 + 1\<rparr>"
  assume args: "delivery_args_ok key delivery link held"
    and one: "sql_matches (at_key_state key Prepared) (db_records db) = 1"
    and ins: "insert_delivery (begin_row key delivery held msg (resumed_gate link msg ?db1)) ?db1 = Inr db2"
    and link: "(case link of Some l \<Rightarrow> insert_link l db2 | None \<Rightarrow> Inr db2) = Inr db3"
    and rest: "(case tracking of
        Some r \<Rightarrow> insert_request r (record_message_in_transaction ts msg (msg_from msg @ ''|'' @ msg_to msg) db3)
      | None \<Rightarrow> Inr (record_message_in_transaction ts msg (msg_from msg @ ''|'' @ msg_to msg) db3)) = Inr db4"
      "(case guidance of Some g \<Rightarrow> insert_guidance g db4 | None \<Rightarrow> Inr db4) = Inr db'"
  note core = begin_core [OF rest]
  obtain r where r: "r \<in> set (db_records db)" "at_key_state key Prepared r" using sql_matches_1D [OF one] by blast
  then have r1: "r\<lparr>rr_state := Dispatching\<rparr> \<in> set (db_records ?db1)" by (auto simp: start_record_def set_sql_update)
  have "core_step A (core_of ?db1) (db_records ?db1, db_deliveries ?db1 @ [?d], db_last_rank ?db1 + 1, db_links ?db1)"
    unfolding core_of_def
  proof (rule core_insert [OF _ r1])
    show "MayInsert ?d \<in> A" using assms(2) begins_row by blast
    show "rr_key (r\<lparr>rr_state := Dispatching\<rparr>) = dr_key ?d" using r(2) by (simp add: at_key_state_def begin_row_def)
    show "operation_kind (dr_key ?d) = OpSend" using args by (simp add: delivery_args_ok_def begin_row_def)
    show "\<not> phase_final (dr_phase ?d)" by (simp add: begin_row_def)
    show "dr_message_bytes ?d \<noteq> None" by (simp add: begin_row_def)
  qed (use insert_delivery_Inr(2-4) [OF ins] in simp_all)
  moreover have "core_of db2 = (db_records ?db1, db_deliveries ?db1 @ [?d], db_last_rank ?db1 + 1, db_links ?db1)"
    by (simp add: insert_delivery_Inr(1) [OF ins] core_of_def)
  moreover have "core_steps A (core_of db2) (core_of db3)"
    using link insert_link_steps by (cases link) auto
  ultimately show ?thesis using start_step [of A db key] core by (metis converse_rtranclp_into_rtranclp)
qed

section \<open>Ends\<close>

lemma end_steps:
  assumes "d \<in> set (db_deliveries db)" and "p d" and "\<And>x. p x \<Longrightarrow> dr_delivery_id x = dr_delivery_id d"
    and "row_end ph d (f d)" and "phase_result ph = Some kind" and "result_ok kind category reason"
    and "sql_matches (at_key_state (dr_key d) Dispatching) (db_records db) = 1"
  shows "core_steps A (core_of db)
    (core_of (snd (settle_record (dr_key d) kind category reason
       (db\<lparr>db_deliveries := sql_update p f (db_deliveries db)\<rparr>))))"
proof -
  obtain r where "r \<in> set (db_records db)" "at_key_state (dr_key d) Dispatching r"
    using sql_matches_1D [OF assms(7)] by blast
  with assms show ?thesis unfolding core_of_def settle_record_def at_key_state_def
    by (intro r_into_rtranclp) (auto intro!: core_end [of d _ p ph f kind category reason r, unfolded at_key_state_def])
qed

lemma row_end_ack: "dr_phase d = DDispatching \<Longrightarrow> row_end DAcked d (d\<lparr>dr_phase := DAcked, dr_acked_at := a\<rparr>)"
  by (auto simp: row_end_def row_step_def frozen_part_def intro: phase_ack)

lemma orphan_phases: "phase_step\<^sup>*\<^sup>* DDispatching DOrphaned" "phase_step\<^sup>*\<^sup>* DHeld DOrphaned"
  by (rule r_into_rtranclp, rule phase_orphan) (rule r_into_rtranclp, rule phase_orphan_held)

lemma row_end_orphan:
  "dr_phase d = DDispatching \<or> dr_phase d = DHeld \<Longrightarrow>
   row_end DOrphaned d (d\<lparr>dr_phase := DOrphaned, dr_turn_gate := g\<rparr>)"
  by (auto simp: row_end_def row_step_def frozen_part_def orphan_phases)

lemma row_end_withdraw:
  "dr_phase d = DHeld \<Longrightarrow> row_end DCancelled d (d\<lparr>dr_phase := DCancelled, dr_turn_gate := g\<rparr>)"
  by (auto simp: row_end_def row_step_def frozen_part_def intro: phase_withdraw)

text \<open>An acknowledgement that succeeds: either a replay, or the end of the delivery.\<close>

lemma answer_request_core [simp]: "core_of (snd (answer_request codec ts d db)) = core_of db"
  by (simp add: answer_request_def mark_answered_in_transaction_def Let_def split: option.split)

abbreviation acked_db :: "DeliveryRow \<Rightarrow> int \<Rightarrow> Db \<Rightarrow> Db" where
  "acked_db d now db \<equiv> snd (snd (ack_tables d now db))"

lemma acknowledge_Inr:
  assumes "acknowledge_send_delivery_at codec ts did inst gen now db = Inr (res, db')"
  obtains (replayed) d where "sql_row (\<lambda>d. dr_delivery_id d = did) (db_deliveries db) = Some d"
      "dr_phase d = DAcked" "res = None" "db' = db"
      "dr_recipient_instance_id d = inst" "dr_delivery_generation d = gen"
    | (ended) d where "sql_row (\<lambda>d. dr_delivery_id d = did) (db_deliveries db) = Some d"
      "dr_phase d = DDispatching" "dr_recipient_instance_id d = inst" "dr_delivery_generation d = gen"
      "sql_matches (at_key_state (dr_key d) Dispatching) (db_records db) = 1"
      "core_of db' = core_of (acked_db d now db)"
proof -
  obtain d where row: "sql_row (\<lambda>d. dr_delivery_id d = did) (db_deliveries db) = Some d"
    using assms by (cases "sql_row (\<lambda>d. dr_delivery_id d = did) (db_deliveries db)")
      (simp_all add: acknowledge_send_delivery_at_def)
  have "\<not> (dr_recipient_instance_id d \<noteq> inst \<or> dr_delivery_generation d \<noteq> gen)"
  proof
    assume "dr_recipient_instance_id d \<noteq> inst \<or> dr_delivery_generation d \<noteq> gen"
    then show False using assms row by (simp add: acknowledge_send_delivery_at_def)
  qed
  then have d: "sql_row (\<lambda>d. dr_delivery_id d = did) (db_deliveries db) = Some d"
    "dr_recipient_instance_id d = inst" "dr_delivery_generation d = gen" using row by simp_all
  have did: "dr_delivery_id d = did" using sql_row_SomeD [OF d(1)] by simp
  show thesis
  proof (cases "dr_phase d = DAcked")
    case True
    with assms d have "res = None" "db' = db" by (simp_all add: acknowledge_send_delivery_at_def)
    with True d show thesis by (intro replayed [of d])
  next
    case False
    with assms d have ph: "dr_phase d = DDispatching"
      by (simp add: acknowledge_send_delivery_at_def split: if_splits)
    obtain m n db2 where tables: "ack_tables d now db = (m, n, db2)" by (cases "ack_tables d now db")
    with assms d ph have ok: "n = 1" "(res, db') = answer_request codec ts d db2"
      by (auto simp: acknowledge_send_delivery_at_def split: if_splits)
    have one: "sql_matches (at_key_state (dr_key d) Dispatching) (db_records db) = 1"
      using tables ok(1) by (simp add: ack_tables_def settle_record_def Let_def)
    have "core_of db' = core_of (acked_db d now db)"
      using tables answer_request_core [of codec ts d db2] by (simp flip: ok(2))
    with d ph one show thesis by (intro ended [of d])
  qed
qed

lemma acknowledge_steps [store_refinement]:
  assumes "acknowledge_send_delivery_at codec ts did inst gen now db = Inr (res, db')"
  shows "core_steps A (core_of db) (core_of db')"
  using assms
proof (cases rule: acknowledge_Inr)
  case (replayed d)
  then show ?thesis by simp
next
  case (ended d)
  have "d \<in> set (db_deliveries db)" using sql_row_SomeD [OF ended(1)] by simp
  with ended(2,5,6) show ?thesis unfolding ack_tables_def Let_def snd_conv
    by (auto intro!: end_steps [where ph = DAcked] row_end_ack simp: result_ok_def)
qed

text \<open>Orphaning: the rows still to come are untouched by the ones already orphaned.\<close>

definition orphaned_db :: "DeliveryRow \<Rightarrow> string \<Rightarrow> Db \<Rightarrow> Db" where
  "orphaned_db d reason db =
     snd (settle_record (dr_key d) ''orphaned'' None (Some reason)
       (db\<lparr>db_deliveries := sql_update
          (\<lambda>x. dr_delivery_id x = dr_delivery_id d \<and> (dr_phase x = DDispatching \<or> dr_phase x = DHeld))
          (\<lambda>x. x\<lparr>dr_phase := DOrphaned, dr_turn_gate := False\<rparr>) (db_deliveries db)\<rparr>))"

lemma insert_notice_core [simp]: "core_of (insert_notice a b c e db) = core_of db"
  by (simp add: insert_notice_def)

lemma orphan_one_Inr:
  assumes "orphan_one codec reason ts d db = Inr (notice, db')"
  shows "sql_matches (at_key_state (dr_key d) Dispatching) (db_records db) = 1"
    and "core_of db' = core_of (orphaned_db d reason db)"
  using assms
  by (auto simp: orphan_one_def orphaned_db_def settle_record_def Let_def split: if_splits option.splits prod.splits)

lemma orphan_one_steps:
  assumes "orphan_one codec reason ts d db = Inr (notice, db')" and "d \<in> set (db_deliveries db)"
    and "dr_phase d = DDispatching \<or> dr_phase d = DHeld"
  shows "core_steps A (core_of db) (core_of db')"
  unfolding orphan_one_Inr(2) [OF assms(1)] orphaned_db_def
  using assms orphan_one_Inr(1) [OF assms(1)]
  by (auto intro!: end_steps [where ph = DOrphaned] row_end_orphan simp: result_ok_def)

lemma orphaned_db_others:
  "x \<in> set (db_deliveries db) \<Longrightarrow> dr_delivery_id x \<noteq> dr_delivery_id d \<Longrightarrow>
   x \<in> set (fst (snd (core_of (orphaned_db d reason db))))"
  by (auto simp: orphaned_db_def settle_record_def core_of_def set_sql_update)

lemma orphan_loop_steps:
  assumes "orphan_loop codec reason ts ds db = Inr (notices, db')"
    and "set ds \<subseteq> set (db_deliveries db)" and "distinct (map dr_delivery_id ds)"
    and "\<forall>d\<in>set ds. dr_phase d = DDispatching \<or> dr_phase d = DHeld"
  shows "core_steps A (core_of db) (core_of db')"
  using assms
proof (induction ds arbitrary: db notices)
  case (Cons d ds)
  from Cons.prems(1) obtain notice db1 ns where
    one: "orphan_one codec reason ts d db = Inr (notice, db1)" and
    rest: "orphan_loop codec reason ts ds db1 = Inr (ns, db')"
    by (auto simp: q_bind_Inr_iff)
  have "core_steps A (core_of db) (core_of db1)" using one Cons.prems(2,4) by (intro orphan_one_steps) auto
  moreover have "set ds \<subseteq> set (db_deliveries db1)"
  proof
    fix x
    assume "x \<in> set ds"
    then have "dr_delivery_id x \<in> dr_delivery_id ` set ds" by (rule imageI)
    with Cons.prems(3) have "dr_delivery_id x \<noteq> dr_delivery_id d" by auto
    with Cons.prems(2) \<open>x \<in> set ds\<close> have "x \<in> set (fst (snd (core_of (orphaned_db d reason db))))"
      by (intro orphaned_db_others) auto
    then show "x \<in> set (db_deliveries db1)" using orphan_one_Inr(2) [OF one] by (simp add: core_of_def)
  qed
  ultimately show ?case using Cons.IH [OF rest] Cons.prems(3,4) by auto
qed simp

lemma orphan_dispatching_steps [store_refinement]:
  assumes "orphan_dispatching_for_instance codec inst reason ts db = Inr (notices, db')"
    and "core_inv (core_of db)"
  shows "core_steps A (core_of db) (core_of db')"
  using assms(1) unfolding orphan_dispatching_for_instance_def
proof (rule orphan_loop_steps)
  show "distinct (map dr_delivery_id (filter (\<lambda>d. dr_recipient_instance_id d = inst \<and>
      (dr_phase d = DDispatching \<or> dr_phase d = DHeld)) (db_deliveries db)))"
    using assms(2) by (intro distinct_map_filter) (simp add: core_of_def core_inv_iff deliveries_inv_def)
qed auto

section \<open>The held queue\<close>

lemma lifecycle_core [simp]: "core_of (record_lifecycle_for_linked_request_in_transaction rid st at db) = core_of db"
proof -
  have "core_of (fold (\<lambda>g. record_lifecycle_event_in_transaction (a g) (b g) st at c e) gs db) = core_of db"
    for a b c e and gs :: "GuichetRow list"
    by (induction gs arbitrary: db) (simp_all add: record_lifecycle_event_in_transaction_def)
  then show ?thesis by (simp add: record_lifecycle_for_linked_request_in_transaction_def)
qed

lemma close_request_core [simp]: "core_of (close_request msg reason now db) = core_of db"
  by (simp add: close_request_def Let_def)

abbreviation withdrawn_db :: "DeliveryRow \<Rightarrow> BridgetMessage \<Rightarrow> string \<Rightarrow> Db \<Rightarrow> Db" where
  "withdrawn_db d msg reason db \<equiv> snd (snd (withdraw_tables d msg reason db))"

lemma settle_held_Inr:
  assumes "settle_held_in_transaction codec did reason now db = Inr (notice, db')"
  obtains (kept) "notice = None" and "db' = db"
    | (withdrawn) d msg where "d \<in> set (db_deliveries db)" and "dr_delivery_id d = did" and "dr_phase d = DHeld"
      and "Option.bind (dr_message_bytes d) (decode codec) = Some msg"
      and "sql_matches (at_key_state (dr_key d) Dispatching) (db_records db) = 1"
      and "core_of db' = core_of (withdrawn_db d msg reason db)"
      and "notice = Some \<lparr>on_delivery_id = did, on_message_id = msg_id msg, on_sender = msg_from msg,
             on_target = msg_to msg, on_reason = reason\<rparr>"
proof (cases "db' = db \<and> notice = None")
  case True
  then show thesis by (intro kept) simp_all
next
  case False
  let ?row = "sql_row (\<lambda>d. dr_delivery_id d = did \<and> dr_phase d = DHeld \<and> load_record (dr_key d) db \<noteq> None)
    (db_deliveries db)"
  have valid: "reason \<in> set settlement_reasons"
    using assms by (simp add: settle_held_in_transaction_def split: if_splits)
  with assms False obtain d where row: "?row = Some d"
    by (cases ?row) (simp_all add: settle_held_in_transaction_def)
  with assms False valid obtain bytes where bytes: "dr_message_bytes d = Some bytes"
    by (cases "dr_message_bytes d") (simp_all add: settle_held_in_transaction_def)
  with assms False valid row obtain msg where msg: "decode codec bytes = Some msg"
    by (cases "decode codec bytes") (simp_all add: settle_held_in_transaction_def split: if_splits)
  obtain m n db2 where tables: "withdraw_tables d msg reason db = (m, n, db2)"
    by (cases "withdraw_tables d msg reason db")
  have d: "d \<in> set (db_deliveries db)" "dr_delivery_id d = did" "dr_phase d = DHeld"
    using sql_row_SomeD [OF row] by simp_all
  from assms False valid row bytes msg tables have res: "n = 1"
    "db' = insert_notice did (msg_from msg) (withdrawn_body msg reason) now
        (if reply msg then close_request msg reason now db2 else db2)"
    "notice = Some \<lparr>on_delivery_id = did, on_message_id = msg_id msg, on_sender = msg_from msg,
       on_target = msg_to msg, on_reason = reason\<rparr>"
    by (auto simp: settle_held_in_transaction_def split: if_splits)
  have "core_of db' = core_of (withdrawn_db d msg reason db)" using res(2) tables by simp
  moreover have "sql_matches (at_key_state (dr_key d) Dispatching) (db_records db) = 1"
    using tables res(1) by (simp add: withdraw_tables_def settle_record_def Let_def)
  ultimately show thesis using d bytes msg res(3) by (intro withdrawn [of d msg]) simp_all
qed

lemma settle_held_steps [store_refinement]:
  assumes "settle_held_in_transaction codec did reason now db = Inr (notice, db')"
  shows "core_steps A (core_of db) (core_of db')"
  using assms
proof (cases rule: settle_held_Inr)
  case (withdrawn d msg)
  show ?thesis unfolding withdrawn(6) withdraw_tables_def Let_def snd_conv
    using withdrawn(1,3,5) by (auto intro!: end_steps [where ph = DCancelled] row_end_withdraw simp: result_ok_def)
qed simp

lemma release_candidate_steps:
  assumes "release_candidate codec now d db = Inr (res, db')"
  shows "core_steps A (core_of db) (core_of db')"
proof -
  obtain bytes where bytes: "dr_message_bytes d = Some bytes"
    using assms by (cases "dr_message_bytes d") (simp_all add: release_candidate_def)
  have unlinked: "\<not> sql_exists (\<lambda>l. dl_delivery_id l = dr_delivery_id d) (db_links db)"
    using assms bytes by (simp add: release_candidate_def split: if_splits)
  with assms bytes obtain msg where msg: "decode codec bytes = Some msg"
    by (cases "decode codec bytes") (simp_all add: release_candidate_def)
  show ?thesis
  proof (cases "lost_purpose d msg now db")
    case None
    then have "db' = snd (open_turn (\<lambda>x. dr_delivery_id x = dr_delivery_id d) db)"
      using assms bytes msg unlinked by (auto simp: release_candidate_def split: prod.splits if_splits)
    then show ?thesis using open_turn_steps by simp
  next
    case (Some why)
    then obtain notice where "settle_held_in_transaction codec (dr_delivery_id d) why now db = Inr (notice, db')"
      using assms bytes msg unlinked by (auto simp: release_candidate_def q_bind_Inr_iff)
    then show ?thesis by (rule settle_held_steps)
  qed
qed

lemma release_Inr:
  assumes "release_next_held codec agent now db = Inr (res, db')"
  obtains (idle) "res = (None, None)" and "db' = db \<or> db' = expire_gates agent now db"
    | (candidate) d ds where "\<not> cf_paused (control_read (db_control db))" and "\<not> pending_pause agent db"
      and "\<not> gated agent (expire_gates agent now db)"
      and "filter (\<lambda>d. load_record (dr_key d) (expire_gates agent now db) \<noteq> None)
             (held_rows agent (expire_gates agent now db)) = d # ds"
      and "release_candidate codec now d (expire_gates agent now db) = Inr (res, db')"
proof -
  let ?db1 = "expire_gates agent now db"
  let ?rows = "filter (\<lambda>d. load_record (dr_key d) ?db1 \<noteq> None) (held_rows agent ?db1)"
  consider "cf_paused (control_read (db_control db)) \<or> pending_pause agent db \<or> gated agent ?db1 \<or> ?rows = []"
    | d ds where "\<not> cf_paused (control_read (db_control db))" "\<not> pending_pause agent db" "\<not> gated agent ?db1"
        "?rows = d # ds"
    by (cases ?rows) blast+
  then show thesis
  proof cases
    case 1
    with assms have "res = (None, None) \<and> (db' = db \<or> db' = ?db1)"
      by (auto simp: release_next_held_def Let_def split: if_splits)
    then show thesis using idle by blast
  next
    case (2 d ds)
    with assms have "release_candidate codec now d ?db1 = Inr (res, db')"
      by (simp add: release_next_held_def Let_def)
    with 2 show thesis by (intro candidate [of d ds])
  qed
qed

lemma release_steps [store_refinement]:
  assumes "release_next_held codec agent now db = Inr (res, db')"
  shows "core_steps A (core_of db) (core_of db')"
  using assms
proof (cases rule: release_Inr)
  case idle
  then show ?thesis using expire_gates_steps by auto
next
  case (candidate d ds)
  have "core_steps A (core_of (expire_gates agent now db)) (core_of db')"
    by (rule release_candidate_steps [OF candidate(5)])
  with expire_gates_steps [of A db agent now] show ?thesis by (rule rtranclp_trans)
qed

text \<open>An edit either leaves the core alone or leaves it as its callback does.\<close>

lemma queue_edit_Inr:
  assumes "queue_edit_once scope rid canonical act actor now app db = Inr (res, db')"
  shows "core_of db' = core_of db \<or> (\<exists>x db1. app db = Inr (x, db1) \<and> core_of db' = core_of db1)"
proof (cases "sql_row (\<lambda>e. qe_issuer_scope e = scope \<and> qe_request_id e = rid) (db_edits db)")
  case (Some e)
  with assms have "db' = db" by (auto simp: queue_edit_once_def q_bind_Inr_iff split: if_splits)
  then show ?thesis by simp
next
  case None
  with assms obtain delivery before decision db1 where app: "app db = Inr ((delivery, before, decision), db1)"
    by (auto simp: queue_edit_once_def q_bind_Inr_iff split: if_splits)
  with assms None have "core_of db' = core_of db \<or> core_of db' = core_of db1"
    by (cases decision) (auto simp: queue_edit_once_def q_bind_Inr_iff split: if_splits option.splits prod.splits)
  with app show ?thesis by auto
qed

lemma queue_edit_steps:
  assumes "queue_edit_once scope rid canonical act actor now app db = Inr (res, db')"
    and "\<And>x db1. app db = Inr (x, db1) \<Longrightarrow> core_steps A (core_of db) (core_of db1)"
  shows "core_steps A (core_of db) (core_of db')"
  using queue_edit_Inr [OF assms(1)] assms(2) by auto

lemma apply_cancel_steps [store_refinement]:
  assumes "apply_cancel codec scope rid canonical actor agent mid now db = Inr (res, db')"
  shows "core_steps A (core_of db) (core_of db')"
proof -
  obtain x where x: "queue_edit_once scope rid canonical EditCancel actor now (cancel_apply codec agent mid now) db =
      Inr (x, db')"
    using assms by (auto simp: apply_cancel_def q_bind_Inr_iff split: prod.splits)
  show ?thesis
  proof (rule queue_edit_steps [OF x])
    fix y db1
    assume "cancel_apply codec agent mid now db = Inr (y, db1)"
    then have "db1 = db \<or>
        (\<exists>did notice. settle_held_in_transaction codec did ''cancelled_in_queue'' now db = Inr (notice, db1))"
      by (auto simp: cancel_apply_def q_bind_Inr_iff split: option.splits)
    then show "core_steps A (core_of db) (core_of db1)" using settle_held_steps by auto
  qed
qed

lemma promote_candidate_steps:
  assumes "promote_candidate codec code rights agent now d db = Inr (x, db')"
  shows "core_steps A (core_of db) (core_of db')"
proof -
  obtain bytes where bytes: "dr_message_bytes d = Some bytes"
    using assms by (cases "dr_message_bytes d") (simp_all add: promote_candidate_def)
  with assms obtain msg where msg: "decode codec bytes = Some msg"
    by (cases "decode codec bytes") (simp_all add: promote_candidate_def)
  show ?thesis
  proof (cases "lost_purpose d msg now db")
    case None
    then have "db' = db \<or>
        db' = snd (open_turn (\<lambda>x. dr_delivery_id x = dr_delivery_id d \<and> dr_recipient_agent x = agent) db)"
      using assms bytes msg by (auto simp: promote_candidate_def split: prod.splits sum.splits if_splits)
    then show ?thesis using open_turn_steps by auto
  next
    case (Some why)
    then obtain notice where "settle_held_in_transaction codec (dr_delivery_id d) why now db = Inr (notice, db')"
      using assms bytes msg by (auto simp: promote_candidate_def q_bind_Inr_iff split: option.splits)
    then show ?thesis by (rule settle_held_steps)
  qed
qed

lemma apply_promote_steps [store_refinement]:
  assumes "apply_promote codec scope rid canonical actor agent mid facts code now db = Inr (res, db')"
  shows "core_steps A (core_of db) (core_of db')"
proof (cases "authorize (facts\<lparr>gf_action := QueuePromote\<rparr>)")
  case (Inl refusal)
  with assms show ?thesis by (simp add: apply_promote_def Let_def)
next
  case (Inr u)
  with assms have x: "queue_edit_once scope rid canonical EditPromote actor now
      (promote_apply codec code (facts\<lparr>gf_action := QueuePromote\<rparr>) agent mid now) db = Inr (res, db')"
    by (simp add: apply_promote_def Let_def)
  show ?thesis
  proof (rule queue_edit_steps [OF x])
    fix y db1
    assume "promote_apply codec code (facts\<lparr>gf_action := QueuePromote\<rparr>) agent mid now db = Inr (y, db1)"
    then have "db1 = db \<or>
        (\<exists>d. promote_candidate codec code (facts\<lparr>gf_action := QueuePromote\<rparr>) agent now d db = Inr (y, db1))"
      by (auto simp: promote_apply_def split: option.splits)
    then show "core_steps A (core_of db) (core_of db1)" using promote_candidate_steps by blast
  qed
qed

end
