(* ===== verification/Queue_Order.thy ===== *)
theory Queue_Order
  imports Store_Refinement "HOL-Library.Multiset"
begin

text \<open>
  The reordering of the held queue (\<open>apply_reorder\<close>): the two passes over the ranks, first
  through negative values so that the primary key is never violated, amount to one
  renumbering that puts the moved message where it was asked and touches nothing else.
\<close>

section \<open>The vector operations\<close>

text \<open>The order that the caller asks for.\<close>

definition move_before :: "'a \<Rightarrow> 'a option \<Rightarrow> 'a list \<Rightarrow> 'a list" where
  "move_before x before xs =
     (if before = Some x then xs
      else let others = filter (\<lambda>y. y \<noteq> x) xs in
           case before of
             None \<Rightarrow> others @ [x]
           | Some b \<Rightarrow> takeWhile (\<lambda>y. y \<noteq> b) others @ x # dropWhile (\<lambda>y. y \<noteq> b) others)"

lemma position_eq:
  "position x xs = (if x \<in> set xs then Some (length (takeWhile (\<lambda>y. y \<noteq> x) xs)) else None)"
  by (induction xs) auto

lemma vec_remove_position:
  assumes "distinct xs" and "x \<in> set xs"
  shows "vec_remove (length (takeWhile (\<lambda>y. y \<noteq> x) xs)) xs = filter (\<lambda>y. y \<noteq> x) xs"
  using assms
proof (induction xs)
  case (Cons y ys)
  then show ?case
    by (cases "y = x") (auto simp: vec_remove_def intro!: filter_True [symmetric])
qed simp

lemma vec_insert_position:
  "vec_insert (length (takeWhile (\<lambda>y. y \<noteq> b) xs)) x xs = takeWhile (\<lambda>y. y \<noteq> b) xs @ x # dropWhile (\<lambda>y. y \<noteq> b) xs"
  by (simp add: vec_insert_def takeWhile_eq_take [symmetric] dropWhile_eq_drop [symmetric])

lemma move_before_set: "x \<in> set xs \<Longrightarrow> set (move_before x before xs) = set xs"
proof -
  assume x: "x \<in> set xs"
  have "set (takeWhile p ys @ x # dropWhile p ys) = insert x (set ys)" for p ys
    by (metis Un_insert_right list.simps(15) set_append takeWhile_dropWhile_id)
  with x show ?thesis by (auto simp: move_before_def Let_def split: option.split)
qed

lemma move_before_distinct:
  assumes "distinct xs"
  shows "distinct (move_before x before xs)"
proof -
  have "distinct (takeWhile p ys @ x # dropWhile p ys)" if "distinct ys" "x \<notin> set ys" for p ys
    using that by (metis distinct_append not_distinct_conv_prefix distinct.simps(2) takeWhile_dropWhile_id
      UnI1 UnI2 disjoint_insert(1) list.simps(15) set_append)
  with assms show ?thesis by (auto simp: move_before_def Let_def split: option.split)
qed

section \<open>One update of a rank\<close>

lemma sql_matches_only:
  assumes "distinct (map g rows)" and "r \<in> set rows" and "p r" and "\<And>x. p x \<Longrightarrow> g x = g r"
  shows "sql_matches p rows = 1"
proof -
  have "sql_matches p rows \<le> 1" using assms(1,4) by (intro sql_matches_le_1 [of g]) metis+
  moreover have "sql_matches p rows \<noteq> 0" using assms(2,3) by (auto simp: sql_matches_0_iff)
  ultimately show ?thesis by simp
qed

definition with_rank :: "int \<Rightarrow> DeliveryRow \<Rightarrow> DeliveryRow" where
  "with_rank rank d = d\<lparr>dr_queue_rank := rank\<rparr>"

lemma with_rank_simps [simp]:
  "dr_queue_rank (with_rank r d) = r" "dr_delivery_id (with_rank r d) = dr_delivery_id d"
  "dr_phase (with_rank r d) = dr_phase d" "dr_recipient_agent (with_rank r d) = dr_recipient_agent d"
  "with_rank r (with_rank q d) = with_rank r d" "with_rank (dr_queue_rank d) d = d"
  by (simp_all add: with_rank_def)

text \<open>The row with the identifier \<open>i\<close> gets the rank \<open>r\<close>.\<close>

definition set_rank :: "string \<Rightarrow> int \<Rightarrow> DeliveryRow table \<Rightarrow> DeliveryRow table" where
  "set_rank i r D = map (\<lambda>x. if dr_delivery_id x = i then with_rank r x else x) D"

lemma ids_set_rank [simp]: "map dr_delivery_id (set_rank i r D) = map dr_delivery_id D"
  by (simp add: set_rank_def)

lemma ranks_set_rank: "dr_queue_rank ` set (set_rank i r D) \<subseteq> insert r (dr_queue_rank ` set D)"
  by (auto simp: set_rank_def)

lemma in_set_rank: "x \<in> set D \<Longrightarrow> dr_delivery_id x \<noteq> i \<Longrightarrow> x \<in> set (set_rank i r D)"
  unfolding set_rank_def set_map by (rule image_eqI [of _ _ x]) simp_all

lemma update_rank_ok:
  assumes ids: "distinct (map dr_delivery_id (db_deliveries db))" and d: "d \<in> set (db_deliveries db)" "p d"
    and p: "\<And>x. p x \<Longrightarrow> dr_delivery_id x = dr_delivery_id d"
    and free: "rank \<notin> dr_queue_rank ` set (db_deliveries db)"
  shows "update_rank p rank db = Inr (db\<lparr>db_deliveries := set_rank (dr_delivery_id d) rank (db_deliveries db)\<rparr>)"
proof -
  have one: "sql_matches p (db_deliveries db) = 1"
    using ids d by (rule sql_matches_only) (rule p)
  have only: "p x \<longleftrightarrow> dr_delivery_id x = dr_delivery_id d" if "x \<in> set (db_deliveries db)" for x
    using distinct_map_eq [OF ids that d(1)] d(2) p by blast
  have "sql_update p (\<lambda>d. d\<lparr>dr_queue_rank := rank\<rparr>) (db_deliveries db) =
      set_rank (dr_delivery_id d) rank (db_deliveries db)"
    using only by (simp add: sql_update_def set_rank_def with_rank_def)
  moreover have "\<not> sql_exists (\<lambda>d. \<not> p d \<and> dr_queue_rank d = rank) (db_deliveries db)"
    using free by (auto simp: sql_exists_iff)
  ultimately show ?thesis using one by (simp add: update_rank_def)
qed

section \<open>The two passes\<close>

text \<open>Successive changes of rank, by identifier.\<close>

definition set_ranks :: "(string \<times> int) list \<Rightarrow> DeliveryRow table \<Rightarrow> DeliveryRow table" where
  "set_ranks pairs D = fold (\<lambda>(i, r). set_rank i r) pairs D"

lemma negate_ranks_ok:
  assumes "distinct (map dr_delivery_id (db_deliveries db))" and "set ds \<subseteq> set (db_deliveries db)"
    and "distinct (map dr_delivery_id ds)" and "distinct (map dr_queue_rank ds)"
    and "\<forall>d\<in>set ds. dr_recipient_agent d = agent \<and> dr_phase d = DHeld"
    and "\<forall>d\<in>set ds. - dr_queue_rank d \<notin> dr_queue_rank ` set (db_deliveries db)"
  shows "negate_ranks agent (map (\<lambda>d. (dr_delivery_id d, dr_queue_rank d)) ds) db =
    Inr (db\<lparr>db_deliveries := set_ranks (map (\<lambda>d. (dr_delivery_id d, - dr_queue_rank d)) ds) (db_deliveries db)\<rparr>)"
  using assms
proof (induction ds arbitrary: db)
  case (Cons d ds)
  let ?db1 = "db\<lparr>db_deliveries := set_rank (dr_delivery_id d) (- dr_queue_rank d) (db_deliveries db)\<rparr>"
  let ?p = "\<lambda>x. dr_delivery_id x = dr_delivery_id d \<and> dr_recipient_agent x = agent \<and> dr_phase x = DHeld \<and>
    dr_queue_rank x = dr_queue_rank d"
  have "update_rank ?p (- dr_queue_rank d) db = Inr ?db1"
    using Cons.prems by (intro update_rank_ok) auto
  moreover have "negate_ranks agent (map (\<lambda>d. (dr_delivery_id d, dr_queue_rank d)) ds) ?db1 =
    Inr (?db1\<lparr>db_deliveries := set_ranks (map (\<lambda>d. (dr_delivery_id d, - dr_queue_rank d)) ds) (db_deliveries ?db1)\<rparr>)"
  proof (rule Cons.IH)
    have other: "dr_delivery_id x \<noteq> dr_delivery_id d" "dr_queue_rank x \<noteq> dr_queue_rank d" if "x \<in> set ds" for x
      using Cons.prems(3,4) that by (auto simp: image_iff)
    then show "set ds \<subseteq> set (db_deliveries ?db1)" using Cons.prems(2) by (auto intro: in_set_rank)
    show "\<forall>x\<in>set ds. - dr_queue_rank x \<notin> dr_queue_rank ` set (db_deliveries ?db1)"
    proof
      fix x
      assume "x \<in> set ds"
      then have "- dr_queue_rank x \<notin> insert (- dr_queue_rank d) (dr_queue_rank ` set (db_deliveries db))"
        using Cons.prems(6) other(2) [of x] by auto
      then show "- dr_queue_rank x \<notin> dr_queue_rank ` set (db_deliveries ?db1)"
        using ranks_set_rank [of "dr_delivery_id d" "- dr_queue_rank d" "db_deliveries db"] by auto
    qed
  qed (use Cons.prems in simp_all)
  ultimately show ?case by (simp add: set_ranks_def)
qed (simp add: set_ranks_def)

lemma assign_ranks_ok:
  assumes "distinct (map dr_delivery_id (db_deliveries db))"
    and "distinct (map fst pairs)" and "distinct (map snd pairs)"
    and "\<forall>i\<in>set (map fst pairs). \<exists>x\<in>set (db_deliveries db). dr_delivery_id x = i \<and>
           dr_recipient_agent x = agent \<and> dr_phase x = DHeld \<and> dr_queue_rank x < 0"
    and "\<forall>r\<in>set (map snd pairs). r \<notin> dr_queue_rank ` set (db_deliveries db)"
  shows "assign_ranks agent pairs db = Inr (db\<lparr>db_deliveries := set_ranks pairs (db_deliveries db)\<rparr>)"
  using assms
proof (induction pairs arbitrary: db)
  case (Cons pair pairs)
  obtain i r where pair: "pair = (i, r)" by (cases pair)
  let ?db1 = "db\<lparr>db_deliveries := set_rank i r (db_deliveries db)\<rparr>"
  let ?p = "\<lambda>x. dr_delivery_id x = i \<and> dr_recipient_agent x = agent \<and> dr_phase x = DHeld \<and> dr_queue_rank x < 0"
  obtain d where d: "d \<in> set (db_deliveries db)" "?p d" using Cons.prems(4) pair by auto
  have "update_rank ?p r db = Inr ?db1"
    using update_rank_ok [OF Cons.prems(1) d(1), of ?p r] d(2) Cons.prems(5) pair by auto
  moreover have "assign_ranks agent pairs ?db1 =
    Inr (?db1\<lparr>db_deliveries := set_ranks pairs (db_deliveries ?db1)\<rparr>)"
  proof (rule Cons.IH)
    show "\<forall>j\<in>set (map fst pairs). \<exists>x\<in>set (db_deliveries ?db1). dr_delivery_id x = j \<and>
        dr_recipient_agent x = agent \<and> dr_phase x = DHeld \<and> dr_queue_rank x < 0"
    proof
      fix j
      assume j: "j \<in> set (map fst pairs)"
      then obtain x where x: "x \<in> set (db_deliveries db)" "dr_delivery_id x = j" "dr_recipient_agent x = agent"
        "dr_phase x = DHeld" "dr_queue_rank x < 0" using Cons.prems(4) pair by auto
      have "j \<noteq> i" using Cons.prems(2) pair j by auto
      with x show "\<exists>x\<in>set (db_deliveries ?db1). dr_delivery_id x = j \<and> dr_recipient_agent x = agent \<and>
          dr_phase x = DHeld \<and> dr_queue_rank x < 0"
        using in_set_rank [of x "db_deliveries db" i r] by auto
    qed
    show "\<forall>q\<in>set (map snd pairs). q \<notin> dr_queue_rank ` set (db_deliveries ?db1)"
    proof
      fix q
      assume "q \<in> set (map snd pairs)"
      then have "q \<notin> insert r (dr_queue_rank ` set (db_deliveries db))"
        using Cons.prems(3,5) pair by auto
      then show "q \<notin> dr_queue_rank ` set (db_deliveries ?db1)"
        using ranks_set_rank [of i r "db_deliveries db"] by auto
    qed
  qed (use Cons.prems pair in simp_all)
  ultimately show ?case by (simp add: pair set_ranks_def)
qed (simp add: set_ranks_def)

section \<open>The renumbering\<close>

definition renumber :: "(string \<times> int) list \<Rightarrow> DeliveryRow table \<Rightarrow> DeliveryRow table" where
  "renumber pairs D =
     map (\<lambda>x. case map_of pairs (dr_delivery_id x) of Some r \<Rightarrow> with_rank r x | None \<Rightarrow> x) D"

lemma set_ranks_renumber: "distinct (map fst pairs) \<Longrightarrow> set_ranks pairs D = renumber pairs D"
proof (induction pairs arbitrary: D)
  case (Cons pair pairs)
  obtain i r where pair: "pair = (i, r)" by (cases pair)
  have "map_of pairs i = None" using Cons.prems pair by (auto simp: map_of_eq_None_iff)
  then have "renumber pairs (set_rank i r D) = renumber (pair # pairs) D"
    by (auto simp: renumber_def set_rank_def pair split: option.split)
  with Cons show ?case by (simp add: set_ranks_def pair)
qed (simp add: set_ranks_def renumber_def)

lemma renumber_twice:
  assumes "fst ` set pairs = fst ` set pairs'"
  shows "renumber pairs (renumber pairs' D) = renumber pairs D"
proof -
  have dom: "map_of pairs i = None \<longleftrightarrow> map_of pairs' i = None" for i
    using assms by (auto simp: map_of_eq_None_iff)
  have "(case map_of pairs (dr_delivery_id (case map_of pairs' (dr_delivery_id x) of Some r \<Rightarrow> with_rank r x | None \<Rightarrow> x)) of
        Some r \<Rightarrow> with_rank r (case map_of pairs' (dr_delivery_id x) of Some r \<Rightarrow> with_rank r x | None \<Rightarrow> x)
      | None \<Rightarrow> (case map_of pairs' (dr_delivery_id x) of Some r \<Rightarrow> with_rank r x | None \<Rightarrow> x)) =
    (case map_of pairs (dr_delivery_id x) of Some r \<Rightarrow> with_rank r x | None \<Rightarrow> x)" for x
    using dom [of "dr_delivery_id x"]
    by (cases "map_of pairs' (dr_delivery_id x)"; cases "map_of pairs (dr_delivery_id x)") simp_all
  then show ?thesis by (simp add: renumber_def)
qed

text \<open>The held rows of an agent, in the order of the queue.\<close>

lemma held_rows_set: "set (held_rows agent db) = {d \<in> set (db_deliveries db). dr_recipient_agent d = agent \<and> dr_phase d = DHeld}"
  by (auto simp: held_rows_def)

lemma held_rows_distinct:
  assumes "distinct (map g (db_deliveries db))"
  shows "distinct (map g (held_rows agent db))"
proof -
  let ?F = "filter (\<lambda>d. dr_recipient_agent d = agent \<and> dr_phase d = DHeld) (db_deliveries db)"
  have "mset (held_rows agent db) = mset ?F" by (simp add: held_rows_def)
  then have "mset (map g (held_rows agent db)) = mset (map g ?F)" by simp
  moreover have "distinct (map g ?F)" using assms by (rule distinct_map_filter)
  ultimately show ?thesis using mset_eq_imp_distinct_iff by blast
qed

lemma held_rows_sorted: "sorted (map dr_queue_rank (held_rows agent db))"
  by (simp add: held_rows_def)

lemma renumber_same:
  assumes "distinct (map dr_delivery_id D)" and "set ds \<subseteq> set D"
  shows "renumber (map (\<lambda>d. (dr_delivery_id d, dr_queue_rank d)) ds) D = D"
  unfolding renumber_def
proof (rule map_idI)
  fix x
  assume x: "x \<in> set D"
  show "(case map_of (map (\<lambda>d. (dr_delivery_id d, dr_queue_rank d)) ds) (dr_delivery_id x) of
      None \<Rightarrow> x | Some r \<Rightarrow> with_rank r x) = x"
  proof (cases "map_of (map (\<lambda>d. (dr_delivery_id d, dr_queue_rank d)) ds) (dr_delivery_id x)")
    case (Some r)
    from map_of_SomeD [OF Some] obtain d where d: "d \<in> set ds" "dr_delivery_id d = dr_delivery_id x" "r = dr_queue_rank d"
      by auto
    then have "d = x" using distinct_map_eq [OF assms(1), of d x] assms(2) x by auto
    with Some d(3) show ?thesis by simp
  qed simp
qed

lemma renumber_ids [simp]: "map dr_delivery_id (renumber pairs D) = map dr_delivery_id D"
  by (simp add: renumber_def split: option.split)

text \<open>After the first pass the queue of the agent has negative ranks, the others their own.\<close>

lemma renumber_neg:
  assumes "distinct (map dr_delivery_id (db_deliveries db))"
  shows "renumber (map (\<lambda>d. (dr_delivery_id d, - dr_queue_rank d)) (held_rows agent db)) (db_deliveries db) =
    map (\<lambda>x. if x \<in> set (held_rows agent db) then with_rank (- dr_queue_rank x) x else x) (db_deliveries db)"
  unfolding renumber_def
proof (rule map_cong [OF refl])
  fix x
  assume x: "x \<in> set (db_deliveries db)"
  let ?pairs = "map (\<lambda>d. (dr_delivery_id d, - dr_queue_rank d)) (held_rows agent db)"
  have sub: "set (held_rows agent db) \<subseteq> set (db_deliveries db)" by (auto simp: held_rows_set)
  show "(case map_of ?pairs (dr_delivery_id x) of None \<Rightarrow> x | Some r \<Rightarrow> with_rank r x) =
      (if x \<in> set (held_rows agent db) then with_rank (- dr_queue_rank x) x else x)"
  proof (cases "map_of ?pairs (dr_delivery_id x)")
    case None
    then have "dr_delivery_id x \<notin> fst ` set ?pairs" by (simp only: map_of_eq_None_iff not_False_eq_True)
    then have "x \<notin> set (held_rows agent db)" by force
    with None show ?thesis by simp
  next
    case (Some r)
    from map_of_SomeD [OF Some] obtain d where d: "d \<in> set (held_rows agent db)" "dr_delivery_id d = dr_delivery_id x" "r = - dr_queue_rank d"
      by auto
    then have "d = x" using distinct_map_eq [OF assms, of d x] sub x by auto
    with Some d show ?thesis by simp
  qed
qed

lemma negated_rows:
  assumes "distinct (map dr_delivery_id (db_deliveries db))" and "\<forall>d\<in>set (db_deliveries db). 0 < dr_queue_rank d"
    and "d \<in> set (held_rows agent db)"
  shows "\<exists>x\<in>set (renumber (map (\<lambda>d. (dr_delivery_id d, - dr_queue_rank d)) (held_rows agent db)) (db_deliveries db)).
    dr_delivery_id x = dr_delivery_id d \<and> dr_recipient_agent x = agent \<and> dr_phase x = DHeld \<and> dr_queue_rank x < 0"
proof (rule bexI [of _ "with_rank (- dr_queue_rank d) d"])
  have "d \<in> set (db_deliveries db)" using assms(3) by (simp add: held_rows_set)
  with assms show "with_rank (- dr_queue_rank d) d \<in>
      set (renumber (map (\<lambda>d. (dr_delivery_id d, - dr_queue_rank d)) (held_rows agent db)) (db_deliveries db))"
    unfolding renumber_neg [OF assms(1)] set_map by (intro image_eqI [of _ _ d]) simp_all
qed (use assms in \<open>auto simp: held_rows_set\<close>)

lemma negated_ranks:
  assumes "distinct (map dr_delivery_id (db_deliveries db))" and "distinct (map dr_queue_rank (db_deliveries db))"
    and "\<forall>d\<in>set (db_deliveries db). 0 < dr_queue_rank d"
  shows "\<forall>d\<in>set (held_rows agent db). dr_queue_rank d \<notin> dr_queue_rank `
    set (renumber (map (\<lambda>d. (dr_delivery_id d, - dr_queue_rank d)) (held_rows agent db)) (db_deliveries db))"
proof (intro ballI notI)
  fix d
  assume d: "d \<in> set (held_rows agent db)" and "dr_queue_rank d \<in> dr_queue_rank `
    set (renumber (map (\<lambda>d. (dr_delivery_id d, - dr_queue_rank d)) (held_rows agent db)) (db_deliveries db))"
  then obtain x where x: "x \<in> set (db_deliveries db)"
    "dr_queue_rank d = dr_queue_rank (if x \<in> set (held_rows agent db) then with_rank (- dr_queue_rank x) x else x)"
    unfolding renumber_neg [OF assms(1)] by auto
  have "d \<in> set (db_deliveries db)" using d by (simp add: held_rows_set)
  then have "0 < dr_queue_rank d" "0 < dr_queue_rank x" using assms(3) x(1) by simp_all
  with x have "x \<notin> set (held_rows agent db)" "dr_queue_rank d = dr_queue_rank x" by (auto split: if_splits)
  with distinct_map_eq [OF assms(2) \<open>d \<in> set (db_deliveries db)\<close> x(1)] d show False by simp
qed

text \<open>What the vector operations compute when they find both messages.\<close>

lemma reorder_rows_unfold:
  assumes "distinct (map fst rows)" and did: "did \<in> set (map fst rows)"
    and before: "pred_option (\<lambda>b. b \<in> set (map fst rows)) before"
    and "\<not> list_ex (\<lambda>(_, rank). rank \<le> 0) rows"
  shows "reorder_rows agent did before rows db =
    (if map fst rows = move_before did before (map fst rows) then Inr db
     else q_bind (negate_ranks agent rows db)
            (assign_ranks agent (zip (move_before did before (map fst rows)) (map snd rows))))"
proof (cases "before = Some did")
  case True
  with assms show ?thesis by (simp add: reorder_rows_def position_eq move_before_def)
next
  case False
  let ?others = "filter (\<lambda>y. y \<noteq> did) (map fst rows)"
  have removed: "vec_remove (length (takeWhile (\<lambda>y. y \<noteq> did) (map fst rows))) (map fst rows) = ?others"
    using assms(1) did by (rule vec_remove_position)
  have "\<exists>dest. (case before of Some b \<Rightarrow> position b ?others | None \<Rightarrow> Some (length ?others)) = Some dest \<and>
      vec_insert dest did ?others = move_before did before (map fst rows)"
  proof (cases before)
    case None
    then show ?thesis by (simp add: vec_insert_def move_before_def Let_def)
  next
    case (Some b)
    then have "b \<in> set ?others" using before False by simp
    with Some False show ?thesis by (simp add: position_eq vec_insert_position move_before_def Let_def)
  qed
  then obtain dest where dest:
    "(case before of Some b \<Rightarrow> position b ?others | None \<Rightarrow> Some (length ?others)) = Some dest"
    "vec_insert dest did ?others = move_before did before (map fst rows)" by blast
  have pos: "position did (map fst rows) = Some (length (takeWhile (\<lambda>y. y \<noteq> did) (map fst rows)))"
    using did by (simp add: position_eq)
  show ?thesis unfolding reorder_rows_def Let_def pos
    using assms(4) False by (simp only: if_True if_False option.case removed dest)
qed

lemma delivery_facts:
  assumes "core_inv (core_of db)"
  shows "distinct (map dr_delivery_id (db_deliveries db))" and "distinct (map dr_queue_rank (db_deliveries db))"
    and "\<forall>d\<in>set (db_deliveries db). 0 < dr_queue_rank d"
  using assms by (simp_all add: core_of_def core_inv_iff deliveries_inv_def)

lemma held_facts:
  assumes "core_inv (core_of db)"
  shows "distinct (map dr_delivery_id (held_rows agent db))" and "distinct (map dr_queue_rank (held_rows agent db))"
    and "set (held_rows agent db) \<subseteq> set (db_deliveries db)"
  using delivery_facts [OF assms] held_rows_distinct by (auto simp: held_rows_set)

lemma first_pass:
  assumes "core_inv (core_of db)"
  shows "negate_ranks agent (map (\<lambda>d. (dr_delivery_id d, dr_queue_rank d)) (held_rows agent db)) db =
    Inr (db\<lparr>db_deliveries := renumber (map (\<lambda>d. (dr_delivery_id d, - dr_queue_rank d)) (held_rows agent db))
      (db_deliveries db)\<rparr>)"
proof -
  note facts = delivery_facts [OF assms] held_facts [OF assms, of agent]
  let ?ds = "held_rows agent db" and ?D = "db_deliveries db"
  let ?neg = "map (\<lambda>d. (dr_delivery_id d, - dr_queue_rank d)) ?ds"
  have "map fst ?neg = map dr_delivery_id ?ds" by simp
  then have "set_ranks ?neg ?D = renumber ?neg ?D" using facts(4) by (intro set_ranks_renumber) (simp only:)
  moreover have "negate_ranks agent (map (\<lambda>d. (dr_delivery_id d, dr_queue_rank d)) ?ds) db =
      Inr (db\<lparr>db_deliveries := set_ranks ?neg ?D\<rparr>)"
  proof (rule negate_ranks_ok)
    show "\<forall>d\<in>set ?ds. - dr_queue_rank d \<notin> dr_queue_rank ` set ?D"
    proof (intro ballI notI)
      fix d
      assume d: "d \<in> set ?ds" "- dr_queue_rank d \<in> dr_queue_rank ` set ?D"
      then obtain x where "x \<in> set ?D" "- dr_queue_rank d = dr_queue_rank x" by blast
      moreover have "0 < dr_queue_rank d" using facts(3,6) d(1) by blast
      ultimately show False using facts(3) by fastforce
    qed
  qed (use facts in \<open>auto simp: held_rows_set\<close>)
  ultimately show ?thesis by simp
qed

lemma two_passes:
  assumes inv: "core_inv (core_of db)" and new: "distinct new" "set new = set (map dr_delivery_id (held_rows agent db))"
  shows "q_bind (negate_ranks agent (map (\<lambda>d. (dr_delivery_id d, dr_queue_rank d)) (held_rows agent db)) db)
      (assign_ranks agent (zip new (map dr_queue_rank (held_rows agent db)))) =
    Inr (db\<lparr>db_deliveries := renumber (zip new (map dr_queue_rank (held_rows agent db))) (db_deliveries db)\<rparr>)"
proof -
  let ?ds = "held_rows agent db" and ?D = "db_deliveries db"
  let ?ids = "map dr_delivery_id ?ds" and ?ranks = "map dr_queue_rank ?ds"
  let ?neg = "map (\<lambda>d. (dr_delivery_id d, - dr_queue_rank d)) ?ds"
  let ?db1 = "db\<lparr>db_deliveries := renumber ?neg ?D\<rparr>"
  note facts = delivery_facts [OF inv] held_facts [OF inv, of agent]
  have "length new = length ?ds" using new facts(4) distinct_card by (metis length_map)
  then have pairs: "map fst (zip new ?ranks) = new" "map snd (zip new ?ranks) = ?ranks" by simp_all
  have "assign_ranks agent (zip new ?ranks) ?db1 =
      Inr (?db1\<lparr>db_deliveries := set_ranks (zip new ?ranks) (db_deliveries ?db1)\<rparr>)"
  proof (rule assign_ranks_ok)
    show "\<forall>i\<in>set (map fst (zip new ?ranks)). \<exists>x\<in>set (db_deliveries ?db1). dr_delivery_id x = i \<and>
        dr_recipient_agent x = agent \<and> dr_phase x = DHeld \<and> dr_queue_rank x < 0"
      unfolding pairs new(2) using negated_rows [OF facts(1,3)] by (auto simp: held_rows_set)
    show "\<forall>r\<in>set (map snd (zip new ?ranks)). r \<notin> dr_queue_rank ` set (db_deliveries ?db1)"
      unfolding pairs using negated_ranks [OF facts(1-3)] by simp
  qed (use facts new in \<open>simp_all add: pairs\<close>)
  moreover have "set_ranks (zip new ?ranks) (db_deliveries ?db1) = renumber (zip new ?ranks) ?D"
  proof -
    have "map fst ?neg = ?ids" by simp
    then have "fst ` set (zip new ?ranks) = fst ` set ?neg" using new(2) pairs(1) by (metis set_map)
    then show ?thesis using new(1) pairs(1) by (simp add: set_ranks_renumber renumber_twice)
  qed
  ultimately show ?thesis using first_pass [OF inv, of agent] by simp
qed

lemma reorder_rows_ok:
  assumes inv: "core_inv (core_of db)"
    and did: "did \<in> set (map dr_delivery_id (held_rows agent db))"
    and before: "pred_option (\<lambda>b. b \<in> set (map dr_delivery_id (held_rows agent db))) before"
  shows "reorder_rows agent did before (map (\<lambda>d. (dr_delivery_id d, dr_queue_rank d)) (held_rows agent db)) db =
    Inr (db\<lparr>db_deliveries := renumber (zip (move_before did before (map dr_delivery_id (held_rows agent db)))
      (map dr_queue_rank (held_rows agent db))) (db_deliveries db)\<rparr>)"
proof -
  let ?ds = "held_rows agent db" and ?D = "db_deliveries db"
  let ?ids = "map dr_delivery_id ?ds" and ?ranks = "map dr_queue_rank ?ds"
  let ?rows = "map (\<lambda>d. (dr_delivery_id d, dr_queue_rank d)) ?ds"
  let ?new = "move_before did before ?ids"
  note facts = delivery_facts [OF inv] held_facts [OF inv, of agent]
  have positive: "\<not> list_ex (\<lambda>(_, rank). rank \<le> 0) ?rows"
    using facts(3,6) by (fastforce simp: list_ex_iff)
  have rows: "map fst ?rows = ?ids" "map snd ?rows = ?ranks" by simp_all
  have split: "reorder_rows agent did before ?rows db =
    (if ?ids = ?new then Inr db else q_bind (negate_ranks agent ?rows db) (assign_ranks agent (zip ?new ?ranks)))"
    using reorder_rows_unfold [of ?rows did before agent db] facts(4) did before positive unfolding rows by blast
  show ?thesis
  proof (cases "?new = ?ids")
    case True
    have "renumber (zip ?ids ?ranks) ?D = ?D"
      using renumber_same [OF facts(1,6)] by (simp add: zip_map_map zip_same_conv_map comp_def)
    with True split show ?thesis by simp
  next
    case False
    with split two_passes [OF inv move_before_distinct [OF facts(4)] move_before_set [OF did]] show ?thesis by simp
  qed
qed

section \<open>The order afterwards\<close>

text \<open>A permutation \<open>new\<close> of the identifiers, numbered with the ranks of the queue.\<close>

lemma renumber_row:
  assumes inv: "core_inv (core_of db)" and new: "distinct new" "set new = set (map dr_delivery_id (held_rows agent db))"
    and x: "x \<in> set (db_deliveries db)"
  shows "case map_of (zip new (map dr_queue_rank (held_rows agent db))) (dr_delivery_id x) of
      Some r \<Rightarrow> x \<in> set (held_rows agent db) \<and> r \<in> set (map dr_queue_rank (held_rows agent db))
    | None \<Rightarrow> x \<notin> set (held_rows agent db)"
proof -
  let ?ds = "held_rows agent db"
  let ?pairs = "zip new (map dr_queue_rank ?ds)"
  note facts = delivery_facts [OF inv] held_facts [OF inv, of agent]
  have "length new = length ?ds" using new facts(4) distinct_card by (metis length_map)
  then have dom: "dom (map_of ?pairs) = set new" by (simp add: dom_map_of_zip)
  show ?thesis
  proof (cases "map_of ?pairs (dr_delivery_id x)")
    case None
    then have "dr_delivery_id x \<notin> set new" using dom by blast
    with None new(2) show ?thesis by auto
  next
    case (Some r)
    then have "dr_delivery_id x \<in> set new" using dom by blast
    then obtain d where "d \<in> set ?ds" "dr_delivery_id d = dr_delivery_id x" using new(2) by auto
    then have "x \<in> set ?ds" using distinct_map_eq [OF facts(1), of d x] facts(6) x by auto
    moreover have "r \<in> set (map dr_queue_rank ?ds)" using map_of_SomeD [OF Some] by (auto dest: set_zip_rightD)
    ultimately show ?thesis using Some by simp
  qed
qed

lemma zip_rank_inj:
  assumes "distinct rs" and "map_of (zip is rs) i = Some r" and "map_of (zip is rs) j = Some r"
  shows "i = j"
proof -
  obtain m n where "m < length is" "n < length is" "m < length rs" "n < length rs"
    "is ! m = i" "rs ! m = r" "is ! n = j" "rs ! n = r"
    using map_of_SomeD [OF assms(2)] map_of_SomeD [OF assms(3)] by (auto simp: in_set_zip)
  then show ?thesis using assms(1) by (metis nth_eq_iff_index_eq)
qed

lemma inj_on_exchange:
  assumes f: "inj_on f S" and "T \<subseteq> S" and h: "inj_on h T" and "h ` T \<subseteq> f ` T"
  shows "inj_on (\<lambda>x. if x \<in> T then h x else f x) S"
proof (rule inj_onI)
  fix x y
  assume xy: "x \<in> S" "y \<in> S" "(if x \<in> T then h x else f x) = (if y \<in> T then h y else f y)"
  have mixed: False if "u \<in> T" "v \<in> S" "v \<notin> T" "h u = f v" for u v
  proof -
    obtain w where "w \<in> T" "h u = f w" using assms(4) \<open>u \<in> T\<close> by blast
    with that assms(2) have "w = v" using inj_onD [OF f, of w v] by auto
    with \<open>w \<in> T\<close> \<open>v \<notin> T\<close> show False by simp
  qed
  show "x = y"
  proof (cases "x \<in> T"; cases "y \<in> T")
    assume "x \<in> T" "y \<in> T"
    with xy(3) show ?thesis by (intro inj_onD [OF h]) simp_all
  next
    assume "x \<in> T" "y \<notin> T"
    with xy mixed [of x y] show ?thesis by simp
  next
    assume "x \<notin> T" "y \<in> T"
    with xy mixed [of y x] show ?thesis by simp
  next
    assume "x \<notin> T" "y \<notin> T"
    with xy show ?thesis by (intro inj_onD [OF f]) simp_all
  qed
qed

lemma renumber_renumbered:
  assumes inv: "core_inv (core_of db)" and new: "distinct new" "set new = set (map dr_delivery_id (held_rows agent db))"
  shows "renumbered (db_deliveries db)
    (renumber (zip new (map dr_queue_rank (held_rows agent db))) (db_deliveries db))"
proof -
  let ?ds = "held_rows agent db" and ?D = "db_deliveries db"
  let ?pairs = "zip new (map dr_queue_rank ?ds)"
  let ?h = "\<lambda>x. the (map_of ?pairs (dr_delivery_id x))"
  let ?g = "\<lambda>x. if x \<in> set ?ds then ?h x else dr_queue_rank x"
  note facts = delivery_facts [OF inv] held_facts [OF inv, of agent] and row = renumber_row [OF inv new]
  have row': "(case map_of ?pairs (dr_delivery_id x) of Some r \<Rightarrow> with_rank r x | None \<Rightarrow> x) =
      (if x \<in> set ?ds then with_rank (?h x) x else x)" if "x \<in> set ?D" for x
    using row [OF that] by (cases "map_of ?pairs (dr_delivery_id x)") auto
  have D': "renumber ?pairs ?D = map (\<lambda>x. if x \<in> set ?ds then with_rank (?h x) x else x) ?D"
    unfolding renumber_def using row' by simp
  then have ranks: "map dr_queue_rank (renumber ?pairs ?D) = map ?g ?D" by simp
  have some: "\<exists>r. map_of ?pairs (dr_delivery_id x) = Some r \<and> r \<in> dr_queue_rank ` set ?ds" if "x \<in> set ?ds" for x
    using row [of x] facts(6) that by (cases "map_of ?pairs (dr_delivery_id x)") auto
  have sub: "?h ` set ?ds \<subseteq> dr_queue_rank ` set ?ds" using some by fastforce
  have "inj_on ?h (set ?ds)"
  proof (rule inj_onI)
    fix x y
    assume xy: "x \<in> set ?ds" "y \<in> set ?ds" "?h x = ?h y"
    obtain r where "map_of ?pairs (dr_delivery_id x) = Some r" "map_of ?pairs (dr_delivery_id y) = Some r"
      using some [OF xy(1)] some [OF xy(2)] xy(3) by auto
    then have "dr_delivery_id x = dr_delivery_id y" by (rule zip_rank_inj [OF facts(5)])
    then show "x = y" using distinct_map_eq [OF facts(4) xy(1,2)] by simp
  qed
  with facts(2,6) sub have "inj_on ?g (set ?D)" by (intro inj_on_exchange) (simp_all add: distinct_map)
  moreover have "distinct ?D" using facts(1) by (simp add: distinct_map)
  ultimately have "distinct (map dr_queue_rank (renumber ?pairs ?D))" unfolding ranks by (simp add: distinct_map)
  moreover have "set (map dr_queue_rank (renumber ?pairs ?D)) \<subseteq> set (map dr_queue_rank ?D)"
    unfolding ranks using sub facts(6) by auto
  moreover have "list_all2 (\<lambda>d d'. d' = d \<or> dr_phase d = DHeld \<and> (\<exists>rank. d' = d\<lparr>dr_queue_rank := rank\<rparr>)) ?D (renumber ?pairs ?D)"
    unfolding D' list_all2_map2 by (auto simp: list_all2_same with_rank_def held_rows_set)
  ultimately show ?thesis by (simp add: renumbered_def)
qed

lemma held_rows_renumber:
  assumes inv: "core_inv (core_of db)" and new: "distinct new" "set new = set (map dr_delivery_id (held_rows agent db))"
  shows "map dr_delivery_id (held_rows agent
    (db\<lparr>db_deliveries := renumber (zip new (map dr_queue_rank (held_rows agent db))) (db_deliveries db)\<rparr>)) = new"
proof -
  let ?ds = "held_rows agent db" and ?D = "db_deliveries db"
  let ?pairs = "zip new (map dr_queue_rank ?ds)"
  let ?db' = "db\<lparr>db_deliveries := renumber ?pairs ?D\<rparr>"
  let ?zs = "held_rows agent ?db'" and ?pair = "\<lambda>d. (dr_delivery_id d, dr_queue_rank d)"
  note facts = delivery_facts [OF inv] held_facts [OF inv, of agent] and row = renumber_row [OF inv new]
  have "length new = length ?ds" using new facts(4) distinct_card by (metis length_map)
  then have pairs: "map fst ?pairs = new" "map snd ?pairs = map dr_queue_rank ?ds" by simp_all
  have z: "?pair z \<in> set ?pairs" if zs: "z \<in> set ?zs" for z
  proof -
    obtain x where x: "x \<in> set ?D"
      "z = (case map_of ?pairs (dr_delivery_id x) of Some r \<Rightarrow> with_rank r x | None \<Rightarrow> x)"
      using zs by (auto simp: held_rows_set renumber_def)
    moreover have "dr_recipient_agent z = agent" "dr_phase z = DHeld" using zs by (simp_all add: held_rows_set)
    ultimately have "x \<in> set ?ds" by (auto simp: held_rows_set split: option.splits)
    then obtain r where "map_of ?pairs (dr_delivery_id x) = Some r"
      using row [OF x(1)] by (cases "map_of ?pairs (dr_delivery_id x)") auto
    with x(2) show ?thesis by (auto dest: map_of_SomeD)
  qed
  have "set (map ?pair ?zs) = set ?pairs"
  proof
    show "set (map ?pair ?zs) \<subseteq> set ?pairs" using z by auto
    show "set ?pairs \<subseteq> set (map ?pair ?zs)"
    proof
      fix ir
      assume ir: "ir \<in> set ?pairs"
      then have "fst ir \<in> set new" using pairs(1) by (metis image_eqI set_map)
      then obtain d where d: "d \<in> set ?ds" "dr_delivery_id d = fst ir" using new(2) by auto
      have "map_of ?pairs (fst ir) = Some (snd ir)" using ir pairs(1) new(1) by (intro map_of_is_SomeI) simp_all
      then have "with_rank (snd ir) d \<in> set (renumber ?pairs ?D)"
        using d facts(6) unfolding renumber_def set_map by (intro image_eqI [of _ _ d]) auto
      then have "with_rank (snd ir) d \<in> set ?zs" using d(1) by (simp add: held_rows_set)
      then show "ir \<in> set (map ?pair ?zs)" using d(2) by (auto intro!: image_eqI [of _ _ "with_rank (snd ir) d"] prod_eqI)
    qed
  qed
  moreover have "distinct (map dr_queue_rank (renumber ?pairs ?D))"
    using renumber_renumbered [OF inv new] by (simp add: renumbered_def)
  then have "distinct (map dr_queue_rank ?zs)" by (intro held_rows_distinct) simp
  moreover have "distinct (map snd ?pairs)" using facts(5) pairs(2) by simp
  then have "inj_on snd (set ?pairs)" by (simp add: distinct_map)
  ultimately have "map ?pair ?zs = ?pairs"
    using facts(5) pairs(2) held_rows_sorted [of agent ?db'] held_rows_sorted [of agent db]
    by (intro map_sorted_distinct_set_unique [of snd]) (simp_all add: comp_def)
  then have "map fst (map ?pair ?zs) = new" using pairs(1) by simp
  then show ?thesis by (simp add: comp_def)
qed

section \<open>The edit\<close>

lemma case_single_Some:
  "(case xs of [] \<Rightarrow> None | [d] \<Rightarrow> Some (f d) | d # e # ys \<Rightarrow> None) = Some y \<longleftrightarrow> (\<exists>d. xs = [d] \<and> f d = y)"
  by (cases xs; cases "tl xs") auto

lemma unique_held_in_queue:
  assumes "unique_held_public_id codec agent mid db = Some did"
  shows "did \<in> set (map dr_delivery_id (held_rows agent db))"
proof -
  let ?rows = "sort_key dr_queue_rank (filter (\<lambda>d. dr_recipient_agent d = agent \<and> dr_phase d = DHeld \<and>
      Option.bind (dr_message_bytes d) (json_id codec) = Some mid) (db_deliveries db))"
  obtain d where d: "take 2 ?rows = [d]" "dr_delivery_id d = did"
    using assms unfolding unique_held_public_id_def case_single_Some by blast
  have "d \<in> set (take 2 ?rows)" unfolding d(1) by simp
  then have "d \<in> set ?rows" by (rule in_set_takeD)
  then have "d \<in> set (held_rows agent db)" by (simp add: held_rows_set)
  with d(2) show ?thesis by auto
qed

definition resolve_before :: "Codec \<Rightarrow> string \<Rightarrow> string option \<Rightarrow> Db \<Rightarrow> string option option" where
  "resolve_before codec agent before_mid db =
     (case before_mid of
        Some b \<Rightarrow> map_option Some (unique_held_public_id codec agent b db) | None \<Rightarrow> Some None)"

definition reordered_db :: "string \<Rightarrow> string \<Rightarrow> string option \<Rightarrow> Db \<Rightarrow> Db" where
  "reordered_db agent did before db =
     db\<lparr>db_deliveries := renumber (zip (move_before did before (map dr_delivery_id (held_rows agent db)))
       (map dr_queue_rank (held_rows agent db))) (db_deliveries db)\<rparr>"

lemma reorder_apply_eq:
  assumes "core_inv (core_of db)"
  shows "reorder_apply codec agent mid before_mid db =
    (case unique_held_public_id codec agent mid db of
       None \<Rightarrow> Inr ((None, None, Inl (''not_held'', None)), db)
     | Some did \<Rightarrow>
         (case resolve_before codec agent before_mid db of
            None \<Rightarrow> Inr ((Some did, None, Inl (''not_held'', None)), db)
          | Some before \<Rightarrow> Inr ((Some did, before, Inr ()), reordered_db agent did before db)))"
proof (cases "unique_held_public_id codec agent mid db")
  case (Some did)
  have in_queue: "pred_option (\<lambda>b. b \<in> set (map dr_delivery_id (held_rows agent db))) before"
    if "resolve_before codec agent before_mid db = Some before" for before
    using that unique_held_in_queue by (cases before_mid) (auto simp: resolve_before_def)
  show ?thesis
  proof (cases "resolve_before codec agent before_mid db")
    case (Some before)
    with in_queue have "reorder_rows agent did before
        (map (\<lambda>d. (dr_delivery_id d, dr_queue_rank d)) (held_rows agent db)) db = Inr (reordered_db agent did before db)"
      unfolding reordered_db_def
      by (intro reorder_rows_ok assms unique_held_in_queue [OF \<open>unique_held_public_id codec agent mid db = Some did\<close>])
    then show ?thesis using Some \<open>unique_held_public_id codec agent mid db = Some did\<close>
      by (simp add: reorder_apply_def resolve_before_def)
  qed (simp add: Some reorder_apply_def resolve_before_def)
qed (simp add: reorder_apply_def)

lemma reordered_steps:
  assumes "core_inv (core_of db)" and "did \<in> set (map dr_delivery_id (held_rows agent db))"
  shows "core_steps A (core_of db) (core_of (reordered_db agent did before db))"
proof -
  have "renumbered (db_deliveries db) (db_deliveries (reordered_db agent did before db))"
    unfolding reordered_db_def
    using renumber_renumbered [OF assms(1) move_before_distinct [OF held_facts(1) [OF assms(1)]]
      move_before_set [OF assms(2)]] by simp
  then have "core_step A (core_of db) (core_of (reordered_db agent did before db))"
    unfolding core_of_def by (simp add: reordered_db_def core_renumber)
  then show ?thesis by (rule r_into_rtranclp)
qed

lemma apply_reorder_steps [store_refinement]:
  assumes "apply_reorder codec scope rid canonical actor agent mid before_mid now db = Inr (res, db')"
    and inv: "core_inv (core_of db)"
  shows "core_steps A (core_of db) (core_of db')"
proof -
  obtain x where x: "queue_edit_once scope rid canonical EditReorder actor now
      (reorder_apply codec agent mid before_mid) db = Inr (x, db')"
    using assms(1) by (auto simp: apply_reorder_def q_bind_Inr_iff split: prod.splits)
  show ?thesis
  proof (rule queue_edit_steps [OF x])
    fix y db1
    assume "reorder_apply codec agent mid before_mid db = Inr (y, db1)"
    then have "db1 = db \<or> (\<exists>did before. unique_held_public_id codec agent mid db = Some did \<and>
        db1 = reordered_db agent did before db)"
      unfolding reorder_apply_eq [OF inv] by (auto split: option.splits)
    then show "core_steps A (core_of db) (core_of db1)"
      using reordered_steps [OF inv unique_held_in_queue] by auto
  qed
qed

text \<open>Where the moved message ends up, and what stays.\<close>

lemma reordered_queue:
  assumes "core_inv (core_of db)" and "did \<in> set (map dr_delivery_id (held_rows agent db))"
  shows "map dr_delivery_id (held_rows agent (reordered_db agent did before db)) =
    move_before did before (map dr_delivery_id (held_rows agent db))"
  unfolding reordered_db_def
  by (rule held_rows_renumber [OF assms(1) move_before_distinct [OF held_facts(1) [OF assms(1)]]
      move_before_set [OF assms(2)]])

lemma filter_map_fixed:
  assumes "\<And>x. x \<in> set xs \<Longrightarrow> P (f x) = P x \<and> (P x \<longrightarrow> f x = x)"
  shows "filter P (map f xs) = filter P xs"
  using assms by (induction xs) auto

lemma reordered_rest:
  assumes "core_inv (core_of db)" and "did \<in> set (map dr_delivery_id (held_rows agent db))"
  shows "filter (\<lambda>d. dr_phase d \<noteq> DHeld \<or> dr_recipient_agent d \<noteq> agent) (db_deliveries (reordered_db agent did before db)) =
    filter (\<lambda>d. dr_phase d \<noteq> DHeld \<or> dr_recipient_agent d \<noteq> agent) (db_deliveries db)"
proof -
  let ?pairs = "zip (move_before did before (map dr_delivery_id (held_rows agent db))) (map dr_queue_rank (held_rows agent db))"
  note row = renumber_row [OF assms(1) move_before_distinct [OF held_facts(1) [OF assms(1)]]
      move_before_set [OF assms(2)]]
  let ?f = "\<lambda>x. case map_of ?pairs (dr_delivery_id x) of Some r \<Rightarrow> with_rank r x | None \<Rightarrow> x"
  let ?out = "\<lambda>d. dr_phase d \<noteq> DHeld \<or> dr_recipient_agent d \<noteq> agent"
  have "filter ?out (map ?f (db_deliveries db)) = filter ?out (db_deliveries db)"
  proof (rule filter_map_fixed)
    fix x
    assume "x \<in> set (db_deliveries db)"
    from row [OF this, of before] show "?out (?f x) = ?out x \<and> (?out x \<longrightarrow> ?f x = x)"
      by (auto simp: held_rows_set split: option.splits)
  qed
  then show ?thesis by (simp add: reordered_db_def renumber_def)
qed

end
