(* ===== verification/Store_Machine.thy ===== *)
theory Store_Machine
  imports Queue_Order
begin

text \<open>
  The idempotent store as a machine: one constructor per operation that changes the
  database, executed one after the other in any order, with any arguments, by any number
  of connections (each operation is a SQLite transaction; \<open>OpReserveLate\<close> is the second
  statement of a reservation during which another connection acted). \<open>OpElsewhere\<close> is a
  write of another store to the tables that this one only reads or closes.
\<close>

section \<open>Operations\<close>

datatype store_op =
    OpReserve IdempotencyKey string int int int int
  | OpReserveLate IdempotencyKey string int int int
  | OpTransition IdempotencyKey RecordState RecordState
  | OpFinalize IdempotencyKey PublicResult
  | OpReject IdempotencyKey string string
  | OpBegin int IdempotencyKey SendDelivery "ReplyTracking option" "DeliveryExecutionLink option"
      "guidance_admission option" "nat option" "string option"
  | OpLink DeliveryExecutionLink
  | OpReassign string string int
  | OpAdopt string string bool int
  | OpResume string int
  | OpIndeterminate string string nat
  | OpSettleExpired int
  | OpOrphan string string int
  | OpNotified string int
  | OpAck int string string nat int
  | OpSettleHeld string string int
  | OpRelease string int
  | OpClearGate string
  | OpCancel string string string string string string int
  | OpReorder string string string string string string "string option" int
  | OpPromote string string string string string string GuidanceFacts "GuidanceRefusal \<Rightarrow> string" int
  | OpPurgeEdits int
  | OpPurgeExpired int
  | OpPurgeSends int int
  | OpElsewhere "RequestRow table" "InterruptionRow table" "GuichetRow table" ControlDb

datatype store_reply =
    RUnit
  | RReserved Reservation
  | RCount nat
  | RDeliveries "SendDelivery list"
  | RNotices "OrphanedDeliveryNotice list"
  | RAnswered "string option"
  | RWithdrawn "OrphanedDeliveryNotice option"
  | RReleased "SendDelivery option" "OrphanedDeliveryNotice option"
  | RCancelled QueueEditReceipt "OrphanedDeliveryNotice option"
  | RReordered QueueEditReceipt "unit option"
  | RPromoted QueueEditReceipt "SendDelivery option" "OrphanedDeliveryNotice option"

definition replying :: "('a \<Rightarrow> store_reply) \<Rightarrow> ('a \<times> Db) outcome \<Rightarrow> (store_reply \<times> Db) outcome" where
  "replying f x = q_bind x (\<lambda>(r, db). Inr (f r, db))"

fun store_exec :: "Codec \<Rightarrow> store_op \<Rightarrow> Db \<Rightarrow> (store_reply \<times> Db) outcome" where
  "store_exec codec (OpReserve key c issued horizon now tolerance) db =
     replying RReserved (reserve key c issued horizon now tolerance db)"
| "store_exec codec (OpReserveLate key c issued expires now) db =
     replying RReserved (reserve_insert key c issued expires now db)"
| "store_exec codec (OpTransition key a b) db = replying (\<lambda>_. RUnit) (record_transition key a b db)"
| "store_exec codec (OpFinalize key result) db = replying (\<lambda>_. RUnit) (finalize key result db)"
| "store_exec codec (OpReject key category reason) db =
     replying (\<lambda>_. RUnit) (reject_prepared key category reason db)"
| "store_exec codec (OpBegin ts key delivery tracking link guidance cap held) db =
     replying (\<lambda>_. RUnit)
       (begin_send_delivery_with_guidance codec ts key delivery tracking link guidance cap held db)"
| "store_exec codec (OpLink link) db = replying (\<lambda>_. RUnit) (link_send_delivery link db)"
| "store_exec codec (OpReassign a b now) db =
     replying RCount (Inr (reassign_dispatching_deliveries codec a b now db))"
| "store_exec codec (OpAdopt agent inst recover ts) db =
     replying RCount (adopt_held_for_agent codec agent inst recover ts db)"
| "store_exec codec (OpResume inst now) db =
     replying RDeliveries (dispatching_deliveries_for_instance inst now db)"
| "store_exec codec (OpIndeterminate did inst gen) db =
     replying (\<lambda>_. RUnit) (mark_delivery_indeterminate did inst gen db)"
| "store_exec codec (OpSettleExpired now) db = replying RCount (Inr (settle_expired_dispatching now db))"
| "store_exec codec (OpOrphan inst reason ts) db =
     replying RNotices (orphan_dispatching_for_instance codec inst reason ts db)"
| "store_exec codec (OpNotified did now) db = Inr (RUnit, mark_orphan_emitter_notified did now db)"
| "store_exec codec (OpAck ts did inst gen now) db =
     replying RAnswered (acknowledge_send_delivery_at codec ts did inst gen now db)"
| "store_exec codec (OpSettleHeld did reason now) db = replying RWithdrawn (settle_held codec did reason now db)"
| "store_exec codec (OpRelease agent now) db =
     replying (\<lambda>(d, n). RReleased d n) (release_next_held codec agent now db)"
| "store_exec codec (OpClearGate agent) db = Inr (RUnit, clear_held_turn_gate agent db)"
| "store_exec codec (OpCancel scope rid canonical actor agent mid now) db =
     replying (\<lambda>(r, n). RCancelled r n) (apply_cancel codec scope rid canonical actor agent mid now db)"
| "store_exec codec (OpReorder scope rid canonical actor agent mid before now) db =
     replying (\<lambda>(r, u). RReordered r u)
       (apply_reorder codec scope rid canonical actor agent mid before now db)"
| "store_exec codec (OpPromote scope rid canonical actor agent mid facts code now) db =
     replying (\<lambda>(r, d, n). RPromoted r d n)
       (apply_promote codec scope rid canonical actor agent mid facts code now db)"
| "store_exec codec (OpPurgeEdits now) db = replying RCount (Inr (purge_queue_edits now db))"
| "store_exec codec (OpPurgeExpired now) db = replying RCount (Inr (purge_expired now db))"
| "store_exec codec (OpPurgeSends now grace) db = replying RCount (Inr (purge_expired_sends now grace db))"
| "store_exec codec (OpElsewhere requests interruptions deposits control) db =
     Inr (RUnit, db\<lparr>db_requests := requests, db_interruptions := interruptions, db_guichet := deposits,
                    db_control := control\<rparr>)"

text \<open>The permissions that an operation needs: a purge needs the rows past its horizon.\<close>

fun permits :: "store_op \<Rightarrow> permission set" where
  "permits (OpFinalize key result) = {MayFinalize key}"
| "permits (OpBegin ts key delivery tracking link guidance cap held) = MayInsert ` {d. begins key delivery held d}"
| "permits (OpPurgeExpired now) = MayPurge ` {r. rr_expires_at r \<le> now}"
| "permits (OpPurgeSends now grace) =
     MayPurge ` {r. operation_kind (rr_key r) = OpSend \<and> rr_expires_at r \<le> saturating_sub now grace}"
| "permits _ = {}"

lemma replying_Inr: "replying f x = Inr (r, db') \<longleftrightarrow> (\<exists>v. x = Inr (v, db') \<and> r = f v)"
  by (auto simp: replying_def q_bind_Inr_iff)

lemma store_exec_steps:
  assumes "store_exec codec x db = Inr (r, db')" and "core_inv (core_of db)"
  shows "core_steps (permits x) (core_of db) (core_of db')"
  using assms
  by (cases x)
    (auto simp: replying_Inr settle_held_def mark_orphan_emitter_notified_def purge_queue_edits_def image_iff
      intro: store_refinement reserve_insert_steps)

section \<open>The store contracts\<close>

definition store_inv :: "Db \<Rightarrow> bool" where
  "store_inv db \<longleftrightarrow> core_inv (core_of db)"

lemma store_inv_empty: "store_inv db_empty"
  by (simp add: store_inv_def db_empty_def core_of_def core_inv_iff deliveries_inv_def)

lemma store_inv_records: "store_inv db \<Longrightarrow> records_inv db"
  by (simp add: store_inv_def core_of_def core_inv_iff records_inv_def)

text \<open>The settled record of a key, and the operations that purge it.\<close>

definition settled_record :: "IdempotencyKey \<Rightarrow> Db \<Rightarrow> RecordRow option" where
  "settled_record key db =
     (case load_record key db of
        Some r \<Rightarrow> if rr_state r = Terminal then Some r else None
      | None \<Rightarrow> None)"

definition purges :: "store_op \<Rightarrow> IdempotencyKey \<Rightarrow> Db \<Rightarrow> bool" where
  "purges x key db \<longleftrightarrow> (case load_record key db of Some r \<Rightarrow> MayPurge r \<in> permits x | None \<Rightarrow> False)"

lemma permits_purge_dates:
  assumes "MayPurge r \<in> permits x" and "rr_key r' = rr_key r" and "rr_expires_at r' = rr_expires_at r"
  shows "MayPurge r' \<in> permits x"
  using assms by (cases x) auto

lemma store_exec_record:
  assumes "store_exec codec x db = Inr (res, db')" and "store_inv db" and "load_record key db = Some r"
    and "\<not> purges x key db"
  shows "\<exists>r'. load_record key db' = Some r' \<and> record_step r r'"
proof -
  have steps: "core_steps (permits x) (core_of db) (core_of db')"
    using assms(1,2) by (intro store_exec_steps) (simp_all add: store_inv_def)
  have r: "r \<in> set (db_records db)" "rr_key r = key" using load_record_SomeD [OF assms(3)] by simp_all
  have "\<forall>r'. record_step r r' \<longrightarrow> MayPurge r' \<notin> permits x"
  proof (intro allI impI notI)
    fix r'
    assume "record_step r r'" and "MayPurge r' \<in> permits x"
    then have "MayPurge r \<in> permits x" using permits_purge_dates [of r' x r] by (simp add: record_step_def)
    with assms(3,4) show False by (simp add: purges_def)
  qed
  with steps r(1) obtain r' where r': "r' \<in> set (db_records db')" "record_step r r'"
    using core_steps_record [of "permits x" "core_of db" "core_of db'" r] by (auto simp: core_of_def)
  have "store_inv db'" using core_steps_inv [OF steps] assms(2) by (simp add: store_inv_def)
  then have "load_record (rr_key r') db' = Some r'" using r'(1) by (intro load_record_member store_inv_records)
  moreover have "rr_key r' = key" using r'(2) r(2) by (simp add: record_step_def)
  ultimately show ?thesis using r'(2) by auto
qed

interpretation store: durable_store "store_exec codec" store_inv settled_record purges for codec
proof unfold_locales
  fix x db r db'
  assume "store_inv db" and "store_exec codec x db = Inr (r, db')"
  then show "store_inv db'" using core_steps_inv [OF store_exec_steps] by (simp add: store_inv_def)
next
  fix db key v x r db'
  assume "store_inv db" and settled: "settled_record key db = Some v" and "store_exec codec x db = Inr (r, db')"
    and "\<not> purges x key db"
  moreover have v: "load_record key db = Some v" "rr_state v = Terminal"
    using settled by (auto simp: settled_record_def split: option.splits if_splits)
  ultimately obtain r' where "load_record key db' = Some r'" "record_step v r'"
    using store_exec_record [of codec x db r db' key v] by blast
  with v(2) show "settled_record key db' = Some v" by (simp add: settled_record_def record_step_def)
qed

end
