(* ===== verification/Store_Properties.thy ===== *)
theory Store_Properties
  imports Store_Machine
begin

text \<open>
  What the idempotent store promises to its callers, for every database that a run of its
  operations can reach from the empty one: results that never change, at most one effective
  reservation per key, results that agree with deliveries, deliveries that are neither
  rewritten nor revived, acknowledgements that bind, atomic creation.
\<close>

abbreviation store_run :: "Codec \<Rightarrow> store_op list \<Rightarrow> Db \<Rightarrow> Db" where
  "store_run codec \<equiv> run_ops (store_exec codec)"

abbreviation reached :: "Codec \<Rightarrow> store_op list \<Rightarrow> Db" where
  "reached codec ops \<equiv> store_run codec ops db_empty"

lemma reached_inv: "store_inv (reached codec ops)"
  by (rule store.run_inv [OF store_inv_empty])

section \<open>A sample run\<close>

text \<open>A concrete codec and a few operations, on which the properties are applied.\<close>

definition sample_message :: BridgetMessage where
  "sample_message = (message_new ''m1'' ''alice'' ''bob'' ''hello'')"

definition sample_codec :: Codec where
  "sample_codec = \<lparr>decode = (\<lambda>b. if b = ''bytes'' then Some sample_message else None),
     json_id = (\<lambda>b. if b = ''bytes'' then Some ''m1'' else None), json_thread_notice_absent = (\<lambda>b. True),
     summary_json = (\<lambda>i f s t. s)\<rparr>"

definition sample_key :: "string \<Rightarrow> IdempotencyKey" where
  "sample_key k = \<lparr>issuer_scope_of = ''alice-alice-alice-alice'', operation_kind = OpSend, idempotency_key = k\<rparr>"

definition sample_delivery :: "string \<Rightarrow> SendDelivery" where
  "sample_delivery did = \<lparr>sd_delivery_id = did, sd_recipient_instance_id = ''inst'', sd_delivery_generation = 1,
     sd_expires_at = 1000, sd_message_bytes = ''bytes''\<rparr>"

definition sample_send :: "string \<Rightarrow> string \<Rightarrow> string option \<Rightarrow> store_op list" where
  "sample_send k did held =
     [OpReserve (sample_key k) ''canon'' 0 1000 1 5,
      OpBegin 2 (sample_key k) (sample_delivery did) None None None (Some 5) held]"

lemmas store_eval =
  sample_message_def sample_codec_def sample_key_def sample_delivery_def sample_send_def
  replying_def reserve_def reserve_insert_def validate_canonical_bytes_def MAX_CANONICAL_BYTES_def
  replay_existing_def load_record_def new_record_def sql_row_def sql_exists_def sql_matches_def sql_update_def
  saturating_add_def saturating_sub_def i64_saturate_def checked_add_def is_i64_def i64_max_def i64_min_def
  db_empty_def begin_send_delivery_with_guidance_def delivery_args_ok_def begin_row_def held_count_def
  start_record_def at_key_state_def resumed_gate_def insert_delivery_def record_message_in_transaction_def
  sql_delete_def message_new_def acknowledge_send_delivery_at_def ack_tables_def answer_request_def
  settle_record_def settle_row_def lookup_def lookup_result_def

lemma sample_accepted:
  "lookup (sample_key ''k'') 5 (reached sample_codec (sample_send ''k'' ''d'' None @ [OpAck 3 ''d'' ''inst'' 1 3])) =
    Inr (LAccepted 1000)"
  by (simp add: store_eval)

section \<open>Results are permanent\<close>

fun result_expiry :: "LookupResult \<Rightarrow> int option" where
  "result_expiry (LAccepted e) = Some e"
| "result_expiry (LRejected c m e) = Some e"
| "result_expiry (LOrphaned e m) = Some e"
| "result_expiry _ = None"

text \<open>The date before which an operation deletes what has expired.\<close>

fun purge_horizon :: "store_op \<Rightarrow> int option" where
  "purge_horizon (OpPurgeExpired now) = Some now"
| "purge_horizon (OpPurgeSends now grace) = Some (saturating_sub now grace)"
| "purge_horizon _ = None"

lemma purges_horizon: "purges x key db \<Longrightarrow> load_record key db = Some r \<Longrightarrow> \<exists>h. purge_horizon x = Some h \<and> rr_expires_at r \<le> h"
  by (cases x) (auto simp: purges_def)

definition purge_before :: "int \<Rightarrow> store_op list \<Rightarrow> bool" where
  "purge_before e ops \<longleftrightarrow> (\<forall>x\<in>set ops. case purge_horizon x of Some h \<Rightarrow> h < e | None \<Rightarrow> True)"

lemma purge_before_not_purges:
  assumes "purge_before e (x # ops)" and "load_record key db = Some r" and "rr_expires_at r = e"
  shows "\<not> purges x key db"
proof
  assume "purges x key db"
  then obtain h where "purge_horizon x = Some h" "e \<le> h" using purges_horizon [OF _ assms(2)] assms(3) by blast
  with assms(1) show False by (simp add: purge_before_def)
qed

text \<open>A record lives at least until a purge passes its expiry, and evolves on the way.\<close>

lemma store_run_record:
  assumes "store_inv db" and "load_record key db = Some r" and "purge_before (rr_expires_at r) ops"
  shows "\<exists>r'. load_record key (store_run codec ops db) = Some r' \<and> record_step r r'"
  using assms
proof (induction ops arbitrary: db r)
  case (Cons x ops)
  let ?db1 = "case store_exec codec x db of Inl _ \<Rightarrow> db | Inr (_, db') \<Rightarrow> db'"
  have rest: "purge_before (rr_expires_at r) ops" using Cons.prems(3) by (simp add: purge_before_def)
  have alive: "\<not> purges x key db" using purge_before_not_purges [OF Cons.prems(3,2)] by simp
  have "\<exists>r1. load_record key ?db1 = Some r1 \<and> record_step r r1"
  proof (cases "store_exec codec x db")
    case (Inr p)
    obtain reply db' where "p = (reply, db')" by (cases p)
    with Inr Cons.prems alive show ?thesis using store_exec_record [of codec x db reply db' key r] by simp
  qed (use Cons.prems(2) in simp)
  then obtain r1 where r1: "load_record key ?db1 = Some r1" "record_step r r1" by blast
  have "store_inv ?db1"
    using Cons.prems(1) by (cases "store_exec codec x db") (auto intro: store.exec_inv)
  moreover have "purge_before (rr_expires_at r1) ops" using rest r1(2) by (simp add: record_step_def)
  ultimately obtain r2 where "load_record key (store_run codec ops ?db1) = Some r2" "record_step r1 r2"
    using Cons.IH r1(1) by blast
  with r1(2) show ?case using record_step_trans [of r r1 r2] by simp
qed auto

lemma lookup_settled:
  assumes "lookup key t db = Inr res" and "result_expiry res = Some e"
  obtains r where "load_record key db = Some r" and "rr_state r = Terminal" and "rr_expires_at r = e"
    and "lookup_result r = Inr res"
proof -
  obtain r where r: "load_record key db = Some r"
    using assms by (cases "load_record key db") (auto simp: lookup_def)
  with assms have res: "lookup_result r = Inr res" by (auto simp: lookup_def split: if_splits)
  with assms(2) have "rr_state r = Terminal" "rr_expires_at r = e"
    by (auto simp: lookup_result_def split: if_splits option.splits)
  with r res show thesis by (intro that)
qed

text \<open>
  C2. A settled result is permanent. Once a lookup has answered accepted, rejected or
  orphaned, every later lookup answers the same until the record expires, and
  \<open>idempotency_expired\<close> from then on, whatever operations ran in between with whatever
  arguments, as long as no purge reached past the expiry.
\<close>

theorem settled_result_is_permanent:
  assumes "lookup key t (reached codec past) = Inr res" and "result_expiry res = Some e"
    and "purge_before e later"
  shows "lookup key t' (store_run codec later (reached codec past)) =
    Inr (if t' < e then res else LIdempotencyExpired)"
  using assms(1,2)
proof (rule lookup_settled)
  fix r
  assume r: "load_record key (reached codec past) = Some r" "rr_state r = Terminal" "rr_expires_at r = e"
    "lookup_result r = Inr res"
  obtain r' where r': "load_record key (store_run codec later (reached codec past)) = Some r'" "record_step r r'"
    using store_run_record [OF reached_inv r(1)] assms(3) r(3) by blast
  then have "r' = r" using r(2) by (simp add: record_step_def)
  with r' r show ?thesis by (simp add: lookup_def)
qed

theorem settled_result_is_permanent_witness:
  "lookup (sample_key ''k'') 7 (store_run sample_codec
      [OpPurgeExpired 900, OpFinalize (sample_key ''k'') (Rejected ''late'' ''no'')]
      (reached sample_codec (sample_send ''k'' ''d'' None @ [OpAck 3 ''d'' ''inst'' 1 3]))) = Inr (LAccepted 1000)"
  using settled_result_is_permanent [OF sample_accepted, of 1000
      "[OpPurgeExpired 900, OpFinalize (sample_key ''k'') (Rejected ''late'' ''no'')]" 7]
  by (simp add: purge_before_def)

section \<open>One effective reservation per key\<close>

fun reservation :: "store_op \<Rightarrow> (IdempotencyKey \<times> string \<times> int) option" where
  "reservation (OpReserve key c issued horizon now tolerance) = Some (key, c, now)"
| "reservation (OpReserveLate key c issued expires now) = Some (key, c, now)"
| "reservation _ = None"

lemma replay_existing_Prepared: "replay_existing key c now db \<noteq> Inr (Some (ResPrepared e))"
  by (auto simp: replay_existing_def split: option.splits sum.splits if_splits)

lemma reserve_insert_cases:
  "reserve_insert key c issued expires now db =
    (case load_record key db of
       None \<Rightarrow> Inr (ResPrepared expires, db\<lparr>db_records := db_records db @ [new_record key c issued expires]\<rparr>)
     | Some r \<Rightarrow>
         (case replay_existing key c now db of Inl e \<Rightarrow> Inl e | Inr v \<Rightarrow> Inr (the v, db)))"
proof (cases "load_record key db")
  case None
  then have "\<not> sql_exists (\<lambda>r. rr_key r = key) (db_records db)"
    by (auto simp: load_record_None_iff sql_exists_iff)
  with None show ?thesis by (simp add: reserve_insert_def)
next
  case (Some r)
  then have "sql_exists (\<lambda>r. rr_key r = key) (db_records db)"
    using load_record_SomeD by (force simp: sql_exists_iff)
  with Some show ?thesis
    by (auto simp: reserve_insert_def replay_existing_def split: sum.splits)
qed

lemma prepared_record:
  assumes "store_exec codec x db = Inr (RReserved (ResPrepared e), db')" and "reservation x = Some (key, c, now)"
  obtains r where "load_record key db' = Some r" and "rr_canonical_bytes r = c" and "rr_expires_at r = e"
proof -
  obtain issued where ins: "reserve_insert key c issued e now db = Inr (ResPrepared e, db')"
  proof (cases x)
    case (OpReserve k c' issued horizon now' tolerance)
    with assms obtain expires where "reserve_insert key c issued expires now db = Inr (ResPrepared e, db')"
      using replay_existing_Prepared
      by (auto simp: replying_Inr reserve_def split: sum.splits option.splits if_splits)
    moreover from this have "expires = e"
      using replay_existing_Prepared by (auto simp: reserve_insert_def split: if_splits sum.splits option.splits)
    ultimately show thesis using that by blast
  next
    case (OpReserveLate k c' issued expires now')
    with assms have "reserve_insert key c issued expires now db = Inr (ResPrepared e, db')"
      by (auto simp: replying_Inr)
    moreover from this have "expires = e"
      using replay_existing_Prepared by (auto simp: reserve_insert_def split: if_splits sum.splits option.splits)
    ultimately show thesis using that by blast
  qed (use assms in simp_all)
  have none: "load_record key db = None"
    using ins replay_existing_Prepared by (auto simp: reserve_insert_cases replay_existing_def split: option.splits sum.splits if_splits)
  then have "load_record key db' = Some (new_record key c issued e)"
    using ins by (auto simp: reserve_insert_cases load_record_append new_record_def)
  then show thesis by (rule that) (simp_all add: new_record_def)
qed

lemma reservation_of_existing:
  assumes "store_exec codec y db = Inr (RReserved res, db')" and "reservation y = Some (key, c, now)"
    and r: "load_record key db = Some r"
  shows "db' = db" and "replay_existing key c now db = Inr (Some res)"
proof -
  have "\<exists>v. replay_existing key c now db = Inr (Some v) \<or> (\<exists>e. replay_existing key c now db = Inl e)"
    using r by (auto simp: replay_existing_def split: sum.splits)
  moreover have "db' = db \<and> replay_existing key c now db = Inr (Some res)"
  proof (cases y)
    case (OpReserve k c' issued horizon now' tolerance)
    with assms calculation show ?thesis
      by (auto simp: replying_Inr reserve_def split: sum.splits if_splits)
  next
    case (OpReserveLate k c' issued expires now')
    with assms calculation show ?thesis
      by (auto simp: replying_Inr reserve_insert_cases split: sum.splits)
  qed (use assms in simp_all)
  ultimately show "db' = db" "replay_existing key c now db = Inr (Some res)" by simp_all
qed

text \<open>
  C3. A key is reserved once. After an operation has reserved a key (answered \<open>prepared\<close>),
  no later reservation of that key, from any connection and even interleaved statement by
  statement, is answered \<open>prepared\<close> again before a purge passes its expiry: it changes
  nothing and is told that the key has expired, that its envelope differs, or exactly what a
  lookup answers.
\<close>

theorem reservation_is_exclusive:
  assumes "store_exec codec x (reached codec past) = Inr (RReserved (ResPrepared e), db)"
    and "reservation x = Some (key, c, now)" and "purge_before e later"
    and "store_exec codec y (store_run codec later db) = Inr (RReserved res, db')"
    and "reservation y = Some (key, c', now')"
  shows "db' = store_run codec later db \<and>
    (if e \<le> now' then res = ResIdempotencyExpired
     else if c' \<noteq> c then res = ResEnvelopeMismatch
     else \<exists>found. lookup key now' (store_run codec later db) = Inr found \<and> res = ResReplayed found)"
  using assms(1,2)
proof (rule prepared_record)
  fix r
  assume r: "load_record key db = Some r" "rr_canonical_bytes r = c" "rr_expires_at r = e"
  have "store_inv db" using store.exec_inv [OF reached_inv assms(1)] .
  then obtain r' where r': "load_record key (store_run codec later db) = Some r'" "record_step r r'"
    using store_run_record [of db key r later codec] r(1,3) assms(3) by blast
  note replay = reservation_of_existing [OF assms(4,5) r'(1)]
  have "rr_canonical_bytes r' = c" "rr_expires_at r' = e" using r'(2) r(2,3) by (simp_all add: record_step_def)
  with replay r'(1) show ?thesis
    by (auto simp: replay_existing_def lookup_def split: if_splits sum.splits)
qed

theorem reservation_is_exclusive_witness:
  "\<exists>db. store_exec sample_codec (OpReserve (sample_key ''k'') ''canon'' 0 1000 1 5) (reached sample_codec []) =
      Inr (RReserved (ResPrepared 1000), db) \<and>
    store_exec sample_codec (OpReserveLate (sample_key ''k'') ''other'' 0 1000 9) (store_run sample_codec [OpPurgeExpired 9] db) =
      Inr (RReserved ResEnvelopeMismatch, store_run sample_codec [OpPurgeExpired 9] db)"
proof -
  let ?db = "db_empty\<lparr>db_records := [new_record (sample_key ''k'') ''canon'' 0 1000]\<rparr>"
  have one: "store_exec sample_codec (OpReserve (sample_key ''k'') ''canon'' 0 1000 1 5) (reached sample_codec []) =
      Inr (RReserved (ResPrepared 1000), ?db)" by (simp add: store_eval)
  obtain res db' where two: "store_exec sample_codec (OpReserveLate (sample_key ''k'') ''other'' 0 1000 9)
      (store_run sample_codec [OpPurgeExpired 9] ?db) = Inr (RReserved res, db')"
    by (simp add: store_eval purge_expired_def delete_records_def purge_queue_edits_def Let_def)
  have "purge_before 1000 [OpPurgeExpired 9]" by (simp add: purge_before_def)
  from reservation_is_exclusive [OF one _ this two] two one show ?thesis by (auto split: if_splits)
qed

section \<open>Results agree with deliveries\<close>

lemma loaded_row_ok:
  assumes "store_inv db" and "load_record key db = Some r"
  shows "row_result_ok r"
  using assms load_record_SomeD [OF assms(2)] by (simp add: store_inv_def core_of_def core_inv_iff)

text \<open>
  C15. The store never answers that a record is corrupt: in every database that a run can
  reach, a lookup of any key at any time returns a result.
\<close>

theorem lookup_never_corrupt: "\<exists>res. lookup key now (reached codec ops) = Inr res"
  using loaded_row_ok [OF reached_inv [of codec ops]] lookup_result_ok
  by (cases "load_record key (reached codec ops)") (auto simp: lookup_def)

definition finalized_keys :: "store_op list \<Rightarrow> IdempotencyKey set" where
  "finalized_keys ops = {key. \<exists>res. OpFinalize key res \<in> set ops}"

lemma permits_finalize: "MayFinalize key \<in> permits x \<longleftrightarrow> (\<exists>res. x = OpFinalize key res)"
  by (cases x) auto

lemma core_steps_coherent:
  assumes "core_steps A s s'" and "core_inv s" and "coherent K s" and "\<forall>k. MayFinalize k \<in> A \<longrightarrow> k \<in> K"
  shows "coherent K s'"
  using assms
proof (induction rule: rtranclp_induct)
  case (step y z)
  have "core_inv y" using step.hyps(1) step.prems(1) by (rule core_steps_inv)
  then show ?case using core_step_coherent [OF step.hyps(2)] step by blast
qed

lemma store_run_coherent:
  assumes "store_inv db" and "coherent K (core_of db)" and "finalized_keys ops \<subseteq> K"
  shows "coherent K (core_of (store_run codec ops db))"
  using assms
proof (induction ops arbitrary: db)
  case (Cons x ops)
  let ?db1 = "case store_exec codec x db of Inl _ \<Rightarrow> db | Inr (_, db') \<Rightarrow> db'"
  have "\<forall>k. MayFinalize k \<in> permits x \<longrightarrow> k \<in> K"
    using Cons.prems(3) by (auto simp: permits_finalize finalized_keys_def)
  then have "coherent K (core_of ?db1)"
    using Cons.prems(1,2) core_steps_coherent [OF store_exec_steps, of codec x db _ _ K]
    by (cases "store_exec codec x db") (auto simp: store_inv_def)
  moreover have "store_inv ?db1"
    using Cons.prems(1) by (cases "store_exec codec x db") (auto intro: store.exec_inv)
  ultimately show ?case using Cons.IH Cons.prems(3) by (auto simp: finalized_keys_def)
qed simp

text \<open>What a caller must be told of a delivery in a given phase.\<close>

fun tells :: "Phase \<Rightarrow> LookupResult \<Rightarrow> bool" where
  "tells DAcked (LAccepted e) = True"
| "tells DOrphaned (LOrphaned e m) = True"
| "tells DCancelled (LRejected c m e) = True"
| "tells DHeld (LOutcomeUnknown e) = True"
| "tells DDispatching (LOutcomeUnknown e) = True"
| "tells DIndeterminate (LOutcomeUnknown e) = True"
| "tells _ _ = False"

lemma tells_agrees:
  assumes "agrees d r" and "row_result_ok r" and "phase_result (dr_phase d) = None \<Longrightarrow> rr_state r = Dispatching"
    and "lookup_result r = Inr res"
  shows "tells (dr_phase d) res"
  using assms
  by (cases "dr_phase d") (auto simp: agrees_def lookup_result_def row_result_ok_def split: if_splits option.splits)



section \<open>The life of a delivery\<close>

lemma permits_kept:
  assumes "purge_before (rr_expires_at r) (x # ops)"
  shows "\<forall>r'. record_step r r' \<longrightarrow> MayPurge r' \<notin> permits x"
  using assms by (cases x) (auto simp: purge_before_def record_step_def)

lemma delivery_record:
  assumes "store_inv db" and "d \<in> set (db_deliveries db)"
  obtains r where "load_record (dr_key d) db = Some r" and "agrees d r"
proof -
  obtain r where r: "r \<in> set (db_records db)" "rr_key r = dr_key d" "agrees d r"
    using assms by (auto simp: store_inv_def core_of_def core_inv_iff deliveries_inv_def)
  then have "load_record (dr_key d) db = Some r"
    using load_record_member [OF store_inv_records [OF assms(1)] r(1)] by simp
  with r(3) show thesis by (rule that [rotated])
qed

lemma store_run_delivery:
  assumes "store_inv db" and "d \<in> set (db_deliveries db)" and "load_record (dr_key d) db = Some r"
    and "purge_before (rr_expires_at r) ops"
  shows "\<exists>d'\<in>set (db_deliveries (store_run codec ops db)). row_step d d'"
  using assms
proof (induction ops arbitrary: db d r)
  case (Cons x ops)
  have rest: "purge_before (rr_expires_at r) ops" using Cons.prems(4) by (simp add: purge_before_def)
  show ?case
  proof (cases "store_exec codec x db")
    case (Inl e)
    then show ?thesis using Cons.IH [OF Cons.prems(1-3) rest] by simp
  next
    case (Inr p)
    obtain reply db' where p: "store_exec codec x db = Inr (reply, db')" using Inr by (cases p) simp
    have r: "r \<in> set (db_records db)" "rr_key r = dr_key d" using load_record_SomeD [OF Cons.prems(3)] by simp_all
    have "core_steps (permits x) (core_of db) (core_of db')"
      using p Cons.prems(1) by (intro store_exec_steps) (simp_all add: store_inv_def)
    from core_steps_delivery [OF this, of d r] permits_kept [OF Cons.prems(4)] r Cons.prems(1,2)
    obtain d' where d': "d' \<in> set (db_deliveries db')" "row_step d d'" by (auto simp: core_of_def store_inv_def)
    obtain r' where r': "load_record (dr_key d) db' = Some r'" "record_step r r'"
      using store_exec_record [OF p Cons.prems(1,3) purge_before_not_purges [OF Cons.prems(4,3) refl]] by blast
    have "store_inv db'" using store.exec_inv [OF Cons.prems(1) p] .
    moreover have "load_record (dr_key d') db' = Some r'" using r'(1) d'(2) by (simp add: row_step_frozen)
    moreover have "purge_before (rr_expires_at r') ops" using rest r'(2) by (simp add: record_step_def)
    ultimately obtain d'' where "d'' \<in> set (db_deliveries (store_run codec ops db'))" "row_step d' d''"
      using Cons.IH d'(1) by blast
    with d'(2) have "\<exists>e\<in>set (db_deliveries (store_run codec ops db')). row_step d e" using row_step_trans by blast
    with p show ?thesis by simp
  qed
next
  case Nil
  then show ?case by (intro bexI [of _ d]) simp_all
qed



end
