(* ===== verification/Delivery_Properties.thy ===== *)
theory Delivery_Properties
  imports Store_Properties
begin

text \<open>
  What the transactions on deliveries promise: who may acknowledge and what an
  acknowledgement settles, what the creation of a delivery writes at once, what an
  orphaning leaves, and that a queue never grows past its capacity.
\<close>

section \<open>Acknowledgement\<close>

lemma reached_core: "core_inv (core_of (reached codec ops))"
  using reached_inv by (simp add: store_inv_def)

lemma run_core:
  assumes "core_inv (core_of db)" and "store_exec codec x db = Inr (r, db')"
  shows "core_inv (core_of db')"
  using store.exec_inv [of db codec x r db'] assms by (simp add: store_inv_def)

text \<open>The delivery that an acknowledgement names, when it may be acknowledged.\<close>

definition ackable :: "string \<Rightarrow> string \<Rightarrow> nat \<Rightarrow> Db \<Rightarrow> DeliveryRow \<Rightarrow> bool" where
  "ackable did inst gen db d \<longleftrightarrow>
     d \<in> set (db_deliveries db) \<and> dr_delivery_id d = did \<and> dr_recipient_instance_id d = inst \<and>
     dr_delivery_generation d = gen \<and>
     (dr_phase d = DAcked \<or>
      dr_phase d = DDispatching \<and> (\<exists>r. load_record (dr_key d) db = Some r \<and> rr_state r = Dispatching))"

lemma one_record:
  assumes "core_inv (core_of db)"
  shows "sql_matches (at_key_state key st) (db_records db) = 1 \<longleftrightarrow>
    (\<exists>r. load_record key db = Some r \<and> rr_state r = st)"
proof -
  have "distinct (map rr_key (db_records db))" using assms by (simp add: core_of_def core_inv_iff)
  from sql_matches_key [OF this, of key "\<lambda>r. rr_state r = st"] show ?thesis
    by (auto simp: at_key_state_def [abs_def] load_record_def split: option.splits)
qed

lemma ack_succeeds:
  assumes inv: "core_inv (core_of db)" and d: "ackable did inst gen db d"
  shows "\<exists>res db'. acknowledge_send_delivery_at codec ts did inst gen now db = Inr (res, db')"
proof -
  note ids = delivery_facts(1) [OF inv]
  have row: "sql_row (\<lambda>d. dr_delivery_id d = did) (db_deliveries db) = Some d"
    using sql_row_member [OF ids] d by (simp add: ackable_def)
  show ?thesis
  proof (cases "dr_phase d = DAcked")
    case True
    with row d show ?thesis by (simp add: acknowledge_send_delivery_at_def ackable_def)
  next
    case False
    with d have ph: "dr_phase d = DDispatching" and "sql_matches (at_key_state (dr_key d) Dispatching) (db_records db) = 1"
      using one_record [OF inv, of "dr_key d" Dispatching] by (auto simp: ackable_def)
    moreover have "sql_matches (\<lambda>x. dr_delivery_id x = dr_delivery_id d \<and> dr_phase x = DDispatching)
        (db_deliveries db) = 1"
      using d ph by (intro sql_matches_only [OF ids, of d]) (simp_all add: ackable_def)
    ultimately show ?thesis using row d
      by (simp add: acknowledge_send_delivery_at_def ackable_def ack_tables_def settle_record_def
          Let_def split: prod.split)
  qed
qed

lemma ack_effect:
  assumes inv: "core_inv (core_of db)"
    and ack: "acknowledge_send_delivery_at codec ts did inst gen now db = Inr (res, db')"
  shows "\<exists>d. ackable did inst gen db d \<and>
    (\<exists>d'\<in>set (db_deliveries db'). dr_delivery_id d' = did \<and> dr_recipient_instance_id d' = inst \<and>
       dr_delivery_generation d' = gen \<and> dr_phase d' = DAcked \<and> dr_key d' = dr_key d)"
  using ack
proof (cases rule: acknowledge_Inr)
  case (replayed d)
  with sql_row_SomeD [OF replayed(1)] show ?thesis by (auto simp: ackable_def)
next
  case (ended d)
  have d: "d \<in> set (db_deliveries db)" "dr_delivery_id d = did" using sql_row_SomeD [OF ended(1)] by simp_all
  then have "ackable did inst gen db d"
    using ended(2-5) one_record [OF inv, of "dr_key d" Dispatching] by (simp add: ackable_def)
  moreover have "d\<lparr>dr_phase := DAcked, dr_acked_at := (case dr_acked_at d of Some a \<Rightarrow> Some a | None \<Rightarrow> Some now)\<rparr>
      \<in> set (db_deliveries (acked_db d now db))"
    using d ended(2) by (auto simp: ack_tables_def settle_record_def Let_def set_sql_update)
  then have "\<exists>d'\<in>set (db_deliveries db'). dr_delivery_id d' = did \<and> dr_recipient_instance_id d' = inst \<and>
      dr_delivery_generation d' = gen \<and> dr_phase d' = DAcked \<and> dr_key d' = dr_key d"
    using ended(3,4,6) d(2) by (auto simp: core_of_def elim!: bexI [rotated])
  ultimately show ?thesis by blast
qed

lemma acked_again:
  assumes "core_inv (core_of db)" and "d \<in> set (db_deliveries db)" and "dr_phase d = DAcked"
  shows "acknowledge_send_delivery_at codec ts (dr_delivery_id d) (dr_recipient_instance_id d)
      (dr_delivery_generation d) now db = Inr (None, db)"
  using sql_row_member [OF delivery_facts(1) [OF assms(1)] assms(2) refl] assms(3)
  by (simp add: acknowledge_send_delivery_at_def)

lemma acked_lookup:
  assumes "core_inv (core_of db)" and "d \<in> set (db_deliveries db)" and "dr_phase d = DAcked"
  obtains r where "load_record (dr_key d) db = Some r"
    and "lookup (dr_key d) t db = Inr (if t < rr_expires_at r then LAccepted (rr_expires_at r) else LIdempotencyExpired)"
proof -
  obtain r where r: "load_record (dr_key d) db = Some r" "agrees d r"
    using delivery_record [of db d] assms by (auto simp: store_inv_def)
  moreover from this have "row_result_ok r" using loaded_row_ok assms(1) by (auto simp: store_inv_def)
  ultimately show thesis using assms(3)
    by (intro that [OF r(1)]) (auto simp: lookup_def agrees_def lookup_result_def row_result_ok_def)
qed

text \<open>
  C4. An acknowledgement binds. In every reachable database it succeeds exactly when it names
  a delivery by its identifier, its current recipient instance and its generation, and that
  delivery is already acknowledged, or in flight with a record that waits for a result; from
  then on the key is looked up as accepted until it expires, and the same acknowledgement sent
  again, at any date, succeeds without answering a request again and without any change.
\<close>

theorem acknowledgement_binds:
  "((\<exists>res db'. acknowledge_send_delivery_at codec ts did inst gen now (reached codec ops) = Inr (res, db')) \<longleftrightarrow>
      (\<exists>d. ackable did inst gen (reached codec ops) d)) \<and>
    (\<forall>res db' d. acknowledge_send_delivery_at codec ts did inst gen now (reached codec ops) = Inr (res, db') \<and>
        ackable did inst gen (reached codec ops) d \<longrightarrow>
      acknowledge_send_delivery_at codec ts' did inst gen now' db' = Inr (None, db') \<and>
      (\<exists>e. lookup (dr_key d) t db' = Inr (if t < e then LAccepted e else LIdempotencyExpired)))"
proof -
  let ?db = "reached codec ops"
  have inv: "core_inv (core_of ?db)" by (rule reached_core)
  have "acknowledge_send_delivery_at codec ts' did inst gen now' db' = Inr (None, db') \<and>
      (\<exists>e. lookup (dr_key d) t db' = Inr (if t < e then LAccepted e else LIdempotencyExpired))"
    if ack: "acknowledge_send_delivery_at codec ts did inst gen now ?db = Inr (res, db')" and d: "ackable did inst gen ?db d"
    for res db' d
  proof -
    obtain d1 d' where d1: "ackable did inst gen ?db d1" and
      d': "d' \<in> set (db_deliveries db')" "dr_delivery_id d' = did" "dr_recipient_instance_id d' = inst"
        "dr_delivery_generation d' = gen" "dr_phase d' = DAcked" "dr_key d' = dr_key d1"
      using ack_effect [OF inv ack] by blast
    have "d1 = d" using distinct_map_eq [OF delivery_facts(1) [OF inv]] d d1 by (auto simp: ackable_def)
    have inv': "core_inv (core_of db')" by (rule core_steps_inv [OF acknowledge_steps [OF ack, of "{}"] inv])
    show ?thesis
      using acked_again [OF inv' d'(1,5)] acked_lookup [OF inv' d'(1,5), of t] d'(2-4,6) \<open>d1 = d\<close> by metis
  qed
  then show ?thesis using ack_succeeds [OF inv] ack_effect [OF inv] by blast
qed

theorem acknowledgement_binds_witness:
  "\<exists>res db'. acknowledge_send_delivery_at sample_codec 3 ''d'' ''inst'' 1 3
      (reached sample_codec (sample_send ''k'' ''d'' None)) = Inr (res, db') \<and>
    acknowledge_send_delivery_at sample_codec 9 ''d'' ''inst'' 1 9 db' = Inr (None, db')"
proof -
  let ?db = "reached sample_codec (sample_send ''k'' ''d'' None)"
  obtain res db' where ack: "acknowledge_send_delivery_at sample_codec 3 ''d'' ''inst'' 1 3 ?db = Inr (res, db')"
    by (simp add: store_eval)
  then obtain d where "ackable ''d'' ''inst'' 1 ?db d"
    using ack_effect [OF reached_core] by blast
  with ack acknowledgement_binds [of sample_codec 3 "''d''" "''inst''" 1 3 "sample_send ''k'' ''d'' None" 9 9]
  show ?thesis by blast
qed

section \<open>Creation\<close>

lemma begin_refused:
  assumes "core_inv (core_of db)" and "load_record key db = Some r" and "rr_state r \<noteq> Prepared"
  shows "\<exists>e. begin_send_delivery_with_guidance codec ts key delivery tracking link guidance cap held db = Inl e"
proof (cases "begin_send_delivery_with_guidance codec ts key delivery tracking link guidance cap held db")
  case (Inr p)
  obtain u db' where "begin_send_delivery_with_guidance codec ts key delivery tracking link guidance cap held db = Inr (u, db')"
    using Inr by (cases p) simp
  then have "sql_matches (at_key_state key Prepared) (db_records db) = 1" by (rule begin_Inr)
  with assms show ?thesis by (simp add: one_record [OF assms(1), simplified])
qed simp

text \<open>What the rest of the transaction writes beside the core.\<close>

lemma begin_rest:
  assumes "(case tracking of Some r \<Rightarrow> insert_request r (record_message_in_transaction ts msg ck db3)
      | None \<Rightarrow> Inr (record_message_in_transaction ts msg ck db3)) = Inr db4"
    and "(case guidance of Some g \<Rightarrow> insert_guidance g db4 | None \<Rightarrow> Inr db4) = Inr db'"
  shows "\<exists>l\<in>set (db_ledger db'). lg_id l = msg_id msg \<and> lg_sender l = msg_from msg \<and>
      lg_target l = msg_to msg \<and> lg_body l = body msg"
    and "tracking = Some r \<Longrightarrow> \<exists>q\<in>set (db_requests db'). tq_id q = rt_request_id r \<and> tq_sender q = rt_sender r \<and>
      tq_target q = rt_target r \<and> tq_state q = ReqOpen \<and> tq_deadline_at q = rt_deadline_at r"
    and "db_links db' = db_links db3"
proof -
  have db': "db_ledger db' = db_ledger db4" "db_requests db' = db_requests db4" "db_links db' = db_links db4"
    using assms(2) by (auto simp: insert_guidance_def split: option.splits if_splits prod.splits)
  have db4: "db_ledger db4 = db_ledger (record_message_in_transaction ts msg ck db3)" "db_links db4 = db_links db3"
    using assms(1)
    by (auto simp: insert_request_def record_message_in_transaction_def split: option.splits if_splits)
  show "\<exists>l\<in>set (db_ledger db'). lg_id l = msg_id msg \<and> lg_sender l = msg_from msg \<and>
      lg_target l = msg_to msg \<and> lg_body l = body msg"
    by (simp add: db' db4 record_message_in_transaction_def)
  show "db_links db' = db_links db3" by (simp add: db' db4)
  show "\<exists>q\<in>set (db_requests db'). tq_id q = rt_request_id r \<and> tq_sender q = rt_sender r \<and>
      tq_target q = rt_target r \<and> tq_state q = ReqOpen \<and> tq_deadline_at q = rt_deadline_at r"
    if "tracking = Some r"
    using assms(1) that by (auto simp: db' insert_request_def split: if_splits)
qed

lemma begin_rows:
  assumes "(case link of Some l \<Rightarrow> insert_link l db2 | None \<Rightarrow> Inr db2) = Inr db3"
  shows "db_deliveries db3 = db_deliveries db2" and "db_records db3 = db_records db2"
    and "link = Some l \<Longrightarrow> delivery_execution_link (dl_delivery_id l) db3 = Some l"
proof -
  show "db_deliveries db3 = db_deliveries db2" "db_records db3 = db_records db2"
    using assms by (auto simp: insert_link_def split: option.splits if_splits)
  show "delivery_execution_link (dl_delivery_id l) db3 = Some l" if "link = Some l"
  proof -
    have db3: "db3 = db2\<lparr>db_links := db_links db2 @ [l]\<rparr>" and "\<forall>x\<in>set (db_links db2). dl_delivery_id x \<noteq> dl_delivery_id l"
      using assms that by (auto simp: insert_link_def sql_exists_iff split: if_splits)
    then have "sql_row (\<lambda>x. dl_delivery_id x = dl_delivery_id l) (db_links db2) = None"
      by (simp add: sql_row_None_iff)
    then show ?thesis by (simp add: db3 delivery_execution_link_def sql_row_append) (simp add: sql_row_def)
  qed
qed

text \<open>
  C6. A delivery is created at once or not at all. When the transaction succeeds the database
  has one more delivery, the announced one, ranked after all the others; the record of the key
  has gone from prepared to dispatching; the envelope is readable and stands in the ledger; the
  tracked request, if any, is open and the causal link, if any, is recorded. The same key can
  never begin a second delivery, whatever the second one announces.
\<close>

theorem creation_is_atomic:
  assumes "begin_send_delivery_with_guidance codec ts key delivery tracking link guidance cap held (reached codec ops) =
      Inr (u, db')"
  shows "(\<exists>d. db_deliveries db' = db_deliveries (reached codec ops) @ [d] \<and> begins key delivery held d \<and>
      (\<forall>e\<in>set (db_deliveries (reached codec ops)). dr_queue_rank e < dr_queue_rank d)) \<and>
    (\<exists>r. load_record key (reached codec ops) = Some r \<and> rr_state r = Prepared \<and>
      load_record key db' = Some (r\<lparr>rr_state := Dispatching\<rparr>)) \<and>
    (\<exists>msg. decode codec (sd_message_bytes delivery) = Some msg \<and>
      (\<exists>l\<in>set (db_ledger db'). lg_id l = msg_id msg \<and> lg_sender l = msg_from msg \<and>
         lg_target l = msg_to msg \<and> lg_body l = body msg)) \<and>
    (\<forall>r. tracking = Some r \<longrightarrow> (\<exists>q\<in>set (db_requests db'). tq_id q = rt_request_id r \<and> tq_sender q = rt_sender r \<and>
      tq_target q = rt_target r \<and> tq_state q = ReqOpen \<and> tq_deadline_at q = rt_deadline_at r)) \<and>
    (\<forall>l. link = Some l \<longrightarrow> delivery_execution_link (sd_delivery_id delivery) db' = Some l) \<and>
    (\<exists>e. begin_send_delivery_with_guidance codec ts' key delivery' tracking' link' guidance' cap' held' db' = Inl e)"
  using assms
proof (rule begin_Inr)
  fix msg db2 db3 db4
  let ?db = "reached codec ops"
  let ?db1 = "snd (start_record key ?db)"
  let ?d = "(begin_row key delivery held msg (resumed_gate link msg ?db1))\<lparr>dr_queue_rank := db_last_rank ?db1 + 1\<rparr>"
  assume args: "delivery_args_ok key delivery link held" and msg: "decode codec (sd_message_bytes delivery) = Some msg"
    and one: "sql_matches (at_key_state key Prepared) (db_records ?db) = 1"
    and ins: "insert_delivery (begin_row key delivery held msg (resumed_gate link msg ?db1)) ?db1 = Inr db2"
    and link: "(case link of Some l \<Rightarrow> insert_link l db2 | None \<Rightarrow> Inr db2) = Inr db3"
    and rest: "(case tracking of
        Some r \<Rightarrow> insert_request r (record_message_in_transaction ts msg (msg_from msg @ ''|'' @ msg_to msg) db3)
      | None \<Rightarrow> Inr (record_message_in_transaction ts msg (msg_from msg @ ''|'' @ msg_to msg) db3)) = Inr db4"
      "(case guidance of Some g \<Rightarrow> insert_guidance g db4 | None \<Rightarrow> Inr db4) = Inr db'"
  note core = begin_core [OF rest]
  have rows: "db_deliveries db' = db_deliveries ?db @ [?d]"
    using core begin_rows(1) [OF link] insert_delivery_Inr(1) [OF ins] by (simp add: core_of_def start_record_def)
  have ranks: "dr_queue_rank e < dr_queue_rank ?d" if "e \<in> set (db_deliveries ?db)" for e
    using that reached_core [of codec ops] by (auto simp: core_of_def core_inv_iff deliveries_inv_def start_record_def)
  obtain r where r: "load_record key ?db = Some r" "rr_state r = Prepared"
    using one one_record [OF reached_core] by blast
  have records: "db_records db' = db_records ?db1"
    using core begin_rows(2) [OF link] insert_delivery_Inr(1) [OF ins] by (simp add: core_of_def)
  have "load_record key db' = Some (r\<lparr>rr_state := Dispatching\<rparr>)"
    using r records load_record_SomeD [OF r(1)]
    by (simp add: load_record_def start_record_def sql_row_update at_key_state_def)
  moreover have "core_inv (core_of db')"
    by (rule core_steps_inv [OF begin_steps [OF assms, of UNIV] reached_core]) simp
  then have "\<exists>e. begin_send_delivery_with_guidance codec ts' key delivery' tracking' link' guidance' cap' held' db' = Inl e"
    using begin_refused calculation by fastforce
  moreover have "delivery_execution_link (sd_delivery_id delivery) db' = Some l" if "link = Some l" for l
    using begin_rows(3) [OF link that] begin_rest(3) [OF rest] args that
    by (simp add: delivery_args_ok_def delivery_execution_link_def)
  ultimately show ?thesis using rows ranks r msg begin_rest(1,2) [OF rest] begins_row by blast
qed

theorem creation_is_atomic_witness:
  "\<exists>u db'. begin_send_delivery_with_guidance sample_codec 2 (sample_key ''k'') (sample_delivery ''d'') None None None
      None None (reached sample_codec [OpReserve (sample_key ''k'') ''canon'' 0 1000 1 5]) = Inr (u, db') \<and>
    (\<exists>d. db_deliveries db' = [d] \<and> begins (sample_key ''k'') (sample_delivery ''d'') None d) \<and>
    (\<exists>e. begin_send_delivery_with_guidance sample_codec 9 (sample_key ''k'') (sample_delivery ''d2'') None None None
       None None db' = Inl e)"
proof -
  let ?db = "reached sample_codec [OpReserve (sample_key ''k'') ''canon'' 0 1000 1 5]"
  obtain u db' where ok: "begin_send_delivery_with_guidance sample_codec 2 (sample_key ''k'') (sample_delivery ''d'')
      None None None None None ?db = Inr (u, db')" by (simp add: store_eval)
  have "db_deliveries ?db = []" by (simp add: store_eval)
  with ok creation_is_atomic [OF ok, of 9 "sample_delivery ''d2''" None None None None None] show ?thesis by auto
qed

section \<open>The capacity of a queue\<close>

definition held_for :: "string \<Rightarrow> DeliveryRow \<Rightarrow> bool" where
  "held_for agent d \<longleftrightarrow> dr_recipient_agent d = agent \<and> dr_phase d = DHeld"

definition held_ids :: "string \<Rightarrow> Db \<Rightarrow> string set" where
  "held_ids agent db = dr_delivery_id ` {d \<in> set (db_deliveries db). held_for agent d}"

lemma held_count_ids:
  assumes "core_inv (core_of db)"
  shows "held_count agent db = card (held_ids agent db)"
proof -
  have "distinct (map dr_delivery_id (filter (held_for agent) (db_deliveries db)))"
    using delivery_facts(1) [OF assms] by (rule distinct_map_filter)
  then have "card (set (map dr_delivery_id (filter (held_for agent) (db_deliveries db)))) =
      length (filter (held_for agent) (db_deliveries db))"
    using distinct_card [of "map dr_delivery_id (filter (held_for agent) (db_deliveries db))"] by simp
  then show ?thesis by (simp add: held_count_def held_ids_def sql_matches_def held_for_def [abs_def])
qed

text \<open>Nothing becomes held: a held row was held before, or has just been inserted.\<close>

lemma phase_into_held: "phase_step\<^sup>*\<^sup>* s DHeld \<Longrightarrow> s = DHeld"
  by (erule rtranclp.cases) (auto elim: phase_step_fromE)

lemma row_step_held: "row_step d d' \<Longrightarrow> held_for agent d' \<Longrightarrow> held_for agent d"
  using phase_into_held by (auto simp: held_for_def row_step_def frozen_part_def)

lemma core_steps_held:
  assumes "core_steps A s s'" and "core_inv s" and "d' \<in> set (fst (snd s'))" and "held_for agent d'"
  shows "(\<exists>d\<in>set (fst (snd s)). held_for agent d \<and> dr_delivery_id d = dr_delivery_id d') \<or>
    (\<exists>d0. MayInsert d0 \<in> A \<and> held_for agent d0 \<and> dr_delivery_id d0 = dr_delivery_id d')"
  using assms
proof (induction arbitrary: d' rule: rtranclp_induct)
  case (step y z)
  have "core_inv y" using step.hyps(1) step.prems(1) by (rule core_steps_inv)
  from core_step_delivery_back [OF step.hyps(2) this step.prems(2)] show ?case
  proof
    assume "\<exists>d\<in>set (fst (snd y)). row_step d d'"
    then obtain d where d: "d \<in> set (fst (snd y))" "row_step d d'" by blast
    have "held_for agent d" using d(2) step.prems(3) by (rule row_step_held)
    with step.IH [OF step.prems(1) d(1)] row_step_frozen(1) [OF d(2)] show ?thesis by simp
  qed (use step.prems(3) in blast)
qed auto

fun holds_for :: "string \<Rightarrow> store_op \<Rightarrow> string set" where
  "holds_for agent (OpBegin ts key delivery tracking link guidance cap held) =
     (if held = Some agent then {sd_delivery_id delivery} else {})"
| "holds_for agent _ = {}"

lemma permits_held:
  "MayInsert d0 \<in> permits x \<Longrightarrow> held_for agent d0 \<Longrightarrow> dr_delivery_id d0 \<in> holds_for agent x"
  by (cases x) (auto simp: begins_def held_for_def split: option.splits)

lemma store_exec_held:
  assumes "store_exec codec x db = Inr (r, db')" and "core_inv (core_of db)"
  shows "held_ids agent db' \<subseteq> held_ids agent db \<union> holds_for agent x"
proof
  fix i
  assume "i \<in> held_ids agent db'"
  then obtain d' where d': "d' \<in> set (fst (snd (core_of db')))" "held_for agent d'" "dr_delivery_id d' = i"
    by (auto simp: held_ids_def core_of_def)
  from core_steps_held [OF store_exec_steps [OF assms] assms(2) d'(1,2)]
  show "i \<in> held_ids agent db \<union> holds_for agent x"
  proof
    assume "\<exists>d\<in>set (fst (snd (core_of db))). held_for agent d \<and> dr_delivery_id d = dr_delivery_id d'"
    then obtain d where "d \<in> set (db_deliveries db)" "held_for agent d" "i = dr_delivery_id d"
      using d'(3) by (auto simp: core_of_def)
    then show ?thesis by (auto simp: held_ids_def)
  next
    assume "\<exists>d0. MayInsert d0 \<in> permits x \<and> held_for agent d0 \<and> dr_delivery_id d0 = dr_delivery_id d'"
    then obtain d0 where "MayInsert d0 \<in> permits x" "held_for agent d0" "dr_delivery_id d0 = i" using d'(3) by auto
    with permits_held [of d0 x agent] show ?thesis by simp
  qed
qed

text \<open>Every creation for the queue of the agent announces a capacity of at most \<open>n\<close>.\<close>

fun capped :: "string \<Rightarrow> nat \<Rightarrow> store_op \<Rightarrow> bool" where
  "capped agent n (OpBegin ts key delivery tracking link guidance cap held) =
     (held = Some agent \<longrightarrow> (case cap of Some c \<Rightarrow> c \<le> n | None \<Rightarrow> False))"
| "capped agent n _ = True"

lemma held_ids_finite [simp]: "finite (held_ids agent db)"
  by (simp add: held_ids_def)

lemma store_exec_capacity:
  assumes exec: "store_exec codec x db = Inr (r, db')" and inv: "core_inv (core_of db)"
    and cap: "capped agent n x" and "held_count agent db \<le> n"
  shows "held_count agent db' \<le> n"
proof -
  have count: "held_count agent db' = card (held_ids agent db')"
    by (rule held_count_ids [OF run_core [OF inv exec]])
  have sub: "held_ids agent db' \<subseteq> held_ids agent db \<union> holds_for agent x" using exec inv by (rule store_exec_held)
  show ?thesis
  proof (cases "holds_for agent x = {}")
    case True
    with sub have "card (held_ids agent db') \<le> card (held_ids agent db)" by (intro card_mono) auto
    with assms(4) count held_count_ids [OF inv] show ?thesis by simp
  next
    case False
    then obtain ts key delivery tracking link guidance c where
      x: "x = OpBegin ts key delivery tracking link guidance c (Some agent)"
      by (cases x) (auto split: if_splits)
    with cap obtain c0 where c0: "c = Some c0" "c0 \<le> n" by (auto split: option.splits)
    have "held_count agent db < c0" using exec unfolding x by (auto simp: replying_Inr c0(1) elim: begin_Inr)
    moreover have "card (held_ids agent db') \<le> card (insert (sd_delivery_id delivery) (held_ids agent db))"
      using sub x by (intro card_mono) auto
    moreover have "\<dots> \<le> Suc (card (held_ids agent db))" by (rule card_insert_le_m1) simp_all
    ultimately show ?thesis using c0(2) count held_count_ids [OF inv, of agent] by simp
  qed
qed

text \<open>
  C18. A queue never outgrows its capacity. If every creation that holds a message for an agent
  announces a capacity of at most \<open>n\<close>, at most \<open>n\<close> messages are held for that agent at any
  time, whatever the interleaving with adoptions, edits, releases and orphanings.
\<close>

theorem held_queue_bounded:
  assumes "\<forall>x\<in>set ops. capped agent n x"
  shows "held_count agent (reached codec ops) \<le> n"
proof -
  have "core_inv (core_of db) \<Longrightarrow> held_count agent db \<le> n \<Longrightarrow> held_count agent (store_run codec ops db) \<le> n" for db
    using assms
  proof (induction ops arbitrary: db)
    case (Cons x ops)
    then show ?case using run_core [of db codec x] store_exec_capacity [of codec x db _ _ agent n]
      by (cases "store_exec codec x db") auto
  qed simp
  moreover have "held_count agent db_empty \<le> n" by (simp add: held_count_def sql_matches_def db_empty_def)
  ultimately show ?thesis using reached_core [of codec "[]"] by simp
qed

theorem held_queue_bounded_witness:
  "held_count ''bob'' (reached sample_codec (sample_send ''k'' ''d'' (Some ''bob'') @ sample_send ''k2'' ''d2'' (Some ''bob''))) \<le> 5 \<and>
   held_count ''bob'' (reached sample_codec (sample_send ''k'' ''d'' (Some ''bob''))) = 1"
  using held_queue_bounded [of "sample_send ''k'' ''d'' (Some ''bob'') @ sample_send ''k2'' ''d2'' (Some ''bob'')" "''bob''" 5 sample_codec]
  by (simp add: sample_send_def) (simp add: store_eval)

section \<open>Orphaning\<close>

definition live :: "DeliveryRow \<Rightarrow> bool" where
  "live d \<longleftrightarrow> dr_phase d = DDispatching \<or> dr_phase d = DHeld"

definition live_at :: "string \<Rightarrow> DeliveryRow \<Rightarrow> bool" where
  "live_at inst d \<longleftrightarrow> dr_recipient_instance_id d = inst \<and> live d"

text \<open>The tables that orphaning a set of live deliveries at once would leave.\<close>

definition orphan_rows :: "DeliveryRow list \<Rightarrow> DeliveryRow table \<Rightarrow> DeliveryRow table" where
  "orphan_rows ds = sql_update (\<lambda>x. dr_delivery_id x \<in> dr_delivery_id ` set ds \<and> live x)
     (\<lambda>x. x\<lparr>dr_phase := DOrphaned, dr_turn_gate := False\<rparr>)"

definition orphan_records :: "string \<Rightarrow> DeliveryRow list \<Rightarrow> RecordRow table \<Rightarrow> RecordRow table" where
  "orphan_records reason ds = sql_update (\<lambda>r. rr_key r \<in> dr_key ` set ds \<and> rr_state r = Dispatching)
     (settle_row ''orphaned'' None (Some reason))"

lemma sql_update_twice:
  assumes "\<And>x. p x \<Longrightarrow> \<not> q (f x)"
  shows "sql_update q f (sql_update p f rows) = sql_update (\<lambda>x. p x \<or> q x) f rows"
  using assms by (induction rows) auto

lemma orphan_rows_Cons: "orphan_rows ds (orphan_rows [d] D) = orphan_rows (d # ds) D"
  unfolding orphan_rows_def by (subst sql_update_twice) (auto simp: live_def intro!: arg_cong [where f = "\<lambda>p. sql_update p _ D"])

lemma orphan_records_Cons: "orphan_records reason ds (orphan_records reason [d] R) = orphan_records reason (d # ds) R"
  unfolding orphan_records_def by (subst sql_update_twice) (auto intro!: arg_cong [where f = "\<lambda>p. sql_update p _ R"])

lemma orphan_one_ok:
  assumes "distinct (map dr_delivery_id (db_deliveries db))" and "d \<in> set (db_deliveries db)" and "live d"
    and "sql_matches (at_key_state (dr_key d) Dispatching) (db_records db) = 1"
  obtains notice db' where "orphan_one codec reason ts d db = Inr (notice, db')"
    and "on_delivery_id notice = dr_delivery_id d"
    and "db_deliveries db' = orphan_rows [d] (db_deliveries db)"
    and "db_records db' = orphan_records reason [d] (db_records db)"
    and "insert (dr_delivery_id d) (nt_delivery_id ` set (db_notices db)) \<subseteq> nt_delivery_id ` set (db_notices db')"
proof -
  let ?p = "\<lambda>x. dr_delivery_id x = dr_delivery_id d \<and> (dr_phase x = DDispatching \<or> dr_phase x = DHeld)"
  let ?m = "case decode codec (case dr_message_bytes d of Some b \<Rightarrow> b | None \<Rightarrow> []) of
      Some msg \<Rightarrow> (msg_id msg, msg_from msg, msg_to msg) | None \<Rightarrow> (dr_delivery_id d, ''inconnu'', ''inconnu'')"
  have one: "sql_matches ?p (db_deliveries db) = 1"
    using assms(2,3) by (intro sql_matches_only [OF assms(1), of d]) (simp_all add: live_def)
  obtain mid sender tgt where m: "?m = (mid, sender, tgt)" by (cases ?m)
  let ?db' = "insert_notice (dr_delivery_id d) sender (orphan_body mid tgt (dr_delivery_id d) reason) ts
      (orphaned_db d reason db)"
  have ok: "orphan_one codec reason ts d db = Inr (\<lparr>on_delivery_id = dr_delivery_id d, on_message_id = mid,
      on_sender = sender, on_target = tgt, on_reason = reason\<rparr>, ?db')"
    using one assms(4) m by (simp add: orphan_one_def orphaned_db_def settle_record_def Let_def)
  have rows: "db_deliveries ?db' = orphan_rows [d] (db_deliveries db)"
    and records: "db_records ?db' = orphan_records reason [d] (db_records db)"
    by (simp_all add: insert_notice_def orphaned_db_def settle_record_def orphan_rows_def orphan_records_def
        live_def [abs_def] at_key_state_def [abs_def])
  have notices: "insert (dr_delivery_id d) (nt_delivery_id ` set (db_notices db)) \<subseteq> nt_delivery_id ` set (db_notices ?db')"
    by (auto simp: insert_notice_def orphaned_db_def settle_record_def sql_exists_iff) (metis imageI)
  show thesis by (rule that [OF ok _ rows records notices]) simp
qed

lemma other_record_kept:
  assumes "sql_matches (at_key_state key Dispatching) R = 1" and "key \<noteq> dr_key d"
  shows "sql_matches (at_key_state key Dispatching) (orphan_records reason [d] R) = 1"
proof -
  have "sql_matches (at_key_state key Dispatching) (orphan_records reason [d] R) = sql_matches (at_key_state key Dispatching) R"
    using assms(2) by (induction R) (auto simp: orphan_records_def sql_matches_def at_key_state_def)
  with assms(1) show ?thesis by simp
qed

lemma orphan_loop_ok:
  assumes "distinct (map dr_delivery_id (db_deliveries db))" and "set ds \<subseteq> set (db_deliveries db)"
    and "\<forall>d\<in>set ds. live d \<and> sql_matches (at_key_state (dr_key d) Dispatching) (db_records db) = 1"
    and "distinct (map dr_delivery_id ds)" and "distinct (map dr_key ds)"
  shows "\<exists>notices db'. orphan_loop codec reason ts ds db = Inr (notices, db') \<and>
    map on_delivery_id notices = map dr_delivery_id ds \<and>
    db_deliveries db' = orphan_rows ds (db_deliveries db) \<and>
    db_records db' = orphan_records reason ds (db_records db) \<and>
    dr_delivery_id ` set ds \<union> nt_delivery_id ` set (db_notices db) \<subseteq> nt_delivery_id ` set (db_notices db')"
  using assms
proof (induction ds arbitrary: db)
  case Nil
  then show ?case by (simp add: orphan_rows_def orphan_records_def sql_update_def)
next
  case (Cons d ds)
  obtain notice db1 where one: "orphan_one codec reason ts d db = Inr (notice, db1)"
    "on_delivery_id notice = dr_delivery_id d" "db_deliveries db1 = orphan_rows [d] (db_deliveries db)"
    "db_records db1 = orphan_records reason [d] (db_records db)"
    "insert (dr_delivery_id d) (nt_delivery_id ` set (db_notices db)) \<subseteq> nt_delivery_id ` set (db_notices db1)"
    using Cons.prems(1-3) by (auto intro: orphan_one_ok [of db d codec reason ts])
  have "distinct (map dr_delivery_id (db_deliveries db1))"
    unfolding one(3) orphan_rows_def using Cons.prems(1) by (intro distinct_map_sql_update) simp_all
  moreover have "set ds \<subseteq> set (db_deliveries db1)"
  proof
    fix x
    assume x: "x \<in> set ds"
    then have "dr_delivery_id x \<in> dr_delivery_id ` set ds" by (rule imageI)
    with Cons.prems(4) have "dr_delivery_id x \<noteq> dr_delivery_id d" by auto
    with x Cons.prems(2) show "x \<in> set (db_deliveries db1)"
      by (auto simp: one(3) orphan_rows_def set_sql_update intro!: image_eqI [of _ _ x])
  qed
  moreover have "\<forall>x\<in>set ds. live x \<and> sql_matches (at_key_state (dr_key x) Dispatching) (db_records db1) = 1"
  proof
    fix x
    assume x: "x \<in> set ds"
    then have "dr_key x \<in> dr_key ` set ds" by (rule imageI)
    with Cons.prems(5) have "dr_key x \<noteq> dr_key d" by auto
    with x Cons.prems(3) show "live x \<and> sql_matches (at_key_state (dr_key x) Dispatching) (db_records db1) = 1"
      unfolding one(4) using other_record_kept by simp
  qed
  ultimately obtain notices db' where rest: "orphan_loop codec reason ts ds db1 = Inr (notices, db')"
    "map on_delivery_id notices = map dr_delivery_id ds" "db_deliveries db' = orphan_rows ds (db_deliveries db1)"
    "db_records db' = orphan_records reason ds (db_records db1)"
    "dr_delivery_id ` set ds \<union> nt_delivery_id ` set (db_notices db1) \<subseteq> nt_delivery_id ` set (db_notices db')"
    using Cons.IH [of db1] Cons.prems(4,5) by auto
  have "db_deliveries db' = orphan_rows (d # ds) (db_deliveries db)"
    "db_records db' = orphan_records reason (d # ds) (db_records db)"
    by (simp_all only: rest(3,4) one(3,4) orphan_rows_Cons orphan_records_Cons)
  moreover have "dr_delivery_id ` set (d # ds) \<union> nt_delivery_id ` set (db_notices db) \<subseteq> nt_delivery_id ` set (db_notices db')"
    using rest(5) subset_trans [OF one(5), of "nt_delivery_id ` set (db_notices db')"] by simp
  moreover have "orphan_loop codec reason ts (d # ds) db = Inr (notice # notices, db')" using one(1) rest(1) by simp
  ultimately show ?case using one(2) rest(2) by (intro exI [of _ "notice # notices"] exI [of _ db']) simp
qed

lemma live_record:
  assumes "\<forall>key\<in>finalized_keys ops. operation_kind key \<noteq> OpSend" and "d \<in> set (db_deliveries (reached codec ops))" and "live d"
  shows "\<exists>r. load_record (dr_key d) (reached codec ops) = Some r \<and> rr_state r = Dispatching"
proof -
  let ?db = "reached codec ops"
  obtain r where r: "load_record (dr_key d) ?db = Some r" using delivery_record [OF reached_inv assms(2)] by blast
  have "coherent (finalized_keys ops) (core_of ?db)"
    by (rule store_run_coherent [OF store_inv_empty]) (simp_all add: coherent_def core_of_def db_empty_def)
  moreover have "dr_key d \<notin> finalized_keys ops"
    using assms(1,2) reached_core [of codec ops] by (auto simp: core_of_def core_inv_iff deliveries_inv_def)
  moreover have "phase_result (dr_phase d) = None" using assms(3) by (auto simp: live_def)
  ultimately have "rr_state r = Dispatching"
    using load_record_SomeD [OF r] assms(2) by (auto simp: coherent_def core_of_def)
  with r show ?thesis by blast
qed

lemma orphaned_lookup:
  assumes "load_record (dr_key d) db = Some r" and "rr_state r = Dispatching" and "d \<in> set ds"
    and "db_records db' = orphan_records reason ds (db_records db)"
  shows "lookup (dr_key d) t db' =
    Inr (if t < rr_expires_at r then LOrphaned (rr_expires_at r) reason else LIdempotencyExpired)"
proof -
  have "load_record (dr_key d) db' = Some (settle_row ''orphaned'' None (Some reason) r)"
    using assms load_record_SomeD [OF assms(1)]
    by (simp add: load_record_def orphan_records_def sql_row_update)
  then show ?thesis by (simp add: lookup_def lookup_result_def settle_row_def)
qed



end
