(* ===== verification/Queue_Properties.thy ===== *)
theory Queue_Properties
  imports Delivery_Properties
begin

text \<open>
  What the queue of held messages promises: messages leave in order, one at a time, and
  never while their recipient is paused or busy; the queue drains; an edit takes effect once
  per request; a reordering moves exactly the message it names.
\<close>

section \<open>Release\<close>

lemma expire_gates_same:
  "held_rows agent (expire_gates a now db) = held_rows agent db"
  "load_record key (expire_gates a now db) = load_record key db"
  "db_control (expire_gates a now db) = db_control db" "db_interruptions (expire_gates a now db) = db_interruptions db"
  "db_records (expire_gates a now db) = db_records db" "db_links (expire_gates a now db) = db_links db"
  "db_requests (expire_gates a now db) = db_requests db"
proof -
  let ?p = "\<lambda>d. dr_recipient_agent d = a \<and> dr_turn_gate d \<and> dr_phase d = DAcked \<and>
      (case dr_acked_at d of Some at \<Rightarrow> at < saturating_sub now 30 | None \<Rightarrow> False)"
  have "filter (\<lambda>d. dr_recipient_agent d = agent \<and> dr_phase d = DHeld) (sql_update ?p (\<lambda>d. d\<lparr>dr_turn_gate := False\<rparr>) D) =
      filter (\<lambda>d. dr_recipient_agent d = agent \<and> dr_phase d = DHeld) D" for D
    by (induction D) auto
  from this [of "db_deliveries db"] show "held_rows agent (expire_gates a now db) = held_rows agent db"
    by (simp add: held_rows_def expire_gates_def)
qed (simp_all add: expire_gates_def load_record_def)

lemma expire_gates_inv: "core_inv (core_of db) \<Longrightarrow> core_inv (core_of (expire_gates agent now db))"
  by (rule core_steps_inv [OF expire_gates_steps [of "{}"]])

lemma held_record:
  assumes "core_inv (core_of db)" and "d \<in> set (held_rows agent db)"
  shows "load_record (dr_key d) db \<noteq> None"
proof -
  have "d \<in> set (db_deliveries db)" using assms(2) by (simp add: held_rows_set)
  with assms(1) obtain r where "load_record (dr_key d) db = Some r"
    using delivery_record [of db d] by (auto simp: store_inv_def)
  then show ?thesis by simp
qed

text \<open>Taking one row out of the queue leaves the others in order.\<close>

lemma held_rows_without:
  assumes rows: "held_rows agent db = d # ds" and ids: "distinct (map dr_delivery_id (held_rows agent db))"
    and upd: "db_deliveries db' = sql_update p f (db_deliveries db)"
    and p: "\<And>x. x \<in> set (db_deliveries db) \<Longrightarrow> dr_phase x = DHeld \<Longrightarrow> p x \<longleftrightarrow> dr_delivery_id x = dr_delivery_id d"
    and f: "\<And>x. p x \<Longrightarrow> dr_phase (f x) \<noteq> DHeld"
  shows "held_rows agent db' = ds"
proof -
  let ?h = "\<lambda>x. dr_recipient_agent x = agent \<and> dr_phase x = DHeld"
  have "filter ?h (sql_update p f D) = filter (\<lambda>x. dr_delivery_id x \<noteq> dr_delivery_id d) (filter ?h D)"
    if "set D \<subseteq> set (db_deliveries db)" for D
    using that p f by (induction D) auto
  then have "held_rows agent db' = filter (\<lambda>x. dr_delivery_id x \<noteq> dr_delivery_id d) (held_rows agent db)"
    using order_refl by (simp add: held_rows_def upd filter_sort)
  also have "\<dots> = ds"
  proof -
    have "dr_delivery_id d \<notin> dr_delivery_id ` set ds" using ids rows by auto
    then have "\<forall>x\<in>set ds. dr_delivery_id x \<noteq> dr_delivery_id d" by (metis imageI)
    then show ?thesis unfolding rows by (simp add: filter_id_conv)
  qed
  finally show ?thesis .
qed

lemma open_turn_queue:
  assumes "core_inv (core_of db)" and "held_rows agent db = d # ds" and "\<not> dr_turn_gate d"
  shows "held_rows agent (snd (open_turn (\<lambda>x. dr_delivery_id x = dr_delivery_id d) db)) = ds"
    and "fst (open_turn (\<lambda>x. dr_delivery_id x = dr_delivery_id d) db) = 1"
proof -
  have d: "d \<in> set (db_deliveries db)" "dr_phase d = DHeld"
    using assms(2) held_rows_set [of agent db] by auto
  note ids = delivery_facts(1) [OF assms(1)]
  have only: "x = d" if "x \<in> set (db_deliveries db)" "dr_delivery_id x = dr_delivery_id d" for x
    using distinct_map_eq [OF ids] that d(1) by blast
  show "held_rows agent (snd (open_turn (\<lambda>x. dr_delivery_id x = dr_delivery_id d) db)) = ds"
  proof (rule held_rows_without [OF assms(2) held_facts(1) [OF assms(1)]])
    show "db_deliveries (snd (open_turn (\<lambda>x. dr_delivery_id x = dr_delivery_id d) db)) =
        sql_update (\<lambda>x. dr_delivery_id x = dr_delivery_id d \<and> dr_phase x = DHeld \<and> \<not> dr_turn_gate x)
          (\<lambda>x. x\<lparr>dr_phase := DDispatching, dr_turn_gate := True\<rparr>) (db_deliveries db)"
      by (simp add: open_turn_def)
  qed (use only assms(3) in auto)
  show "fst (open_turn (\<lambda>x. dr_delivery_id x = dr_delivery_id d) db) = 1"
    unfolding open_turn_def fst_conv using d assms(3) by (intro sql_matches_only [OF ids]) auto
qed

lemma released_turn:
  assumes "core_inv (core_of db)" and "d \<in> set (db_deliveries db)" and "dr_phase d = DHeld" and "\<not> dr_turn_gate d"
  shows "d\<lparr>dr_phase := DDispatching, dr_turn_gate := True\<rparr> \<in>
    set (db_deliveries (snd (open_turn (\<lambda>x. dr_delivery_id x = dr_delivery_id d) db)))"
  using assms by (auto simp: open_turn_def set_sql_update intro!: image_eqI [of _ _ d])

text \<open>A row in flight keeps its gate whatever the clock says: nothing else is released meanwhile.\<close>

lemma busy_release:
  assumes "d \<in> set (db_deliveries db)" and "dr_recipient_agent d = agent" and "dr_phase d = DDispatching" and "dr_turn_gate d"
  shows "release_next_held codec agent now db = Inr ((None, None), db)"
proof -
  have "d \<in> set (db_deliveries (expire_gates agent now db))"
    using assms(1,3) by (auto simp: expire_gates_def set_sql_update intro!: image_eqI [of _ _ d])
  then have "gated agent (expire_gates agent now db)" using assms(2,4) by (auto simp: gated_def sql_exists_iff)
  then show ?thesis by (simp add: release_next_held_def Let_def)
qed

lemma release_candidate_Some:
  assumes "release_candidate codec now d db = Inr ((Some sd, note), db')"
  obtains msg where "Option.bind (dr_message_bytes d) (decode codec) = Some msg" and "lost_purpose d msg now db = None"
    and "into_delivery d = Some sd" and "note = None"
    and "db' = snd (open_turn (\<lambda>x. dr_delivery_id x = dr_delivery_id d) db)"
proof -
  obtain bytes where bytes: "dr_message_bytes d = Some bytes"
    using assms by (cases "dr_message_bytes d") (simp_all add: release_candidate_def)
  have unlinked: "\<not> sql_exists (\<lambda>l. dl_delivery_id l = dr_delivery_id d) (db_links db)"
    using assms bytes by (simp add: release_candidate_def split: if_splits)
  with assms bytes obtain msg where msg: "decode codec bytes = Some msg"
    by (cases "decode codec bytes") (simp_all add: release_candidate_def)
  have purpose: "lost_purpose d msg now db = None"
    using assms bytes msg unlinked
    by (cases "lost_purpose d msg now db") (auto simp: release_candidate_def q_bind_Inr_iff)
  with assms bytes msg unlinked have "into_delivery d = Some sd" "note = None"
    "db' = snd (open_turn (\<lambda>x. dr_delivery_id x = dr_delivery_id d) db)"
    by (auto simp: release_candidate_def split: prod.splits if_splits)
  with bytes msg purpose show thesis by (intro that) simp_all
qed

text \<open>
  C7. Messages leave the queue in order and one at a time. When a release hands out a delivery,
  the recipient is neither paused nor waiting for the end of a pause; every turn given to it
  before is over (acknowledged for more than thirty seconds, if not cleared); the delivery is the
  one of lowest rank among those held for the agent, it has not expired and the request it
  carries is still open; it alone leaves the queue; and until its turn is over no release for
  that agent, at any date, hands out anything or changes anything.
\<close>

theorem release_in_order:
  assumes "release_next_held codec agent now (reached codec ops) = Inr ((Some sd, note), db')"
  shows "\<not> cf_paused (control_read (db_control (reached codec ops))) \<and> \<not> pending_pause agent (reached codec ops) \<and>
    (\<forall>e\<in>set (db_deliveries (reached codec ops)). dr_recipient_agent e = agent \<and> dr_turn_gate e \<longrightarrow>
       dr_phase e = DAcked \<and> (\<exists>at. dr_acked_at e = Some at \<and> at < saturating_sub now 30)) \<and>
    (\<exists>d msg. into_delivery d = Some sd \<and> held_rows agent (reached codec ops) = d # held_rows agent db' \<and>
       (\<forall>e\<in>set (held_rows agent db'). dr_queue_rank d < dr_queue_rank e) \<and>
       decode codec (sd_message_bytes sd) = Some msg \<and> now < sd_expires_at sd \<and>
       (reply msg \<longrightarrow> request_open msg now (reached codec ops))) \<and>
    note = None \<and> release_next_held codec agent now' db' = Inr ((None, None), db')"
  using assms
proof (cases rule: release_Inr)
  case (candidate d ds)
  let ?db = "reached codec ops" and ?db1 = "expire_gates agent now (reached codec ops)"
  have inv: "core_inv (core_of ?db1)" using reached_core by (rule expire_gates_inv)
  have rows: "held_rows agent ?db1 = d # ds"
    using candidate(4) held_record [OF inv] by (simp add: filter_id_conv [THEN iffD2])
  then have d: "d \<in> set (db_deliveries ?db1)" "dr_recipient_agent d = agent" "dr_phase d = DHeld"
    using held_rows_set [of agent ?db1] by auto
  have gate: "\<not> dr_turn_gate d" using candidate(3) d(1,2) by (auto simp: gated_def sql_exists_iff)
  obtain msg where out: "Option.bind (dr_message_bytes d) (decode codec) = Some msg" "lost_purpose d msg now ?db1 = None"
    "into_delivery d = Some sd" "note = None" "db' = snd (open_turn (\<lambda>x. dr_delivery_id x = dr_delivery_id d) ?db1)"
    using release_candidate_Some [OF candidate(5)] by blast
  have rest: "held_rows agent db' = ds" using open_turn_queue(1) [OF inv rows gate] out(5) by simp
  have "sorted (map dr_queue_rank (d # ds))" "distinct (map dr_queue_rank (d # ds))"
    using held_rows_sorted [of agent ?db1] held_facts(2) [OF inv, of agent] rows by simp_all
  then have first: "\<forall>e\<in>set ds. dr_queue_rank d < dr_queue_rank e" by (force simp: less_le)
  have gates: "dr_phase e = DAcked \<and> (\<exists>at. dr_acked_at e = Some at \<and> at < saturating_sub now 30)"
    if e: "e \<in> set (db_deliveries ?db)" "dr_recipient_agent e = agent" "dr_turn_gate e" for e
  proof (rule ccontr)
    assume "\<not> ?thesis"
    with e have "e \<in> set (db_deliveries ?db1)"
      by (auto simp: expire_gates_def set_sql_update intro!: image_eqI [of _ _ e] split: option.splits)
    with e candidate(3) show False by (auto simp: gated_def sql_exists_iff)
  qed
  have busy: "release_next_held codec agent now' db' = Inr ((None, None), db')"
    using busy_release [OF released_turn [OF inv d(1,3) gate]] d(2) out(5) by simp
  have sd: "sd_expires_at sd = dr_expires_at d" "dr_message_bytes d = Some (sd_message_bytes sd)"
    using out(3) by (auto simp: into_delivery_def)
  have "now < sd_expires_at sd" "reply msg \<longrightarrow> request_open msg now ?db"
    using out(2) sd(1) by (auto simp: lost_purpose_def request_open_def expire_gates_same split: if_splits)
  with out sd rest rows first gates busy candidate(1,2) show ?thesis by (auto simp: expire_gates_same)
qed simp

lemmas release_eval =
  release_next_held_def control_read_def control_initial_def pending_pause_def
  expire_gates_def gated_def held_rows_def release_candidate_def lost_purpose_def open_turn_def into_delivery_def

theorem release_in_order_witness:
  "\<exists>sd db'. release_next_held sample_codec ''bob'' 10 (reached sample_codec (sample_send ''k'' ''d'' (Some ''bob''))) =
      Inr ((Some sd, None), db') \<and> release_next_held sample_codec ''bob'' 900 db' = Inr ((None, None), db')"
proof -
  obtain sd db' where ok: "release_next_held sample_codec ''bob'' 10
      (reached sample_codec (sample_send ''k'' ''d'' (Some ''bob''))) = Inr ((Some sd, None), db')"
    by (simp add: store_eval release_eval)
  have "release_next_held sample_codec ''bob'' 900 db' = Inr ((None, None), db')"
    using release_in_order [OF ok, of 900] by simp
  with ok show ?thesis by (intro exI conjI)
qed

section \<open>The queue drains\<close>

text \<open>A queue whose recipient may be served and whose messages can be read and settled.\<close>

definition servable :: "Codec \<Rightarrow> string \<Rightarrow> Db \<Rightarrow> bool" where
  "servable codec agent db \<longleftrightarrow>
     \<not> cf_paused (control_read (db_control db)) \<and> \<not> pending_pause agent db \<and>
     (\<forall>d\<in>set (held_rows agent db).
        Option.bind (dr_message_bytes d) (decode codec) \<noteq> None \<and>
        \<not> sql_exists (\<lambda>l. dl_delivery_id l = dr_delivery_id d) (db_links db) \<and>
        (\<exists>r. load_record (dr_key d) db = Some r \<and> rr_state r = Dispatching))"

text \<open>What a settlement and a turn leave unchanged.\<close>

lemma lifecycle_frame:
  "db_control (record_lifecycle_for_linked_request_in_transaction rid st at db) = db_control db \<and>
   db_interruptions (record_lifecycle_for_linked_request_in_transaction rid st at db) = db_interruptions db"
proof -
  have "db_control (fold (\<lambda>g. record_lifecycle_event_in_transaction (gr_issuer_scope g) (gr_request_id g) st at
        (Some rid) None) gs db) = db_control db \<and>
      db_interruptions (fold (\<lambda>g. record_lifecycle_event_in_transaction (gr_issuer_scope g) (gr_request_id g) st at
        (Some rid) None) gs db) = db_interruptions db" for gs
    by (induction gs arbitrary: db) (simp_all add: record_lifecycle_event_in_transaction_def)
  then show ?thesis by (simp add: record_lifecycle_for_linked_request_in_transaction_def)
qed

lemma close_request_frame:
  "db_control (close_request msg reason now db) = db_control db"
  "db_interruptions (close_request msg reason now db) = db_interruptions db"
  using lifecycle_frame by (simp_all add: close_request_def Let_def)

lemma insert_notice_frame:
  "db_control (insert_notice a b c e db) = db_control db" "db_interruptions (insert_notice a b c e db) = db_interruptions db"
  by (simp_all add: insert_notice_def)

text \<open>A message that has lost its purpose is withdrawn.\<close>

lemma settle_lost_purpose:
  assumes inv: "core_inv (core_of db)" and d: "d \<in> set (db_deliveries db)" "dr_phase d = DHeld"
    and r: "load_record (dr_key d) db = Some r" "rr_state r = Dispatching"
    and msg: "dr_message_bytes d = Some bytes" "decode codec bytes = Some msg"
    and why: "lost_purpose d msg now db = Some reason"
  obtains db2 where "withdraw_tables d msg reason db = (1, 1, db2)"
    and "settle_held_in_transaction codec (dr_delivery_id d) reason now db =
      Inr (Some \<lparr>on_delivery_id = dr_delivery_id d, on_message_id = msg_id msg, on_sender = msg_from msg,
              on_target = msg_to msg, on_reason = reason\<rparr>,
           insert_notice (dr_delivery_id d) (msg_from msg) (withdrawn_body msg reason) now
             (if reply msg then close_request msg reason now db2 else db2))"
proof -
  note ids = delivery_facts(1) [OF inv]
  have row: "sql_row (\<lambda>x. dr_delivery_id x = dr_delivery_id d \<and> dr_phase x = DHeld \<and> load_record (dr_key x) db \<noteq> None)
      (db_deliveries db) = Some d"
  proof (cases "sql_row (\<lambda>x. dr_delivery_id x = dr_delivery_id d \<and> dr_phase x = DHeld \<and> load_record (dr_key x) db \<noteq> None)
      (db_deliveries db)")
    case None
    with d r(1) show ?thesis by (auto simp: sql_row_None_iff)
  next
    case (Some x)
    with sql_row_SomeD [OF Some] have "x = d" using distinct_map_eq [OF ids _ d(1)] by blast
    with Some show ?thesis by simp
  qed
  have valid: "reason \<in> set settlement_reasons"
    using why by (auto simp: lost_purpose_def settlement_reasons_def split: if_splits)
  have due: "\<not> (reason = ''expired_in_queue'' \<and> now < dr_expires_at d \<and> now < rr_expires_at r)"
    "\<not> (reason = ''request_closed_in_queue'' \<and> (\<not> reply msg \<or> request_open msg now db))"
    using why r(1) by (auto simp: lost_purpose_def split: if_splits)
  have "sql_matches (\<lambda>x. dr_delivery_id x = dr_delivery_id d \<and> dr_phase x = DHeld) (db_deliveries db) = 1"
    using d by (intro sql_matches_only [OF ids, of d]) simp_all
  moreover have "sql_matches (at_key_state (dr_key d) Dispatching) (db_records db) = 1"
    using r one_record [OF inv] by blast
  ultimately obtain db2 where tables: "withdraw_tables d msg reason db = (1, 1, db2)"
    by (simp add: withdraw_tables_def settle_record_def Let_def)
  show thesis
    by (rule that [OF tables])
      (use valid row msg due r(1) tables in \<open>auto simp: settle_held_in_transaction_def\<close>)
qed

lemma servable_head:
  assumes "servable codec agent db" and "d \<in> set (held_rows agent db)"
  obtains bytes msg r where "dr_message_bytes d = Some bytes" and "decode codec bytes = Some msg"
    and "load_record (dr_key d) db = Some r" and "rr_state r = Dispatching"
    and "\<not> sql_exists (\<lambda>l. dl_delivery_id l = dr_delivery_id d) (db_links db)"
  using assms by (cases "dr_message_bytes d") (auto simp: servable_def)

lemma servable_mono:
  assumes "servable codec agent db" and "set (held_rows agent db') \<subseteq> set (held_rows agent db)"
    and "db_control db' = db_control db" and "db_interruptions db' = db_interruptions db" and "db_links db' = db_links db"
    and "\<And>d. d \<in> set (held_rows agent db') \<Longrightarrow> load_record (dr_key d) db' = load_record (dr_key d) db"
  shows "servable codec agent db'"
  using assms by (auto simp: servable_def pending_pause_def)

lemma opened_servable:
  assumes "core_inv (core_of db)" and "servable codec agent db" and "held_rows agent db = d # ds" and "\<not> dr_turn_gate d"
  shows "servable codec agent (snd (open_turn (\<lambda>x. dr_delivery_id x = dr_delivery_id d) db))"
  using open_turn_queue(1) [OF assms(1,3,4)] assms(3)
  by (intro servable_mono [OF assms(2)]) (auto simp: open_turn_def load_record_def)

lemma withdrawn_queue:
  assumes inv: "core_inv (core_of db)" and rows: "held_rows agent db = d # ds"
    and tables: "withdraw_tables d msg reason db = (m, n, db2)" and core: "core_of db' = core_of db2"
  shows "held_rows agent db' = ds"
    and "e \<in> set ds \<Longrightarrow> load_record (dr_key e) db' = load_record (dr_key e) db"
    and "db_links db' = db_links db"
proof -
  have same: "db_deliveries db' = db_deliveries db2" "db_records db' = db_records db2" "db_links db' = db_links db2"
    using core by (simp_all add: core_of_def)
  have db2: "db_deliveries db2 = sql_update (\<lambda>x. dr_delivery_id x = dr_delivery_id d \<and> dr_phase x = DHeld)
        (\<lambda>x. x\<lparr>dr_phase := DCancelled, dr_turn_gate := False\<rparr>) (db_deliveries db)"
      "db_records db2 = sql_update (at_key_state (dr_key d) Dispatching)
        (settle_row ''rejected'' (Some reason) (Some (withdrawn_body msg reason))) (db_records db)"
      "db_links db2 = db_links db"
    using tables by (auto simp: withdraw_tables_def settle_record_def Let_def)
  show "held_rows agent db' = ds"
    by (rule held_rows_without [OF rows held_facts(1) [OF inv] same(1) [unfolded db2(1)]]) auto
  show "db_links db' = db_links db" by (simp add: same db2)
  show "load_record (dr_key e) db' = load_record (dr_key e) db" if e: "e \<in> set ds"
  proof -
    have "d \<in> set (held_rows agent db)" "e \<in> set (held_rows agent db)" using e rows by simp_all
    then have in_db: "d \<in> set (db_deliveries db)" "e \<in> set (db_deliveries db)" by (simp_all add: held_rows_set)
    have "d \<noteq> e" using held_facts(1) [OF inv, of agent] rows e by auto
    moreover have "distinct (map dr_key (db_deliveries db))"
      using inv by (simp add: core_of_def core_inv_iff deliveries_inv_def)
    ultimately have "dr_key e \<noteq> dr_key d" using distinct_map_eq [of dr_key, OF _ in_db] by metis
    then have "map_option (\<lambda>r. if at_key_state (dr_key d) Dispatching r
        then settle_row ''rejected'' (Some reason) (Some (withdrawn_body msg reason)) r else r)
        (load_record (dr_key e) db) = load_record (dr_key e) db"
      using load_record_SomeD [of "dr_key e" db]
      by (cases "load_record (dr_key e) db") (auto simp: at_key_state_def)
    then show ?thesis by (simp add: load_record_def same db2 sql_row_update)
  qed
qed

lemma release_progress:
  assumes inv: "core_inv (core_of db)" and serv: "servable codec agent db" and free: "\<not> gated agent db"
    and rows: "held_rows agent db = d # ds"
  shows "\<exists>res db'. release_next_held codec agent now db = Inr (res, db') \<and> held_rows agent db' = ds \<and>
    servable codec agent db' \<and>
    (case res of (Some sd, None) \<Rightarrow> into_delivery d = Some sd | (None, Some n) \<Rightarrow> on_delivery_id n = dr_delivery_id d | _ \<Rightarrow> False)"
proof -
  let ?db1 = "expire_gates agent now db"
  have inv1: "core_inv (core_of ?db1)" using inv by (rule expire_gates_inv)
  have rows1: "held_rows agent ?db1 = d # ds" using rows by (simp add: expire_gates_same)
  have serv1: "servable codec agent ?db1" by (rule servable_mono [OF serv]) (simp_all add: expire_gates_same)
  have free1: "\<not> gated agent ?db1"
    using free by (auto simp: gated_def sql_exists_iff expire_gates_def set_sql_update split: if_splits)
  have d: "d \<in> set (db_deliveries ?db1)" "dr_recipient_agent d = agent" "dr_phase d = DHeld"
    using held_rows_set [of agent ?db1] rows1 by auto
  have gate: "\<not> dr_turn_gate d" using free1 d by (auto simp: gated_def sql_exists_iff)
  have "release_next_held codec agent now db = release_candidate codec now d ?db1"
    using serv free1 rows1 held_record [OF inv1, of d agent] by (simp add: release_next_held_def servable_def Let_def)
  moreover obtain bytes msg r where head: "dr_message_bytes d = Some bytes" "decode codec bytes = Some msg"
    "load_record (dr_key d) ?db1 = Some r" "rr_state r = Dispatching"
    "\<not> sql_exists (\<lambda>l. dl_delivery_id l = dr_delivery_id d) (db_links ?db1)"
    using servable_head [OF serv1, of d] rows1 by auto
  moreover have "\<exists>res db'. release_candidate codec now d ?db1 = Inr (res, db') \<and> held_rows agent db' = ds \<and>
      servable codec agent db' \<and>
      (case res of (Some sd, None) \<Rightarrow> into_delivery d = Some sd | (None, Some n) \<Rightarrow> on_delivery_id n = dr_delivery_id d | _ \<Rightarrow> False)"
  proof (cases "lost_purpose d msg now ?db1")
    case None
    let ?turn = "open_turn (\<lambda>x. dr_delivery_id x = dr_delivery_id d) ?db1"
    obtain sd where "into_delivery d = Some sd" using head(1) by (simp add: into_delivery_def)
    then have "release_candidate codec now d ?db1 = Inr ((Some sd, None), snd ?turn)"
      using None head open_turn_queue(2) [OF inv1 rows1 gate]
      by (simp add: release_candidate_def split: prod.split) (metis fst_conv snd_conv)
    then show ?thesis using open_turn_queue(1) [OF inv1 rows1 gate] opened_servable [OF inv1 serv1 rows1 gate]
        \<open>into_delivery d = Some sd\<close> by auto
  next
    case (Some why)
    then obtain db2 where settled: "withdraw_tables d msg why ?db1 = (1, 1, db2)"
      "settle_held_in_transaction codec (dr_delivery_id d) why now ?db1 =
        Inr (Some \<lparr>on_delivery_id = dr_delivery_id d, on_message_id = msg_id msg, on_sender = msg_from msg,
              on_target = msg_to msg, on_reason = why\<rparr>,
           insert_notice (dr_delivery_id d) (msg_from msg) (withdrawn_body msg why) now
             (if reply msg then close_request msg why now db2 else db2))"
      using settle_lost_purpose [OF inv1 d(1,3) head(3,4,1,2)] by blast
    let ?db' = "insert_notice (dr_delivery_id d) (msg_from msg) (withdrawn_body msg why) now
             (if reply msg then close_request msg why now db2 else db2)"
    have "core_of ?db' = core_of db2" by simp
    note queue = withdrawn_queue [OF inv1 rows1 settled(1) this]
    have "db_control db2 = db_control ?db1" "db_interruptions db2 = db_interruptions ?db1"
      using settled(1) by (auto simp: withdraw_tables_def settle_record_def Let_def)
    then have "servable codec agent ?db'" using queue rows1
      by (intro servable_mono [OF serv1]) (auto simp: insert_notice_frame close_request_frame)
    then show ?thesis using settled(2) Some head queue(1) by (simp add: release_candidate_def)
  qed
  ultimately show ?thesis by simp
qed

text \<open>The end of a turn: the gate is cleared and the next message asked for.\<close>

definition serve :: "string \<Rightarrow> int \<Rightarrow> store_op list" where
  "serve agent now = [OpClearGate agent, OpRelease agent now]"

lemma insort_key_map:
  assumes "\<And>x. k (f x) = k x"
  shows "insort_key k (f x) (map f xs) = map f (insort_key k x xs)"
  using assms by (induction xs) auto

lemma sort_key_map:
  assumes "\<And>x. k (f x) = k x"
  shows "sort_key k (map f xs) = map f (sort_key k xs)"
  using assms by (induction xs) (simp_all add: insort_key_map)

lemma clear_gate_queue:
  "map (\<lambda>d. d\<lparr>dr_turn_gate := False\<rparr>) (held_rows agent (clear_held_turn_gate agent db)) =
   map (\<lambda>d. d\<lparr>dr_turn_gate := False\<rparr>) (held_rows agent db)"
proof -
  let ?h = "\<lambda>x. dr_recipient_agent x = agent \<and> dr_phase x = DHeld" and ?f = "\<lambda>d. d\<lparr>dr_turn_gate := False\<rparr>"
  have "map ?f (filter ?h (sql_update (\<lambda>d. dr_recipient_agent d = agent \<and> dr_turn_gate d) ?f D)) = map ?f (filter ?h D)" for D
    by (induction D) auto
  from this [of "db_deliveries db"]
  have "sort_key dr_queue_rank (map ?f (filter ?h (db_deliveries (clear_held_turn_gate agent db)))) =
      sort_key dr_queue_rank (map ?f (filter ?h (db_deliveries db)))"
    by (simp add: clear_held_turn_gate_def)
  then show ?thesis by (simp add: held_rows_def sort_key_map)
qed

lemma cleared:
  assumes "core_inv (core_of db)" and "servable codec agent db"
  shows "core_inv (core_of (clear_held_turn_gate agent db))" and "servable codec agent (clear_held_turn_gate agent db)"
    and "\<not> gated agent (clear_held_turn_gate agent db)"
    and "length (held_rows agent (clear_held_turn_gate agent db)) = length (held_rows agent db)"
proof -
  let ?db = "clear_held_turn_gate agent db"
  show "core_inv (core_of ?db)" by (rule core_steps_inv [OF clear_gate_steps [of "{}"] assms(1)])
  show "length (held_rows agent ?db) = length (held_rows agent db)"
    using map_eq_imp_length_eq [OF clear_gate_queue] .
  show "\<not> gated agent ?db"
    unfolding gated_def sql_exists_iff clear_held_turn_gate_def by (auto elim!: in_sql_updateE split: if_splits)
  have "\<exists>e\<in>set (held_rows agent db). dr_delivery_id e = dr_delivery_id d \<and> dr_key e = dr_key d \<and>
      dr_message_bytes e = dr_message_bytes d" if d: "d \<in> set (held_rows agent ?db)" for d
  proof -
    obtain e where "e \<in> set (db_deliveries db)" "d = e \<or> d = e\<lparr>dr_turn_gate := False\<rparr>"
        "dr_recipient_agent d = agent" "dr_phase d = DHeld"
      using d unfolding held_rows_set clear_held_turn_gate_def by (auto elim!: in_sql_updateE split: if_splits)
    then show ?thesis by (intro bexI [of _ e]) (auto simp: held_rows_set)
  qed
  then have "\<forall>d\<in>set (held_rows agent ?db). Option.bind (dr_message_bytes d) (decode codec) \<noteq> None \<and>
      \<not> sql_exists (\<lambda>l. dl_delivery_id l = dr_delivery_id d) (db_links db) \<and>
      (\<exists>r. load_record (dr_key d) db = Some r \<and> rr_state r = Dispatching)"
    using assms(2) unfolding servable_def by metis
  moreover have "db_links ?db = db_links db" "load_record key ?db = load_record key db" "db_control ?db = db_control db"
      "pending_pause agent ?db = pending_pause agent db" for key
    by (simp_all add: clear_held_turn_gate_def load_record_def pending_pause_def)
  ultimately show "servable codec agent ?db" using assms(2) by (simp add: servable_def)
qed

lemma serve_step:
  assumes "core_inv (core_of db)" and "servable codec agent db"
  shows "core_inv (core_of (store_run codec (serve agent now) db))"
    and "servable codec agent (store_run codec (serve agent now) db)"
    and "length (held_rows agent (store_run codec (serve agent now) db)) = length (held_rows agent db) - 1"
proof -
  let ?db1 = "clear_held_turn_gate agent db"
  note db1 = cleared [OF assms]
  show "core_inv (core_of (store_run codec (serve agent now) db))"
    using store.run_inv [of db codec "serve agent now"] assms(1) by (simp add: store_inv_def)
  have run: "store_run codec (serve agent now) db =
      (case release_next_held codec agent now ?db1 of Inl _ \<Rightarrow> ?db1 | Inr (_, db') \<Rightarrow> db')"
    by (auto simp: serve_def replying_def q_bind_def split: sum.split prod.split)
  have "servable codec agent (store_run codec (serve agent now) db) \<and>
      length (held_rows agent (store_run codec (serve agent now) db)) = length (held_rows agent ?db1) - 1"
  proof (cases "held_rows agent ?db1")
    case Nil
    then have "release_next_held codec agent now ?db1 = Inr ((None, None), ?db1) \<or>
        release_next_held codec agent now ?db1 = Inr ((None, None), expire_gates agent now ?db1)"
      using db1(2) by (simp add: release_next_held_def servable_def expire_gates_same Let_def)
    then show ?thesis using db1(2) Nil
      by (auto simp: run expire_gates_same servable_def pending_pause_def)
  next
    case (Cons d ds)
    from release_progress [OF db1(1-3) this, of now] show ?thesis by (auto simp: run Cons)
  qed
  then show "servable codec agent (store_run codec (serve agent now) db)"
    and "length (held_rows agent (store_run codec (serve agent now) db)) = length (held_rows agent db) - 1"
    by (simp_all add: db1(4))
qed

lemma serve_drains:
  assumes "core_inv (core_of db)" and "servable codec agent db" and "length (held_rows agent db) \<le> n"
  shows "held_rows agent (store_run codec (concat (replicate n (serve agent now))) db) = []"
  using assms
proof (induction n arbitrary: db)
  case (Suc n)
  note step = serve_step [OF Suc.prems(1,2), of now]
  have "held_rows agent (store_run codec (concat (replicate n (serve agent now)))
      (store_run codec (serve agent now) db)) = []"
    using Suc.prems(3) step by (intro Suc.IH) simp_all
  then show ?case by (simp add: serve_def)
qed simp

text \<open>
  C17. The queue drains. For an agent that is neither paused nor waiting for the end of a pause,
  and whose held messages can be decoded and carry no causal link, as many ends of turn as there
  are held messages empty the queue: no message that expired, lost its request or is simply next
  blocks the ones behind it. (No send may have been finalized directly.)
\<close>

theorem held_queue_drains:
  assumes "\<forall>key\<in>finalized_keys ops. operation_kind key \<noteq> OpSend"
    and "\<not> cf_paused (control_read (db_control (reached codec ops)))" and "\<not> pending_pause agent (reached codec ops)"
    and "\<forall>d\<in>set (held_rows agent (reached codec ops)).
      Option.bind (dr_message_bytes d) (decode codec) \<noteq> None \<and> delivery_execution_link (dr_delivery_id d) (reached codec ops) = None"
  shows "held_count agent (store_run codec
    (concat (replicate (held_count agent (reached codec ops)) (serve agent now))) (reached codec ops)) = 0"
proof -
  have count: "held_count agent db = length (held_rows agent db)" for db
    by (simp add: held_count_def held_rows_def sql_matches_def)
  have "servable codec agent (reached codec ops)"
    using assms live_record [OF assms(1)]
    by (auto simp: servable_def delivery_execution_link_def sql_exists_iff sql_row_None_iff held_rows_set live_def)
  from serve_drains [OF reached_core this] show ?thesis by (simp add: count)
qed

theorem held_queue_drains_witness:
  "held_count ''bob'' (reached sample_codec (sample_send ''k'' ''d'' (Some ''bob''))) = 1 \<and>
   held_count ''bob'' (store_run sample_codec
      (concat (replicate (held_count ''bob'' (reached sample_codec (sample_send ''k'' ''d'' (Some ''bob'')))) (serve ''bob'' 10)))
      (reached sample_codec (sample_send ''k'' ''d'' (Some ''bob'')))) = 0"
proof (rule conjI)
  show "held_count ''bob'' (reached sample_codec (sample_send ''k'' ''d'' (Some ''bob''))) = 1" by (simp add: store_eval)
  show "held_count ''bob'' (store_run sample_codec
      (concat (replicate (held_count ''bob'' (reached sample_codec (sample_send ''k'' ''d'' (Some ''bob'')))) (serve ''bob'' 10)))
      (reached sample_codec (sample_send ''k'' ''d'' (Some ''bob'')))) = 0"
  proof (rule held_queue_drains)
    show "\<forall>key\<in>finalized_keys (sample_send ''k'' ''d'' (Some ''bob'')). operation_kind key \<noteq> OpSend"
      by (simp add: finalized_keys_def sample_send_def)
  qed (simp_all add: store_eval release_eval delivery_execution_link_def)
qed

end
