(* ===== verification/Queue_Edits.thy ===== *)
theory Queue_Edits
  imports Queue_Properties
begin

text \<open>
  The edits of a queue: the receipt of a request is durable, so that a replay finds it and
  changes nothing; what a reordering and a promotion do to the queue.
\<close>

section \<open>Receipts are durable\<close>

definition edit_of :: "string \<times> string \<Rightarrow> Db \<Rightarrow> EditRow option" where
  "edit_of k db = sql_row (\<lambda>e. qe_issuer_scope e = fst k \<and> qe_request_id e = snd k) (db_edits db)"

text \<open>Only the edits and the purges write the table of edits.\<close>

named_theorems edits_frame

lemma delete_records_edits: "db_edits (snd (delete_records p db)) = db_edits db"
  by (simp add: delete_records_def Let_def)

lemma purge_expired_sends_edits [edits_frame]:
  "purge_expired_sends now grace db = (n, db') \<Longrightarrow> db_edits db' = db_edits db"
  using delete_records_edits by (metis purge_expired_sends_def snd_conv)

lemma reserve_insert_edits [edits_frame]:
  "reserve_insert key c issued expires now db = Inr (r, db') \<Longrightarrow> db_edits db' = db_edits db"
  by (auto simp: reserve_insert_def split: if_splits sum.splits option.splits)

lemma reserve_edits [edits_frame]:
  "reserve key c issued horizon now tolerance db = Inr (r, db') \<Longrightarrow> db_edits db' = db_edits db"
  by (auto simp: reserve_def dest: reserve_insert_edits split: if_splits sum.splits option.splits)

lemma start_record_edits: "db_edits (snd (start_record key db)) = db_edits db"
  by (simp add: start_record_def)

lemma settle_record_edits: "db_edits (snd (settle_record key kind category reason db)) = db_edits db"
  by (simp add: settle_record_def)

lemma record_transition_edits [edits_frame]:
  "record_transition key a b db = Inr (r, db') \<Longrightarrow> db_edits db' = db_edits db"
  using start_record_edits [of key db] by (auto simp: record_transition_def split: if_splits prod.splits)

lemma finalize_edits [edits_frame]: "finalize key result db = Inr (r, db') \<Longrightarrow> db_edits db' = db_edits db"
  by (auto simp: finalize_def settle_record_def split: if_splits prod.splits option.splits PublicResult.splits)

lemma reject_prepared_edits [edits_frame]:
  "reject_prepared key category reason db = Inr (r, db') \<Longrightarrow> db_edits db' = db_edits db"
  by (auto simp: reject_prepared_def settle_record_def start_record_def split: if_splits prod.splits)

lemma insert_link_edits: "insert_link l db = Inr db' \<Longrightarrow> db_edits db' = db_edits db"
  by (auto simp: insert_link_def split: if_splits)

lemma begin_edits [edits_frame]:
  assumes "begin_send_delivery_with_guidance codec ts key delivery tracking link guidance cap held db = Inr (u, db')"
  shows "db_edits db' = db_edits db"
  using assms
proof (rule begin_Inr)
  fix msg db2 db3 db4
  assume ins: "insert_delivery (begin_row key delivery held msg (resumed_gate link msg (snd (start_record key db))))
      (snd (start_record key db)) = Inr db2"
    and link: "(case link of Some l \<Rightarrow> insert_link l db2 | None \<Rightarrow> Inr db2) = Inr db3"
    and rest: "(case tracking of
        Some r \<Rightarrow> insert_request r (record_message_in_transaction ts msg (msg_from msg @ ''|'' @ msg_to msg) db3)
      | None \<Rightarrow> Inr (record_message_in_transaction ts msg (msg_from msg @ ''|'' @ msg_to msg) db3)) = Inr db4"
      "(case guidance of Some g \<Rightarrow> insert_guidance g db4 | None \<Rightarrow> Inr db4) = Inr db'"
  have "db_edits db' = db_edits db4"
    using rest(2) by (auto simp: insert_guidance_def split: option.splits if_splits prod.splits)
  also have "\<dots> = db_edits db3"
    using rest(1) by (auto simp: insert_request_def record_message_in_transaction_def split: option.splits if_splits)
  also have "\<dots> = db_edits db2" using link insert_link_edits by (auto split: option.splits)
  also have "\<dots> = db_edits db" by (simp add: insert_delivery_Inr(1) [OF ins] start_record_edits)
  finally show ?thesis .
qed

lemma link_send_delivery_edits [edits_frame]:
  "link_send_delivery link db = Inr (r, db') \<Longrightarrow> db_edits db' = db_edits db"
  by (auto simp: link_send_delivery_def q_bind_Inr_iff dest: insert_link_edits split: if_splits option.splits)

lemma moves_edits [edits_frame]:
  "reassign_dispatching_deliveries codec a b now db = (n, db') \<Longrightarrow> db_edits db' = db_edits db"
  "adopt_held_for_agent codec agent inst recover ts db = Inr (n, db') \<Longrightarrow> db_edits db' = db_edits db"
  "dispatching_deliveries_for_instance inst now db = Inr (ds, db') \<Longrightarrow> db_edits db' = db_edits db"
  "mark_delivery_indeterminate did inst gen db = Inr (u, db') \<Longrightarrow> db_edits db' = db_edits db"
  "settle_expired_dispatching now db = (n, db') \<Longrightarrow> db_edits db' = db_edits db"
  "open_turn p db = (n, db') \<Longrightarrow> db_edits db' = db_edits db"
  by (auto simp: reassign_dispatching_deliveries_def adopt_held_for_agent_def dispatching_deliveries_for_instance_def
      mark_delivery_indeterminate_def settle_expired_dispatching_def open_turn_def Let_def split: if_splits)

lemma frame_edits:
  "db_edits (mark_orphan_emitter_notified did now db) = db_edits db"
  "db_edits (clear_held_turn_gate agent db) = db_edits db"
  "db_edits (expire_gates agent now db) = db_edits db"
  "db_edits (insert_notice i j k at db) = db_edits db"
  by (simp_all add: mark_orphan_emitter_notified_def clear_held_turn_gate_def expire_gates_def insert_notice_def)

lemma orphan_one_edits: "orphan_one codec reason ts d db = Inr (n, db') \<Longrightarrow> db_edits db' = db_edits db"
  by (auto simp: orphan_one_def settle_record_def insert_notice_def Let_def split: if_splits prod.splits)

lemma orphan_loop_edits: "orphan_loop codec reason ts ds db = Inr (ns, db') \<Longrightarrow> db_edits db' = db_edits db"
  by (induction ds arbitrary: db ns) (auto simp: q_bind_Inr_iff dest: orphan_one_edits)

lemma orphan_edits [edits_frame]:
  "orphan_dispatching_for_instance codec inst reason ts db = Inr (ns, db') \<Longrightarrow> db_edits db' = db_edits db"
  by (auto simp: orphan_dispatching_for_instance_def dest: orphan_loop_edits)

lemma answer_request_edits: "db_edits (snd (answer_request codec ts d db)) = db_edits db"
  by (simp add: answer_request_def mark_answered_in_transaction_def Let_def split: option.split)

lemma ack_edits [edits_frame]:
  assumes "acknowledge_send_delivery_at codec ts did inst gen now db = Inr (res, db')"
  shows "db_edits db' = db_edits db"
proof -
  from assms have "db' = db \<or> (\<exists>d. (res, db') = answer_request codec ts d (acked_db d now db))"
    by (auto simp: acknowledge_send_delivery_at_def split: option.splits if_splits prod.splits) (metis snd_conv)
  moreover have "db_edits (acked_db d now db) = db_edits db" for d
    by (simp add: ack_tables_def settle_record_def Let_def)
  ultimately show ?thesis using answer_request_edits by (metis snd_conv)
qed

lemma lifecycle_edits: "db_edits (record_lifecycle_for_linked_request_in_transaction rid st at db) = db_edits db"
proof -
  have "db_edits (fold (\<lambda>g. record_lifecycle_event_in_transaction (gr_issuer_scope g) (gr_request_id g) st at
      (Some rid) None) gs db) = db_edits db" for gs
    by (induction gs arbitrary: db) (simp_all add: record_lifecycle_event_in_transaction_def)
  then show ?thesis by (simp add: record_lifecycle_for_linked_request_in_transaction_def)
qed

lemma close_request_edits: "db_edits (close_request msg reason now db) = db_edits db"
  using lifecycle_edits by (simp add: close_request_def Let_def)

lemma withdraw_edits: "db_edits (withdrawn_db d msg reason db) = db_edits db"
  by (simp add: withdraw_tables_def settle_record_def Let_def)

lemma settle_held_edits [edits_frame]:
  assumes "settle_held_in_transaction codec did reason now db = Inr (n, db')"
  shows "db_edits db' = db_edits db"
proof -
  have "db' = db \<or> (\<exists>d msg db2. db2 = withdrawn_db d msg reason db \<and>
      db' = insert_notice did (msg_from msg) (withdrawn_body msg reason) now
        (if reply msg then close_request msg reason now db2 else db2))"
    using assms unfolding settle_held_in_transaction_def
    by (auto split: option.splits if_splits prod.splits) (metis snd_conv)+
  then show ?thesis by (auto simp: frame_edits close_request_edits withdraw_edits)
qed

lemma release_edits [edits_frame]:
  assumes "release_next_held codec agent now db = Inr (res, db')"
  shows "db_edits db' = db_edits db"
  using assms
proof (cases rule: release_Inr)
  case (candidate d ds)
  then show ?thesis
    by (auto simp: release_candidate_def q_bind_Inr_iff frame_edits dest!: settle_held_edits moves_edits(6)
        split: option.splits if_splits prod.splits)
qed (auto simp: frame_edits)

lemma edit_row_simps [simp]:
  "qe_issuer_scope (edit_row scope rid c act actor now d b st ref) = scope"
  "qe_request_id (edit_row scope rid c act actor now d b st ref) = rid"
  "qe_canonical_bytes (edit_row scope rid c act actor now d b st ref) = c"
  "qe_action (edit_row scope rid c act actor now d b st ref) = act"
  "qe_expires_at (edit_row scope rid c act actor now d b st ref) = now + QUEUE_EDIT_RETENTION_SECS"
  "qe_state (edit_row scope rid c act actor now d b st ref) = st"
  "qe_refusal (edit_row scope rid c act actor now d b st ref) = ref"
  "edit_effect EditRefused act = None"
  by (simp_all add: edit_row_def edit_effect_def)

text \<open>What an edit writes: nothing when the request is known, one receipt otherwise.\<close>

lemma queue_edit_receipt:
  assumes "queue_edit_once scope rid c act actor now app db = Inr ((receipt, eff, notice), db')"
    and "\<And>x db1. app db = Inr (x, db1) \<Longrightarrow> db_edits db1 = db_edits db"
  shows "(case edit_of (scope, rid) db of
      Some e \<Rightarrow> db' = db \<and> eff = None \<and> notice = None \<and>
        receipt = (if qe_canonical_bytes e \<noteq> c \<or> qe_action e \<noteq> act
          then \<lparr>qr_state = EditRefused, qr_refusal = Some ''envelope_mismatch'', qr_effect = None\<rparr>
          else \<lparr>qr_state = qe_state e, qr_refusal = qe_refusal e, qr_effect = edit_effect (qe_state e) act\<rparr>)
    | None \<Rightarrow> \<exists>e. db_edits db' = db_edits db @ [e] \<and> qe_issuer_scope e = scope \<and> qe_request_id e = rid \<and>
        qe_canonical_bytes e = c \<and> qe_action e = act \<and> qe_expires_at e = now + QUEUE_EDIT_RETENTION_SECS \<and>
        receipt = \<lparr>qr_state = qe_state e, qr_refusal = qe_refusal e, qr_effect = edit_effect (qe_state e) act\<rparr>)"
proof (cases "edit_of (scope, rid) db")
  case (Some e)
  with assms(1) show ?thesis
    by (auto simp: queue_edit_once_def edit_of_def q_bind_Inr_iff split: if_splits)
next
  case None
  with assms(1) obtain delivery before decision db1 where app: "app db = Inr ((delivery, before, decision), db1)"
    by (auto simp: queue_edit_once_def edit_of_def q_bind_Inr_iff split: if_splits)
  have "db_edits db1 = db_edits db" using assms(2) app by blast
  with assms(1) None app show ?thesis
    by (cases decision)
      (auto simp: queue_edit_once_def edit_of_def q_bind_Inr_iff
        split: if_splits option.splits prod.splits)
qed

lemma cancel_apply_edits: "cancel_apply codec agent mid now db = Inr (x, db1) \<Longrightarrow> db_edits db1 = db_edits db"
  by (auto simp: cancel_apply_def q_bind_Inr_iff dest: settle_held_edits split: option.splits)

lemma negate_ranks_edits: "negate_ranks agent rows db = Inr db1 \<Longrightarrow> db_edits db1 = db_edits db"
  by (induction agent rows db rule: negate_ranks.induct) (auto simp: q_bind_Inr_iff update_rank_def split: if_splits)

lemma assign_ranks_edits: "assign_ranks agent rows db = Inr db1 \<Longrightarrow> db_edits db1 = db_edits db"
  by (induction agent rows db rule: assign_ranks.induct) (auto simp: q_bind_Inr_iff update_rank_def split: if_splits)

lemma reorder_rows_edits: "reorder_rows agent did before rows db = Inr db1 \<Longrightarrow> db_edits db1 = db_edits db"
  by (auto simp: reorder_rows_def q_bind_Inr_iff Let_def dest!: negate_ranks_edits assign_ranks_edits
      split: if_splits option.splits)

lemma reorder_apply_edits: "reorder_apply codec agent mid before db = Inr (x, db1) \<Longrightarrow> db_edits db1 = db_edits db"
  by (auto simp: reorder_apply_def q_bind_Inr_iff dest: reorder_rows_edits split: option.splits)

lemma promote_apply_edits:
  assumes "promote_apply codec code rights agent mid now db = Inr (x, db1)"
  shows "db_edits db1 = db_edits db"
proof -
  have "db_edits db1 = db_edits db" if "promote_candidate codec code rights agent now d db = Inr (x, db1)" for d
    using that
    by (auto simp: promote_candidate_def q_bind_Inr_iff dest: settle_held_edits moves_edits(6)
        split: option.splits sum.splits if_splits prod.splits)
  with assms show ?thesis by (auto simp: promote_apply_def split: option.splits)
qed

text \<open>An edit as a request: its identity, its envelope and its date, when its rights let it through.\<close>

fun edit_request :: "store_op \<Rightarrow> ((string \<times> string) \<times> string \<times> QueueEditAction \<times> int) option" where
  "edit_request (OpCancel scope rid c actor agent mid now) = Some ((scope, rid), c, EditCancel, now)"
| "edit_request (OpReorder scope rid c actor agent mid before now) = Some ((scope, rid), c, EditReorder, now)"
| "edit_request (OpPromote scope rid c actor agent mid facts code now) =
     (case authorize (facts\<lparr>gf_action := QueuePromote\<rparr>) of
        Inl _ \<Rightarrow> None | Inr _ \<Rightarrow> Some ((scope, rid), c, EditPromote, now))"
| "edit_request _ = None"

fun receipt_of :: "store_reply \<Rightarrow> QueueEditReceipt option" where
  "receipt_of (RCancelled r n) = Some r"
| "receipt_of (RReordered r u) = Some r"
| "receipt_of (RPromoted r d n) = Some r"
| "receipt_of _ = None"

text \<open>A reply that hands out no delivery, no notice and no confirmation.\<close>

fun no_effect :: "store_reply \<Rightarrow> bool" where
  "no_effect (RCancelled r n) = (n = None)"
| "no_effect (RReordered r u) = (u = None)"
| "no_effect (RPromoted r d n) = (d = None \<and> n = None)"
| "no_effect _ = False"

fun receipt_step :: "string \<times> string \<Rightarrow> string \<Rightarrow> QueueEditAction \<Rightarrow> int \<Rightarrow> Db \<Rightarrow> store_reply \<Rightarrow> Db \<Rightarrow> bool" where
  "receipt_step k c act now db rep db' =
     (case edit_of k db of
        Some e \<Rightarrow> db' = db \<and> no_effect rep \<and>
          receipt_of rep = Some (if qe_canonical_bytes e \<noteq> c \<or> qe_action e \<noteq> act
            then \<lparr>qr_state = EditRefused, qr_refusal = Some ''envelope_mismatch'', qr_effect = None\<rparr>
            else \<lparr>qr_state = qe_state e, qr_refusal = qe_refusal e, qr_effect = edit_effect (qe_state e) act\<rparr>)
      | None \<Rightarrow> \<exists>e. db_edits db' = db_edits db @ [e] \<and> qe_issuer_scope e = fst k \<and> qe_request_id e = snd k \<and>
          qe_canonical_bytes e = c \<and> qe_action e = act \<and> qe_expires_at e = now + QUEUE_EDIT_RETENTION_SECS \<and>
          receipt_of rep = Some \<lparr>qr_state = qe_state e, qr_refusal = qe_refusal e,
            qr_effect = edit_effect (qe_state e) act\<rparr>)"

lemma store_exec_edit:
  assumes "store_exec codec x db = Inr (rep, db')" and "edit_request x = Some (k, c, act, now)"
  shows "receipt_step k c act now db rep db'"
proof (cases x)
  case (OpCancel scope rid c' actor agent mid now')
  then obtain receipt eff notice where q: "queue_edit_once scope rid c EditCancel actor now (cancel_apply codec agent mid now) db =
      Inr ((receipt, eff, notice), db')" "rep = RCancelled receipt eff"
    using assms by (auto simp: replying_Inr apply_cancel_def q_bind_Inr_iff)
  from queue_edit_receipt [OF q(1)] cancel_apply_edits show ?thesis
    using assms(2) OpCancel q(2) by (fastforce split: option.splits)
next
  case (OpReorder scope rid c' actor agent mid before now')
  then obtain receipt eff notice where q: "queue_edit_once scope rid c EditReorder actor now
      (reorder_apply codec agent mid before) db = Inr ((receipt, eff, notice), db')" "rep = RReordered receipt eff"
    using assms by (auto simp: replying_Inr apply_reorder_def q_bind_Inr_iff)
  from queue_edit_receipt [OF q(1)] reorder_apply_edits show ?thesis
    using assms(2) OpReorder q(2) by (fastforce split: option.splits)
next
  case (OpPromote scope rid c' actor agent mid facts code now')
  then obtain receipt eff notice where q: "queue_edit_once scope rid c EditPromote actor now
      (promote_apply codec code (facts\<lparr>gf_action := QueuePromote\<rparr>) agent mid now) db = Inr ((receipt, eff, notice), db')"
      "rep = RPromoted receipt eff notice"
    using assms by (auto simp: replying_Inr apply_promote_def Let_def split: sum.splits)
  from queue_edit_receipt [OF q(1)] promote_apply_edits show ?thesis
    using assms(2) OpPromote q(2) by (fastforce split: option.splits sum.splits)
qed (use assms in simp_all)

fun edit_horizon :: "store_op \<Rightarrow> int option" where
  "edit_horizon (OpPurgeEdits now) = Some now"
| "edit_horizon (OpPurgeExpired now) = Some now"
| "edit_horizon _ = None"

definition purges_edit :: "store_op \<Rightarrow> string \<times> string \<Rightarrow> Db \<Rightarrow> bool" where
  "purges_edit x k db \<longleftrightarrow>
     (\<exists>h e. edit_horizon x = Some h \<and> edit_of k db = Some e \<and> qe_expires_at e < h)"

lemma store_exec_other:
  assumes "store_exec codec x db = Inr (rep, db')" and "edit_request x = None" and "edit_horizon x = None"
  shows "db_edits db' = db_edits db"
  using assms
  by (cases x)
    (auto simp: replying_Inr settle_held_def apply_promote_def frame_edits Let_def
      dest: edits_frame split: sum.splits)

lemma sql_row_delete_kept: "sql_row p rows = Some e \<Longrightarrow> \<not> q e \<Longrightarrow> sql_row p (sql_delete q rows) = Some e"
  by (induction rows) (auto simp: sql_row_def sql_delete_def split: if_splits)

lemma purge_edits:
  assumes "store_exec codec x db = Inr (rep, db')" and "edit_horizon x = Some h"
  shows "db_edits db' = sql_delete (\<lambda>e. qe_expires_at e < h) (db_edits db)"
  using assms delete_records_edits
  by (cases x) (auto simp: replying_Inr purge_expired_def purge_queue_edits_def Let_def split: prod.splits, metis snd_conv)

lemma edit_stable:
  assumes exec: "store_exec codec x db = Inr (rep, db')" and e: "edit_of k db = Some e" and kept: "\<not> purges_edit x k db"
  shows "edit_of k db' = Some e"
proof (cases "edit_horizon x")
  case (Some h)
  then have "\<not> qe_expires_at e < h" using kept e by (auto simp: purges_edit_def)
  with e purge_edits [OF exec Some] show ?thesis by (simp add: edit_of_def sql_row_delete_kept)
next
  case None
  show ?thesis
  proof (cases "edit_request x")
    case (Some p)
    obtain k' c act now where p: "p = (k', c, act, now)" by (cases p)
    from store_exec_edit [OF exec Some [unfolded p]] show ?thesis
      using e by (auto simp: edit_of_def sql_row_append split: option.splits)
  next
    assume "edit_request x = None"
    from store_exec_other [OF exec this None] e show ?thesis by (simp add: edit_of_def)
  qed
qed

interpretation edits: durable_store "store_exec codec" store_inv edit_of purges_edit for codec
  by unfold_locales (rule edit_stable)

definition edits_kept :: "int \<Rightarrow> store_op list \<Rightarrow> bool" where
  "edits_kept e ops \<longleftrightarrow> (\<forall>x\<in>set ops. case edit_horizon x of Some h \<Rightarrow> h \<le> e | None \<Rightarrow> True)"

lemma edits_kept_ops:
  assumes "store_inv db" and "edit_of k db = Some e" and "edits_kept (qe_expires_at e) ops"
  shows "kept_ops (store_exec codec) purges_edit k ops db"
  using assms
proof (induction ops arbitrary: db)
  case (Cons x ops)
  have alive: "\<not> purges_edit x k db" using Cons.prems(2,3) by (auto simp: purges_edit_def edits_kept_def)
  have "edits_kept (qe_expires_at e) ops" using Cons.prems(3) by (simp add: edits_kept_def)
  then show ?case using Cons alive edit_stable [of codec x db] store.exec_inv [of db codec x]
    by (auto split: sum.splits)
qed simp

text \<open>
  C8. An edit of a queue takes effect once. After a cancel, a reorder or a promote has been
  decided for a request for the first time, any later edit under the same request identifier,
  whatever happened in between, changes nothing and hands out nothing until the receipt is
  purged, a week later: it is answered with the first receipt if it asks for the same action
  with the same envelope, and refused as a mismatch otherwise.
\<close>

theorem queue_edit_exactly_once:
  assumes "store_exec codec x (reached codec past) = Inr (rep, db)" and "edit_request x = Some (k, c, act, now)"
    and "edit_of k (reached codec past) = None" and "edits_kept (now + QUEUE_EDIT_RETENTION_SECS) later"
    and "store_exec codec y (store_run codec later db) = Inr (rep', db')" and "edit_request y = Some (k, c', act', now')"
  shows "db' = store_run codec later db \<and> no_effect rep' \<and>
    receipt_of rep' = (if c' = c \<and> act' = act then receipt_of rep
      else Some \<lparr>qr_state = EditRefused, qr_refusal = Some ''envelope_mismatch'', qr_effect = None\<rparr>)"
proof -
  obtain e where e: "db_edits db = db_edits (reached codec past) @ [e]" "qe_issuer_scope e = fst k" "qe_request_id e = snd k"
    "qe_canonical_bytes e = c" "qe_action e = act" "qe_expires_at e = now + QUEUE_EDIT_RETENTION_SECS"
    "receipt_of rep = Some \<lparr>qr_state = qe_state e, qr_refusal = qe_refusal e, qr_effect = edit_effect (qe_state e) act\<rparr>"
    using store_exec_edit [OF assms(1,2)] assms(3) by auto
  have "edit_of k db = Some e"
    using assms(3) e(1-3) by (simp add: edit_of_def sql_row_append) (simp add: sql_row_def)
  moreover have inv: "store_inv db" using store.exec_inv [OF reached_inv assms(1)] .
  ultimately have "edit_of k (store_run codec later db) = Some e"
    using edits_kept_ops [of db k e later codec] assms(4) e(6) by (intro edits.run_fact) simp_all
  then show ?thesis using store_exec_edit [OF assms(5,6)] e(4,5,7) by (auto split: if_splits)
qed

definition sample_cancel :: "string \<Rightarrow> store_op" where
  "sample_cancel c = OpCancel ''alice-alice-alice-alice'' ''req'' c ''alice'' ''bob'' ''m1'' 20"

lemma sample_valid:
  "validate_issuer_scope ''alice-alice-alice-alice'' = Inr ()" "validate_idempotency_key ''req'' = Inr ()"
  by code_simp+

lemmas edit_eval =
  sample_cancel_def sample_valid apply_cancel_def queue_edit_once_def QUEUE_EDIT_RETENTION_SECS_def
  cancel_apply_def unique_held_public_id_def settle_held_in_transaction_def settlement_reasons_def
  withdraw_tables_def insert_notice_def

theorem queue_edit_exactly_once_witness:
  "\<exists>rep db. store_exec sample_codec (sample_cancel ''c'') (reached sample_codec (sample_send ''k'' ''d'' (Some ''bob''))) =
      Inr (rep, db) \<and> receipt_of rep = Some \<lparr>qr_state = EditApplied, qr_refusal = None, qr_effect = None\<rparr> \<and>
    (\<exists>rep'. store_exec sample_codec (sample_cancel ''c'') (store_run sample_codec [OpPurgeExpired 30] db) =
      Inr (rep', store_run sample_codec [OpPurgeExpired 30] db) \<and> receipt_of rep' = receipt_of rep)"
proof -
  let ?db0 = "reached sample_codec (sample_send ''k'' ''d'' (Some ''bob''))"
  let ?k = "(''alice-alice-alice-alice'', ''req'')"
  have req: "edit_request (sample_cancel ''c'') = Some (?k, ''c'', EditCancel, 20)" by (simp add: sample_cancel_def)
  obtain rep db where one: "store_exec sample_codec (sample_cancel ''c'') ?db0 = Inr (rep, db)"
    "receipt_of rep = Some \<lparr>qr_state = EditApplied, qr_refusal = None, qr_effect = None\<rparr>"
    by (simp add: store_eval edit_eval edit_effect_def Let_def)
  have fresh: "edit_of ?k ?db0 = None" by (simp add: store_eval edit_of_def)
  have kept: "edits_kept (20 + QUEUE_EDIT_RETENTION_SECS) [OpPurgeExpired 30]"
    by (simp add: edits_kept_def QUEUE_EDIT_RETENTION_SECS_def)
  have "\<exists>rep' db'. store_exec sample_codec (sample_cancel ''c'') (store_run sample_codec [OpPurgeExpired 30] db) = Inr (rep', db')"
  proof -
    have "\<exists>e. edit_of ?k (store_run sample_codec [OpPurgeExpired 30] db) = Some e"
      using one(1) by (auto simp: store_eval edit_eval Let_def edit_of_def purge_expired_def delete_records_def purge_queue_edits_def)
    then show ?thesis by (auto simp: edit_eval replying_def edit_of_def validate_canonical_bytes_def
        MAX_CANONICAL_BYTES_def checked_add_def is_i64_def i64_max_def i64_min_def)
  qed
  then obtain rep' db' where two: "store_exec sample_codec (sample_cancel ''c'')
      (store_run sample_codec [OpPurgeExpired 30] db) = Inr (rep', db')" by (elim exE)
  from queue_edit_exactly_once [OF one(1) req fresh kept two req]
  have same: "db' = store_run sample_codec [OpPurgeExpired 30] db" "receipt_of rep' = receipt_of rep" by simp_all
  from one two [unfolded same(1)] same(2) show ?thesis by (intro exI conjI)
qed

section \<open>Reordering\<close>

definition edit_valid :: "string \<Rightarrow> string \<Rightarrow> string \<Rightarrow> int \<Rightarrow> bool" where
  "edit_valid scope rid c now \<longleftrightarrow>
     validate_issuer_scope scope = Inr () \<and> validate_idempotency_key rid = Inr () \<and>
     validate_canonical_bytes c = Inr () \<and> checked_add now QUEUE_EDIT_RETENTION_SECS \<noteq> None"

text \<open>
  C19. A reordering moves exactly the message it names. On every reachable database a valid
  new request succeeds: the two passes over the ranks, which are the primary key of the table
  and must stay unique at every statement, leave the queue that a list operation would (the
  message taken out and put back before the named one, or at the end), and every other
  delivery untouched. If one of the two messages is not held, or not alone under its
  identifier, the edit is refused and no delivery changes.
\<close>

theorem reorder_moves_one_message:
  assumes "edit_valid scope rid c now" and "edit_of (scope, rid) (reached codec ops) = None"
  shows "\<exists>receipt eff db'. apply_reorder codec scope rid c actor agent mid before now (reached codec ops) =
      Inr ((receipt, eff), db') \<and>
    (case (unique_held_public_id codec agent mid (reached codec ops), resolve_before codec agent before (reached codec ops)) of
       (Some did, Some target) \<Rightarrow>
         receipt = \<lparr>qr_state = EditApplied, qr_refusal = None, qr_effect = None\<rparr> \<and>
         map dr_delivery_id (held_rows agent db') =
           move_before did target (map dr_delivery_id (held_rows agent (reached codec ops))) \<and>
         filter (\<lambda>d. dr_phase d \<noteq> DHeld \<or> dr_recipient_agent d \<noteq> agent) (db_deliveries db') =
           filter (\<lambda>d. dr_phase d \<noteq> DHeld \<or> dr_recipient_agent d \<noteq> agent) (db_deliveries (reached codec ops))
     | _ \<Rightarrow> receipt = \<lparr>qr_state = EditRefused, qr_refusal = Some ''not_held'', qr_effect = None\<rparr> \<and>
         db_deliveries db' = db_deliveries (reached codec ops))"
proof -
  let ?db = "reached codec ops"
  note app = reorder_apply_eq [OF reached_core [of codec ops], of codec agent mid before]
  have held: "held_rows agent (db1\<lparr>db_edits := es\<rparr>) = held_rows agent db1" for db1 es by (simp add: held_rows_def)
  show ?thesis
  proof (cases "unique_held_public_id codec agent mid ?db")
    case None
    with assms app show ?thesis
      by (auto simp: apply_reorder_def queue_edit_once_def edit_valid_def edit_of_def edit_effect_def)
  next
    case (Some did)
    note moved = reordered_queue [OF reached_core unique_held_in_queue [OF Some]]
      reordered_rest [OF reached_core unique_held_in_queue [OF Some]]
    from assms app Some moved show ?thesis
      by (cases "resolve_before codec agent before ?db")
        (auto simp: apply_reorder_def queue_edit_once_def edit_valid_def edit_of_def edit_effect_def held)
  qed
qed

definition echo_codec :: Codec where
  "echo_codec = \<lparr>decode = (\<lambda>b. Some (sample_message\<lparr>msg_id := b\<rparr>)), json_id = Some,
     json_thread_notice_absent = (\<lambda>b. True), summary_json = (\<lambda>i f s t. s)\<rparr>"

definition echo_hold :: "string \<Rightarrow> string \<Rightarrow> store_op list" where
  "echo_hold k bytes =
     [OpReserve (sample_key k) ''canon'' 0 1000 1 5,
      OpBegin 2 (sample_key k) ((sample_delivery k)\<lparr>sd_message_bytes := bytes\<rparr>) None None None (Some 5) (Some ''bob'')]"

abbreviation two_held :: "store_op list" where
  "two_held \<equiv> echo_hold ''d1'' ''m1'' @ echo_hold ''d2'' ''m2''"

theorem reorder_moves_one_message_witness:
  "\<exists>receipt eff db'. apply_reorder echo_codec ''alice-alice-alice-alice'' ''req'' ''c'' ''alice'' ''bob'' ''m2'' (Some ''m1'') 9
      (reached echo_codec two_held) = Inr ((receipt, eff), db') \<and>
    qr_state receipt = EditApplied \<and> map dr_delivery_id (held_rows ''bob'' db') = [''d2'', ''d1'']"
proof -
  have valid: "edit_valid ''alice-alice-alice-alice'' ''req'' ''c'' 9"
    by (simp add: edit_valid_def sample_valid validate_canonical_bytes_def MAX_CANONICAL_BYTES_def checked_add_def
        is_i64_def i64_max_def i64_min_def QUEUE_EDIT_RETENTION_SECS_def)
  have fresh: "edit_of (''alice-alice-alice-alice'', ''req'') (reached echo_codec two_held) = None"
    and found: "unique_held_public_id echo_codec ''bob'' ''m2'' (reached echo_codec two_held) = Some ''d2''"
      "resolve_before echo_codec ''bob'' (Some ''m1'') (reached echo_codec two_held) = Some (Some ''d1'')"
    and queue: "map dr_delivery_id (held_rows ''bob'' (reached echo_codec two_held)) = [''d1'', ''d2'']"
    by (simp_all add: store_eval echo_codec_def echo_hold_def edit_of_def unique_held_public_id_def resolve_before_def
        held_rows_def)
  from reorder_moves_one_message [OF valid fresh, of "''alice''" "''bob''" "''m2''" "Some ''m1''"]
  show ?thesis by (auto simp: found queue move_before_def)
qed

section \<open>Promotion\<close>

lemma promote_candidate_Inr:
  assumes "promote_candidate codec code rights agent now d db = Inr ((did, before, Inr sd), db1)"
  obtains msg where "Option.bind (dr_message_bytes d) (decode codec) = Some msg" and "lost_purpose d msg now db = None"
    and "authorize_queue_edit (promote_facts rights agent d msg now db) = Inr ()" and "into_delivery d = Some sd"
    and "fst (open_turn (\<lambda>x. dr_delivery_id x = dr_delivery_id d \<and> dr_recipient_agent x = agent) db) = 1"
    and "db1 = snd (open_turn (\<lambda>x. dr_delivery_id x = dr_delivery_id d \<and> dr_recipient_agent x = agent) db)"
proof -
  obtain bytes where bytes: "dr_message_bytes d = Some bytes"
    using assms by (cases "dr_message_bytes d") (simp_all add: promote_candidate_def)
  with assms obtain msg where msg: "decode codec bytes = Some msg"
    by (cases "decode codec bytes") (simp_all add: promote_candidate_def)
  have purpose: "lost_purpose d msg now db = None"
    using assms bytes msg
    by (cases "lost_purpose d msg now db") (auto simp: promote_candidate_def q_bind_Inr_iff split: option.splits)
  have granted: "authorize_queue_edit (promote_facts rights agent d msg now db) = Inr ()"
    using assms bytes msg purpose
    by (cases "authorize_queue_edit (promote_facts rights agent d msg now db)") (auto simp: promote_candidate_def)
  show thesis
    using assms bytes msg purpose granted
    by (intro that [of msg]) (auto simp: promote_candidate_def into_delivery_def split: prod.splits if_splits)
qed

lemma promote_Inr:
  assumes "apply_promote codec scope rid c actor agent mid facts code now db = Inr ((receipt, Some sd, notice), db')"
  obtains d db1 did before where
    "unique_held_public_id codec agent mid db = Some (dr_delivery_id d)" and "d \<in> set (db_deliveries db)"
    and "dr_phase d = DHeld" and "load_record (dr_key d) db \<noteq> None"
    and "promote_candidate codec code (facts\<lparr>gf_action := QueuePromote\<rparr>) agent now d db = Inr ((did, before, Inr sd), db1)"
    and "db_deliveries db' = db_deliveries db1" and "receipt = \<lparr>qr_state = EditApplied, qr_refusal = None, qr_effect = Some Unconfirmed\<rparr>"
    and "notice = None"
proof -
  let ?app = "promote_apply codec code (facts\<lparr>gf_action := QueuePromote\<rparr>) agent mid now"
  from assms have once: "queue_edit_once scope rid c EditPromote actor now ?app db = Inr ((receipt, Some sd, notice), db')"
    by (auto simp: apply_promote_def Let_def split: sum.splits)
  then have fresh: "sql_row (\<lambda>e. qe_issuer_scope e = scope \<and> qe_request_id e = rid) (db_edits db) = None"
    by (auto simp: queue_edit_once_def q_bind_Inr_iff split: option.splits if_splits)
  with once obtain did before decision db1 where called: "?app db = Inr ((did, before, decision), db1)"
    by (auto simp: queue_edit_once_def q_bind_Inr_iff split: if_splits)
  with once fresh have app: "decision = Inr sd" "db_deliveries db' = db_deliveries db1"
    "receipt = \<lparr>qr_state = EditApplied, qr_refusal = None, qr_effect = Some Unconfirmed\<rparr>" "notice = None"
    by (cases decision; auto simp: queue_edit_once_def q_bind_Inr_iff edit_effect_def
        split: option.splits if_splits prod.splits)+
  from called [unfolded app(1)] obtain d where "unique_held_public_id codec agent mid db = Some (dr_delivery_id d)"
    "d \<in> set (db_deliveries db)" "dr_phase d = DHeld" "load_record (dr_key d) db \<noteq> None"
    "promote_candidate codec code (facts\<lparr>gf_action := QueuePromote\<rparr>) agent now d db = Inr ((did, before, Inr sd), db1)"
    by (auto simp: promote_apply_def dest!: sql_row_SomeD split: option.splits)
  with app show thesis by (intro that)
qed

lemma promote_editable:
  "gf_action f = QueuePromote \<Longrightarrow> authorize_queue_edit f = Inr () \<Longrightarrow> message_editable f \<and> recipient_turn_active f"
  by (auto simp: authorize_queue_edit_def split: sum.splits if_splits)

text \<open>
  C20. A promotion is guarded inside its own transaction. It hands out a delivery only if the
  message is held for the agent and alone under its identifier, has not expired, carries no
  causal link, the request it carries is open, the recipient's turn is active and no other turn
  is reserved for it, and the guard of queue edits grants it on the facts read in the
  transaction; the message is taken out of the queue, the others keep their order, and no release
  hands out anything until that turn is over.
\<close>

theorem promotion_is_guarded:
  assumes "apply_promote codec scope rid c actor agent mid facts code now (reached codec ops) =
      Inr ((receipt, Some sd, notice), db')"
  shows "(\<exists>d msg. d \<in> set (held_rows agent (reached codec ops)) \<and> into_delivery d = Some sd \<and>
      unique_held_public_id codec agent mid (reached codec ops) = Some (dr_delivery_id d) \<and>
      decode codec (sd_message_bytes sd) = Some msg \<and> now < sd_expires_at sd \<and>
      delivery_execution_link (dr_delivery_id d) (reached codec ops) = None \<and>
      (reply msg \<longrightarrow> request_open msg now (reached codec ops)) \<and>
      authorize_queue_edit (promote_facts (facts\<lparr>gf_action := QueuePromote\<rparr>) agent d msg now (reached codec ops)) = Inr () \<and>
      held_rows agent db' = filter (\<lambda>x. x \<noteq> d) (held_rows agent (reached codec ops))) \<and>
    recipient_turn_active facts \<and> \<not> gated agent (reached codec ops) \<and>
    receipt = \<lparr>qr_state = EditApplied, qr_refusal = None, qr_effect = Some Unconfirmed\<rparr> \<and>
    release_next_held codec agent now' db' = Inr ((None, None), db')"
  using assms
proof (rule promote_Inr)
  fix d db1 did before
  let ?db = "reached codec ops" and ?rights = "facts\<lparr>gf_action := QueuePromote\<rparr>"
  assume id: "unique_held_public_id codec agent mid ?db = Some (dr_delivery_id d)" and d: "d \<in> set (db_deliveries ?db)"
    and held: "dr_phase d = DHeld" and cand: "promote_candidate codec code ?rights agent now d ?db = Inr ((did, before, Inr sd), db1)"
    and same: "db_deliveries db' = db_deliveries db1"
    and receipt: "receipt = \<lparr>qr_state = EditApplied, qr_refusal = None, qr_effect = Some Unconfirmed\<rparr>"
  note ids = delivery_facts(1) [OF reached_core [of codec ops]]
  obtain x where "x \<in> set (held_rows agent ?db)" "dr_delivery_id x = dr_delivery_id d"
    using unique_held_in_queue [OF id] by auto
  moreover from this have "x = d" using distinct_map_eq [OF ids, of x d] d by (simp add: held_rows_set)
  ultimately have queued: "d \<in> set (held_rows agent ?db)" and agent: "dr_recipient_agent d = agent" by (simp_all add: held_rows_set)
  let ?p = "\<lambda>x. dr_delivery_id x = dr_delivery_id d \<and> dr_recipient_agent x = agent"
  obtain msg where out: "Option.bind (dr_message_bytes d) (decode codec) = Some msg" "lost_purpose d msg now ?db = None"
    "authorize_queue_edit (promote_facts ?rights agent d msg now ?db) = Inr ()" "into_delivery d = Some sd"
    "db1 = snd (open_turn ?p ?db)"
    using promote_candidate_Inr [OF cand] by blast
  have editable: "\<not> gated agent ?db" "delivery_execution_link (dr_delivery_id d) ?db = None" "now < dr_expires_at d"
    "reply msg \<longrightarrow> request_open msg now ?db" "recipient_turn_active facts"
    using promote_editable [OF _ out(3)]
    by (auto simp: promote_facts_def Let_def delivery_execution_link_def sql_row_None_iff sql_exists_iff)
  have gate: "\<not> dr_turn_gate d" using editable(1) d agent by (auto simp: gated_def sql_exists_iff)
  have rows: "db_deliveries db' = sql_update (\<lambda>x. ?p x \<and> dr_phase x = DHeld \<and> \<not> dr_turn_gate x)
      (\<lambda>x. x\<lparr>dr_phase := DDispatching, dr_turn_gate := True\<rparr>) (db_deliveries ?db)"
    using same out(5) by (simp add: open_turn_def)
  have only: "(?p x \<and> dr_phase x = DHeld \<and> \<not> dr_turn_gate x) = (x = d)" if "x \<in> set (db_deliveries ?db)" for x
    using distinct_map_eq [OF ids that d] held gate agent by blast
  have "filter (\<lambda>x. dr_recipient_agent x = agent \<and> dr_phase x = DHeld)
      (sql_update (\<lambda>x. ?p x \<and> dr_phase x = DHeld \<and> \<not> dr_turn_gate x) (\<lambda>x. x\<lparr>dr_phase := DDispatching, dr_turn_gate := True\<rparr>) D) =
      filter (\<lambda>x. x \<noteq> d) (filter (\<lambda>x. dr_recipient_agent x = agent \<and> dr_phase x = DHeld) D)"
    if "set D \<subseteq> set (db_deliveries ?db)" for D
    using that only by (induction D) auto
  then have queue: "held_rows agent db' = filter (\<lambda>x. x \<noteq> d) (held_rows agent ?db)"
    using order_refl by (simp add: held_rows_def rows filter_sort)
  have "d\<lparr>dr_phase := DDispatching, dr_turn_gate := True\<rparr> \<in> set (db_deliveries db')"
    using d only [OF d] by (auto simp: rows set_sql_update intro!: image_eqI [of _ _ d])
  then have busy: "release_next_held codec agent now' db' = Inr ((None, None), db')"
    by (rule busy_release) (simp_all add: agent)
  have sd: "sd_expires_at sd = dr_expires_at d" "dr_message_bytes d = Some (sd_message_bytes sd)"
    using out(4) by (auto simp: into_delivery_def)
  with out editable queued id queue busy receipt show ?thesis by auto
qed

definition promoter :: GuidanceFacts where
  "promoter = (sample_interrupt 0)\<lparr>recipient_turn_active := True, carrier_queue_fallback := True\<rparr>"

lemma parent_may_steer:
  assumes "gf_actor f = AgentActor i" and "identity_attested f" and "actor_is_parent f"
    and "\<not> child_proof f" and "\<not> actor_is_target f" and "\<not> cross_project f" and "\<not> paused f"
  shows "gf_action f = Steer \<Longrightarrow> authorize f = Inr ()" and "gf_action f = QueuePromote \<Longrightarrow> authorize f = Inr ()"
proof -
  have steer: "authorize g = Inr ()" if "gf_action g = Steer" "gf_actor g = AgentActor i" "identity_attested g"
    "actor_is_parent g" "\<not> child_proof g" "\<not> actor_is_target g" "\<not> cross_project g" "\<not> paused g" for g
    using that by (subst authorize.simps) simp
  show "gf_action f = Steer \<Longrightarrow> authorize f = Inr ()" using steer assms by simp
  show "gf_action f = QueuePromote \<Longrightarrow> authorize f = Inr ()"
    using assms steer [of "f\<lparr>gf_action := Steer, paused := False\<rparr>"] by (subst authorize.simps) simp
qed

theorem promotion_is_guarded_witness:
  "\<exists>receipt sd notice db'. apply_promote echo_codec ''alice-alice-alice-alice'' ''req'' ''c'' ''alice'' ''bob'' ''m2''
      promoter (\<lambda>_. ''refused'') 9 (reached echo_codec two_held) = Inr ((receipt, Some sd, notice), db') \<and>
    release_next_held echo_codec ''bob'' 50 db' = Inr ((None, None), db')"
proof -
  have "authorize (promoter\<lparr>gf_action := QueuePromote\<rparr>) = Inr ()"
    by (rule parent_may_steer(2) [where i = "''a''"]) (simp_all add: promoter_def sample_interrupt_def)
  moreover have "authorize_queue_edit f = Inr ()" if "gf_action f = QueuePromote" "gf_actor f = AgentActor ''a''"
    "identity_attested f" "actor_is_parent f" "\<not> child_proof f" "\<not> actor_is_target f" "\<not> cross_project f" "\<not> paused f"
    "message_editable f" "recipient_turn_active f" "carrier_queue_fallback f" for f
    using that parent_may_steer(2) [of f "''a''"] parent_may_steer(1) [of "f\<lparr>gf_action := Steer\<rparr>" "''a''"]
    by (simp add: authorize_queue_edit_def)
  ultimately obtain receipt sd notice db' where ok: "apply_promote echo_codec ''alice-alice-alice-alice'' ''req'' ''c'' ''alice''
      ''bob'' ''m2'' promoter (\<lambda>_. ''refused'') 9 (reached echo_codec two_held) = Inr ((receipt, Some sd, notice), db')"
    by (simp add: store_eval edit_eval release_eval echo_codec_def echo_hold_def apply_promote_def promote_apply_def
        promote_candidate_def promote_facts_def request_open_def promoter_def sample_interrupt_def Let_def)
  have "release_next_held echo_codec ''bob'' 50 db' = Inr ((None, None), db')"
    using promotion_is_guarded [OF ok, of 50] by simp
  with ok show ?thesis by (intro exI conjI)
qed

end
