(* ===== verification/Request_Tracking.thy ===== *)
theory Request_Tracking
  imports Held_Queue
begin

text \<open>
  The tracked requests and the ledger of \<open>crates/bridget-daemon/src/store/ledger_requests.rs\<close>
  and the purge of \<open>store.rs\<close>, on the same database as the deliveries. \<open>ts\<close> is the clock that
  an operation reads (\<open>now_secs\<close>). Rows that an \<open>ORDER BY\<close> leaves equal keep the order of the
  table. Every statement inside a transaction is rolled back with it, so that an \<open>Inl\<close> changes
  nothing.
\<close>

section \<open>Types\<close>

datatype StoreError = StoreSqlite | StoreInvariant string | FrameTooLarge nat

type_synonym 'r stored = "StoreError + 'r"

text \<open>The public view of a request: the row without the summary of its reply.\<close>

record TrackedRequest =
  tr_id :: string
  tr_sender :: string
  tr_target :: string
  tr_state :: RequestState
  tr_created_at :: int
  tr_deadline_at :: int
  tr_escalation_level :: nat
  tr_cancel_reason :: "string option"
  tr_completed_at :: "int option"

definition tracked_request_from_row :: "RequestRow \<Rightarrow> TrackedRequest" where
  "tracked_request_from_row q =
     \<lparr>tr_id = tq_id q, tr_sender = tq_sender q, tr_target = tq_target q, tr_state = tq_state q,
      tr_created_at = tq_created_at q, tr_deadline_at = tq_deadline_at q,
      tr_escalation_level = tq_escalation_level q, tr_cancel_reason = tq_cancel_reason q,
      tr_completed_at = tq_completed_at q\<rparr>"

record LedgerEntry =
  le_id :: string
  le_ts :: int
  le_sender :: string
  le_target :: string
  le_body :: string
  le_delivery_phase :: "Phase option"

definition ledger_entry :: "Phase option \<Rightarrow> LedgerRow \<Rightarrow> LedgerEntry" where
  "ledger_entry phase l =
     \<lparr>le_id = lg_id l, le_ts = lg_ts l, le_sender = lg_sender l, le_target = lg_target l,
      le_body = lg_body l, le_delivery_phase = phase\<rparr>"

section \<open>Requests\<close>

text \<open>The sum of the dates is an \<open>i64\<close> and wraps around in a release build.\<close>

definition create_request :: "string \<Rightarrow> string \<Rightarrow> string \<Rightarrow> nat \<Rightarrow> int \<Rightarrow> Db \<Rightarrow> (TrackedRequest \<times> Db) stored" where
  "create_request rid sender tgt timeout_secs ts db =
     (let q = \<lparr>tq_id = rid, tq_sender = sender, tq_target = tgt, tq_state = ReqOpen, tq_created_at = ts,
               tq_deadline_at = i64_wrap (ts + as_i64 timeout_secs), tq_escalation_level = 0,
               tq_cancel_reason = None, tq_completed_at = None, tq_reply_summary = None\<rparr>
      in if sql_exists (\<lambda>r. tq_id r = rid) (db_requests db) then Inl StoreSqlite
         else Inr (tracked_request_from_row q, db\<lparr>db_requests := db_requests db @ [q]\<rparr>))"

definition get_request :: "string \<Rightarrow> Db \<Rightarrow> TrackedRequest option" where
  "get_request rid db = map_option tracked_request_from_row (sql_row (\<lambda>q. tq_id q = rid) (db_requests db))"

definition request_wait_snapshot ::
  "string \<Rightarrow> string \<Rightarrow> Db \<Rightarrow> (RequestState \<times> int \<times> string option) option"
where
  "request_wait_snapshot rid sender db =
     map_option (\<lambda>q. (tq_state q, tq_deadline_at q, tq_reply_summary q))
       (sql_row (\<lambda>q. tq_id q = rid \<and> tq_sender q = sender) (db_requests db))"

definition requests_for_sender :: "string \<Rightarrow> Db \<Rightarrow> TrackedRequest list" where
  "requests_for_sender sender db =
     map tracked_request_from_row
       (sort_key (\<lambda>q. - tq_created_at q) (filter (\<lambda>q. tq_sender q = sender) (db_requests db)))"

definition requests_for_participant :: "string \<Rightarrow> nat \<Rightarrow> Db \<Rightarrow> TrackedRequest list" where
  "requests_for_participant participant limit db =
     map tracked_request_from_row (take (min 200 (max 1 limit))
       (sort_key (\<lambda>q. - tq_created_at q)
         (filter (\<lambda>q. tq_sender q = participant \<or> tq_target q = participant) (db_requests db))))"

definition recent_requests :: "nat \<Rightarrow> Db \<Rightarrow> TrackedRequest list" where
  "recent_requests limit db =
     map tracked_request_from_row (take limit (sort_key (\<lambda>q. - tq_created_at q) (db_requests db)))"

definition open_requests :: "Db \<Rightarrow> TrackedRequest list" where
  "open_requests db =
     map tracked_request_from_row
       (sort_key tq_deadline_at (filter (\<lambda>q. tq_state q = ReqOpen) (db_requests db)))"

text \<open>The row of an open request, which every closing statement and every update asks for.\<close>

definition open_row :: "string \<Rightarrow> RequestRow \<Rightarrow> bool" where
  "open_row rid q \<longleftrightarrow> tq_id q = rid \<and> tq_state q = ReqOpen"

definition set_request_deadline :: "string \<Rightarrow> int \<Rightarrow> Db \<Rightarrow> (bool \<times> Db) stored" where
  "set_request_deadline rid deadline db =
     Inr (sql_matches (open_row rid) (db_requests db) = 1,
          db\<lparr>db_requests := sql_update (open_row rid) (\<lambda>q. q\<lparr>tq_deadline_at := deadline\<rparr>) (db_requests db)\<rparr>)"

definition cancel_request ::
  "string \<Rightarrow> string \<Rightarrow> string option \<Rightarrow> int \<Rightarrow> Db \<Rightarrow> (TrackedRequest option \<times> Db) stored"
where
  "cancel_request rid sender reason ts db =
     (case get_request rid db of
        None \<Rightarrow> Inr (None, db)
      | Some request \<Rightarrow>
          if tr_sender request \<noteq> sender \<or> (tr_state request \<noteq> ReqOpen \<and> tr_state request \<noteq> ReqCancelled)
          then Inr (Some request, db)
          else if tr_state request = ReqOpen
          then let changed = sql_matches (open_row rid) (db_requests db);
                   db1 = db\<lparr>db_requests := sql_update (open_row rid)
                           (\<lambda>q. q\<lparr>tq_state := ReqCancelled, tq_cancel_reason := reason, tq_completed_at := Some ts\<rparr>)
                           (db_requests db)\<rparr>;
                   db2 = (if changed = 1
                          then record_lifecycle_for_linked_request_in_transaction rid GCancelled ts db1 else db1)
               in Inr (get_request rid db2, db2)
          else Inr (Some request, db))"

definition mark_answered ::
  "string \<Rightarrow> string \<Rightarrow> string \<Rightarrow> string option \<Rightarrow> int \<Rightarrow> Db \<Rightarrow> (bool \<times> Db) stored"
where
  "mark_answered rid responder recipient reply_summary ts db =
     Inr (mark_answered_in_transaction ts rid responder recipient reply_summary db)"

definition mark_timed_out :: "string \<Rightarrow> int \<Rightarrow> Db \<Rightarrow> (bool \<times> Db) stored" where
  "mark_timed_out rid ts db =
     (let changed = sql_matches (open_row rid) (db_requests db);
          db1 = db\<lparr>db_requests := sql_update (open_row rid)
                  (\<lambda>q. q\<lparr>tq_state := ReqTimedOut, tq_completed_at := Some ts\<rparr>) (db_requests db)\<rparr>;
          db2 = (if changed = 1
                 then record_lifecycle_for_linked_request_in_transaction rid GTimedOut ts db1 else db1)
      in Inr (changed = 1, db2))"

definition set_escalation_level :: "string \<Rightarrow> nat \<Rightarrow> Db \<Rightarrow> (unit \<times> Db) stored" where
  "set_escalation_level rid level db =
     Inr ((), db\<lparr>db_requests := sql_update (open_row rid) (\<lambda>q. q\<lparr>tq_escalation_level := level\<rparr>) (db_requests db)\<rparr>)"

definition record_deferred_reminder :: "string \<Rightarrow> nat \<Rightarrow> int \<Rightarrow> Db \<Rightarrow> (unit \<times> Db) stored" where
  "record_deferred_reminder rid level ts db =
     Inr ((), db\<lparr>db_request_events := db_request_events db @
       [\<lparr>ev_request_id = rid, ev_event_type = ''reminder_deferred'', ev_level = level, ev_ts = ts\<rparr>]\<rparr>)"

definition latest_deferred_reminder :: "string \<Rightarrow> Db \<Rightarrow> (nat \<times> int) option" where
  "latest_deferred_reminder rid db =
     (case rev (sort_key ev_ts (filter (\<lambda>e. ev_request_id e = rid \<and> ev_event_type e = ''reminder_deferred'')
             (db_request_events db))) of
        [] \<Rightarrow> None
      | e # _ \<Rightarrow> Some (ev_level e, ev_ts e))"

section \<open>The ledger\<close>

definition record_message :: "BridgetMessage \<Rightarrow> string \<Rightarrow> int \<Rightarrow> Db \<Rightarrow> (unit \<times> Db) stored" where
  "record_message msg conversation_key ts db = Inr ((), record_message_in_transaction ts msg conversation_key db)"

definition count_recent :: "string \<Rightarrow> nat \<Rightarrow> int \<Rightarrow> Db \<Rightarrow> nat" where
  "count_recent conversation_key window_secs ts db =
     (let cutoff = i64_wrap (ts - as_i64 window_secs)
      in sql_matches (\<lambda>l. lg_conversation_key l = conversation_key \<and> cutoff \<le> lg_ts l) (db_ledger db))"

text \<open>The phase shown beside a message: an acknowledgement wins over an orphan and over a dispatch.\<close>

fun phase_rank :: "Phase \<Rightarrow> nat" where
  "phase_rank DAcked = 0"
| "phase_rank DOrphaned = 1"
| "phase_rank DDispatching = 2"
| "phase_rank _ = 3"

definition shown_phase :: "string \<Rightarrow> Db \<Rightarrow> Phase option" where
  "shown_phase mid db =
     (case sort_key phase_rank (map dr_phase (filter
             (\<lambda>d. operation_kind (dr_key d) = OpSend \<and> idempotency_key (dr_key d) = mid) (db_deliveries db))) of
        [] \<Rightarrow> None
      | phase # _ \<Rightarrow> Some phase)"

definition recent_messages :: "nat \<Rightarrow> Db \<Rightarrow> LedgerEntry list" where
  "recent_messages limit db =
     map (\<lambda>l. ledger_entry (shown_phase (lg_id l) db) l) (take limit (sort_key (\<lambda>l. - lg_ts l) (db_ledger db)))"

definition conversation_messages :: "string \<Rightarrow> string \<Rightarrow> nat \<Rightarrow> Db \<Rightarrow> LedgerEntry list" where
  "conversation_messages party_a party_b limit db =
     map (ledger_entry None) (take (max limit 1)
       (sort_key (\<lambda>l. (lg_ts l, lg_id l)) (filter
         (\<lambda>l. lg_conversation_key l \<in> {party_a @ ''|'' @ party_b, party_b @ ''|'' @ party_a}) (db_ledger db))))"

definition participant_messages :: "string \<Rightarrow> nat \<Rightarrow> Db \<Rightarrow> LedgerEntry list" where
  "participant_messages party limit db =
     map (ledger_entry None) (rev (take (max limit 1)
       (rev (sort_key (\<lambda>l. (lg_ts l, lg_id l)) (filter
         (\<lambda>l. lg_sender l = party \<or> lg_target l = party) (db_ledger db))))))"

text \<open>
  One renaming of \<open>migrate_agent_references\<close>. The key of the ledger is the pair of the message
  and its target, so that renaming a target fails when it makes two rows equal.
\<close>

definition rename_agent :: "string \<times> string \<Rightarrow> Db \<Rightarrow> Db stored" where
  "rename_agent m db =
     (case m of (legacy, agent_id) \<Rightarrow>
        let senders = sql_update (\<lambda>l. lg_sender l = legacy) (\<lambda>l. l\<lparr>lg_sender := agent_id\<rparr>) (db_ledger db);
            targets = sql_update (\<lambda>l. lg_target l = legacy) (\<lambda>l. l\<lparr>lg_target := agent_id\<rparr>) senders
        in if \<not> distinct (map (\<lambda>l. (lg_id l, lg_target l)) targets) then Inl StoreSqlite
           else Inr (db\<lparr>db_ledger := targets,
                        db_requests :=
                          sql_update (\<lambda>q. tq_target q = legacy) (\<lambda>q. q\<lparr>tq_target := agent_id\<rparr>)
                            (sql_update (\<lambda>q. tq_sender q = legacy) (\<lambda>q. q\<lparr>tq_sender := agent_id\<rparr>)
                              (db_requests db))\<rparr>))"

fun rename_agents :: "(string \<times> string) list \<Rightarrow> Db \<Rightarrow> Db stored" where
  "rename_agents [] db = Inr db"
| "rename_agents (m # ms) db = (case rename_agent m db of Inl e \<Rightarrow> Inl e | Inr db' \<Rightarrow> rename_agents ms db')"

definition migrated_key :: "LedgerRow \<Rightarrow> string" where
  "migrated_key l =
     (if lg_sender l \<le> lg_target l then lg_sender l @ '':'' @ lg_target l
      else lg_target l @ '':'' @ lg_sender l)"

definition migrate_agent_references :: "(string \<times> string) list \<Rightarrow> Db \<Rightarrow> (unit \<times> Db) stored" where
  "migrate_agent_references mapping db =
     (case rename_agents mapping db of
        Inl e \<Rightarrow> Inl e
      | Inr db' \<Rightarrow>
          Inr ((), db'\<lparr>db_ledger := map (\<lambda>l. l\<lparr>lg_conversation_key := migrated_key l\<rparr>) (db_ledger db')\<rparr>))"

section \<open>Retention\<close>

definition closed_before :: "int \<Rightarrow> RequestRow \<Rightarrow> bool" where
  "closed_before cutoff q \<longleftrightarrow>
     tq_state q \<noteq> ReqOpen \<and> (case tq_completed_at q of Some at \<Rightarrow> at < cutoff | None \<Rightarrow> False)"

definition settled_deposit :: "int \<Rightarrow> GuichetRow \<Rightarrow> bool" where
  "settled_deposit cutoff g \<longleftrightarrow> (gr_state g = GReplied \<or> gr_state g = GRejected) \<and> gr_expires_at g < cutoff"

definition purge_older_than_days :: "nat \<Rightarrow> int \<Rightarrow> Db \<Rightarrow> (nat \<times> Db) stored" where
  "purge_older_than_days days ts db =
     (let cutoff = ts - int days * 86400;
          old = (\<lambda>l. lg_ts l < cutoff);
          past = (\<lambda>e. lc_observed_at e < cutoff \<and>
                      sql_exists (\<lambda>g. gr_issuer_scope g = lc_issuer_scope e \<and> gr_request_id g = lc_request_id e \<and>
                                      settled_deposit cutoff g) (db_guichet db))
      in Inr (sql_matches old (db_ledger db) + sql_matches past (db_lifecycle db) +
              sql_matches (settled_deposit cutoff) (db_guichet db),
              db\<lparr>db_ledger := sql_delete old (db_ledger db),
                 db_request_events := sql_delete
                   (\<lambda>e. sql_exists (\<lambda>q. tq_id q = ev_request_id e \<and> closed_before cutoff q) (db_requests db))
                   (db_request_events db),
                 db_requests := sql_delete (closed_before cutoff) (db_requests db),
                 db_lifecycle := sql_delete past (db_lifecycle db),
                 db_guichet := sql_delete (settled_deposit cutoff) (db_guichet db)\<rparr>))"

end
