(* ===== verification/Guichet.thy ===== *)
theory Guichet
  imports Request_Tracking
begin

text \<open>
  The guichet of \<open>crates/bridget-daemon/src/store/service_events.rs\<close>: requests are deposited for
  a companion service, claimed in order under a lease, replied to once; and the stream of
  reminders that the service reads by cursor. The 16 random bytes of a token and the random
  identifier of an event are arguments. The attestation is kept as the bytes that the daemon
  serialised; \<open>attests\<close> says whether the library decodes them.
\<close>

section \<open>Types\<close>

definition GUICHET_LEASE_SECS :: int where "GUICHET_LEASE_SECS = 60"
definition MAX_GUICHET_FRAME_BYTES :: nat where "MAX_GUICHET_FRAME_BYTES = 64 * 1024"

text \<open>Of the payload only the request that a delivery report answers is read.\<close>

datatype ServiceRequestPayload = DeliveryReport string | OtherPayload

record GuichetDeposit =
  gd_issuer_scope :: string
  gd_request_id :: string
  gd_issued_at :: int
  gd_from :: string
  gd_payload :: ServiceRequestPayload
  gd_canonical_bytes :: string
  gd_authorization_attestation :: "string option"

record GuichetClaim =
  gc_deposited_sequence :: int
  gc_issuer_scope :: string
  gc_request_id :: string
  gc_canonical_request :: string
  gc_authorization_attestation :: "string option"
  gc_claimed_at :: int
  gc_claim_generation :: nat
  gc_claim_token :: string
  gc_claim_lease_expires_at :: int
  gc_expires_at :: int

datatype GuichetResult =
    GResQueued int
  | GResOutcomeUnknown int
  | GResTerminal string int bool string
  | GResCanonicalBytesMismatch
  | GResIdempotencyExpired
  | GResInvalidIssuedAt
  | GResClaimStale

datatype GuichetNext = NextClaimed GuichetClaim | NextEmpty

datatype GuichetOutcome = OutAccepted | OutRequestAlreadyTerminal | OutRecipientUnavailable | OutRefused

fun guichet_outcome_name :: "GuichetOutcome \<Rightarrow> string" where
  "guichet_outcome_name OutAccepted = ''accepted''"
| "guichet_outcome_name OutRequestAlreadyTerminal = ''request_already_terminal''"
| "guichet_outcome_name OutRecipientUnavailable = ''recipient_unavailable''"
| "guichet_outcome_name OutRefused = ''refused''"

record GuichetReplyInput =
  gi_issuer_scope :: string
  gi_request_id :: string
  gi_generation :: nat
  gi_token :: string
  gi_response_message_id :: string
  gi_reply_bytes :: string
  gi_in_reply_to :: string
  gi_outcome :: GuichetOutcome

fun linked_request_id :: "ServiceRequestPayload \<Rightarrow> string option" where
  "linked_request_id (DeliveryReport rid) = Some rid"
| "linked_request_id OtherPayload = None"

section \<open>Tokens\<close>

definition ALPHABET :: string where
  "ALPHABET = ''ABCDEFGHIJKLMNOPQRSTUVWXYZabcdefghijklmnopqrstuvwxyz0123456789-_''"

text \<open>The four indices that a chunk of three bytes gives.\<close>

definition sextet_1 :: "8 word \<Rightarrow> 8 word" where
  "sextet_1 a = drop_bit 2 a"
definition sextet_2 :: "8 word \<Rightarrow> 8 word \<Rightarrow> 8 word" where
  "sextet_2 a b = or (push_bit 4 (and a 3)) (drop_bit 4 b)"
definition sextet_3 :: "8 word \<Rightarrow> 8 word \<Rightarrow> 8 word" where
  "sextet_3 b c = or (push_bit 2 (and b 15)) (drop_bit 6 c)"
definition sextet_4 :: "8 word \<Rightarrow> 8 word" where
  "sextet_4 c = and c 63"

definition base64_char :: "8 word \<Rightarrow> char" where
  "base64_char w = ALPHABET ! unat w"

text \<open>The loop over \<open>chunks(3)\<close>; a short chunk is filled with zeros.\<close>

fun claim_token :: "8 word list \<Rightarrow> string" where
  "claim_token [] = []"
| "claim_token [a] = map base64_char [sextet_1 a, sextet_2 a 0]"
| "claim_token [a, b] = map base64_char [sextet_1 a, sextet_2 a b, sextet_3 b 0]"
| "claim_token (a # b # c # bytes) =
     map base64_char [sextet_1 a, sextet_2 a b, sextet_3 b c, sextet_4 c] @ claim_token bytes"

section \<open>Deposits and claims\<close>

definition guichet_row_for_key :: "string \<Rightarrow> string \<Rightarrow> Db \<Rightarrow> GuichetRow option" where
  "guichet_row_for_key scope rid db =
     sql_row (\<lambda>g. gr_issuer_scope g = scope \<and> gr_request_id g = rid) (db_guichet db)"

definition guichet_next_queued :: "int \<Rightarrow> Db \<Rightarrow> GuichetRow option" where
  "guichet_next_queued now db =
     (case sort_key gr_deposited_sequence
             (filter (\<lambda>g. gr_state g = GQueued \<and> now \<le> gr_expires_at g) (db_guichet db)) of
        [] \<Rightarrow> None
      | g # _ \<Rightarrow> Some g)"

definition guichet_existing_result :: "GuichetRow \<Rightarrow> int \<Rightarrow> GuichetResult" where
  "guichet_existing_result g now =
     (if gr_expires_at g < now then GResIdempotencyExpired
      else if gr_state g = GQueued \<or> gr_state g = GClaimed then GResOutcomeUnknown (gr_expires_at g)
      else GResTerminal (case gr_result_issue g of Some issue \<Rightarrow> issue | None \<Rightarrow> ''refused'') (gr_expires_at g)
             False (case gr_reply_bytes g of Some bytes \<Rightarrow> bytes | None \<Rightarrow> []))"

definition deposited_row :: "GuichetDeposit \<Rightarrow> int \<Rightarrow> int \<Rightarrow> GuichetRow" where
  "deposited_row d sequence expires_at =
     \<lparr>gr_deposited_sequence = sequence, gr_issuer_scope = gd_issuer_scope d, gr_request_id = gd_request_id d,
      gr_canonical_request = gd_canonical_bytes d,
      gr_authorization_attestation = gd_authorization_attestation d,
      gr_issued_at = gd_issued_at d, gr_expires_at = expires_at, gr_sender = gd_from d,
      gr_linked_request_id = linked_request_id (gd_payload d), gr_state = GQueued, gr_claim_owner = None,
      gr_claim_generation = 0, gr_claim_token = None, gr_claim_lease_expires_at = None,
      gr_result_issue = None, gr_reply_bytes = None\<rparr>"

definition deposit_guichet :: "GuichetDeposit \<Rightarrow> int \<Rightarrow> int \<Rightarrow> int \<Rightarrow> Db \<Rightarrow> (GuichetResult \<times> Db) stored" where
  "deposit_guichet d horizon_secs tolerance_secs now db =
     (if MAX_GUICHET_FRAME_BYTES < length (gd_canonical_bytes d) + 1 then Inl (FrameTooLarge MAX_GUICHET_FRAME_BYTES)
      else case guichet_row_for_key (gd_issuer_scope d) (gd_request_id d) db of
        Some row \<Rightarrow>
          Inr (if gr_canonical_request row \<noteq> gd_canonical_bytes d then GResCanonicalBytesMismatch
               else guichet_existing_result row now, db)
      | None \<Rightarrow>
          if saturating_add now tolerance_secs < gd_issued_at d then Inr (GResInvalidIssuedAt, db)
          else let expires_at = saturating_add (gd_issued_at d) horizon_secs in
            if expires_at < now then Inr (GResIdempotencyExpired, db)
            else let sequence = db_last_sequence db + 1 in
              Inr (GResQueued expires_at,
                   db\<lparr>db_guichet := db_guichet db @ [deposited_row d sequence expires_at],
                      db_last_sequence := sequence\<rparr>))"

definition requeued :: "GuichetRow \<Rightarrow> GuichetRow" where
  "requeued g = g\<lparr>gr_state := GQueued, gr_claim_owner := None, gr_claim_token := None,
                   gr_claim_lease_expires_at := None\<rparr>"

definition claimed_row :: "string \<Rightarrow> nat \<Rightarrow> string \<Rightarrow> int \<Rightarrow> GuichetRow \<Rightarrow> GuichetRow" where
  "claimed_row owner generation token until g =
     g\<lparr>gr_state := GClaimed, gr_claim_owner := Some owner, gr_claim_generation := as_i64 generation,
       gr_claim_token := Some token, gr_claim_lease_expires_at := Some until\<rparr>"

definition lapsed :: "int \<Rightarrow> GuichetRow \<Rightarrow> bool" where
  "lapsed now g \<longleftrightarrow>
     gr_state g = GClaimed \<and> (case gr_claim_lease_expires_at g of Some until \<Rightarrow> until < now | None \<Rightarrow> False)"

definition claim_next_guichet ::
  "(string \<Rightarrow> bool) \<Rightarrow> 8 word list \<Rightarrow> string \<Rightarrow> int \<Rightarrow> Db \<Rightarrow> (GuichetNext \<times> Db) stored"
where
  "claim_next_guichet attests bytes owner now db =
     (let db1 = db\<lparr>db_guichet := sql_update (lapsed now) requeued (db_guichet db)\<rparr> in
      case guichet_next_queued now db1 of
        None \<Rightarrow> Inr (NextEmpty, db1)
      | Some row \<Rightarrow>
          let generation = u64_saturating_add (as_u64 (gr_claim_generation row)) 1;
              token = claim_token bytes;
              lease_expires_at = saturating_add now GUICHET_LEASE_SECS;
              p = (\<lambda>g. gr_deposited_sequence g = gr_deposited_sequence row \<and> gr_state g = GQueued)
          in if sql_matches p (db_guichet db1) \<noteq> 1 then Inl (StoreInvariant ''claim FIFO concurrent perdu'')
             else if \<not> (case gr_authorization_attestation row of Some a \<Rightarrow> attests a | None \<Rightarrow> True)
             then Inl (StoreInvariant ''attestation serveur durable corrompue'')
             else Inr (NextClaimed
                    \<lparr>gc_deposited_sequence = gr_deposited_sequence row, gc_issuer_scope = gr_issuer_scope row,
                     gc_request_id = gr_request_id row, gc_canonical_request = gr_canonical_request row,
                     gc_authorization_attestation = gr_authorization_attestation row, gc_claimed_at = now,
                     gc_claim_generation = generation, gc_claim_token = token,
                     gc_claim_lease_expires_at = lease_expires_at, gc_expires_at = gr_expires_at row\<rparr>,
                   db1\<lparr>db_guichet := sql_update p (claimed_row owner generation token lease_expires_at)
                     (db_guichet db1)\<rparr>))"

text \<open>
  A claim is read again without extending its lease. \<open>None\<close> is the panic of the two \<open>expect\<close>s
  on a claimed row without a token or a lease.
\<close>

definition claim_guichet ::
  "(string \<Rightarrow> bool) \<Rightarrow> string \<Rightarrow> string \<Rightarrow> string \<Rightarrow> string \<Rightarrow> int \<Rightarrow> Db \<Rightarrow> (GuichetResult + GuichetClaim) stored option"
where
  "claim_guichet attests owner scope rid token now db =
     (case guichet_row_for_key scope rid db of
        None \<Rightarrow> Some (Inr (Inl GResIdempotencyExpired))
      | Some row \<Rightarrow>
          if gr_state row \<noteq> GClaimed \<or> gr_claim_owner row \<noteq> Some owner \<or> gr_claim_token row \<noteq> Some token \<or>
             (case gr_claim_lease_expires_at row of Some until \<Rightarrow> until < now | None \<Rightarrow> True)
          then Some (Inr (Inl GResClaimStale))
          else if \<not> (case gr_authorization_attestation row of Some a \<Rightarrow> attests a | None \<Rightarrow> True)
          then Some (Inl (StoreInvariant ''attestation serveur durable corrompue''))
          else (case (gr_claim_token row, gr_claim_lease_expires_at row) of
                  (Some t, Some until) \<Rightarrow>
                    Some (Inr (Inr
                      \<lparr>gc_deposited_sequence = gr_deposited_sequence row, gc_issuer_scope = gr_issuer_scope row,
                       gc_request_id = gr_request_id row, gc_canonical_request = gr_canonical_request row,
                       gc_authorization_attestation = gr_authorization_attestation row, gc_claimed_at = now,
                       gc_claim_generation = as_u64 (gr_claim_generation row), gc_claim_token = t,
                       gc_claim_lease_expires_at = until, gc_expires_at = gr_expires_at row\<rparr>))
                | _ \<Rightarrow> None))"

definition lookup_guichet :: "string \<Rightarrow> string \<Rightarrow> int \<Rightarrow> Db \<Rightarrow> GuichetResult" where
  "lookup_guichet scope rid now db =
     (case guichet_row_for_key scope rid db of
        Some row \<Rightarrow> guichet_existing_result row now
      | None \<Rightarrow> GResIdempotencyExpired)"

section \<open>Replies\<close>

text \<open>
  The request that an accepted report answers is closed in the same transaction, provided that
  the depositor is its target.
\<close>

definition answer_linked :: "GuichetRow \<Rightarrow> GuichetReplyInput \<Rightarrow> int \<Rightarrow> int \<Rightarrow> Db \<Rightarrow> Db" where
  "answer_linked row i ts now db =
     (case (gi_outcome i, gr_linked_request_id row) of
        (OutAccepted, Some linked) \<Rightarrow>
          (case sql_row (\<lambda>q. tq_id q = linked \<and> tq_target q = gr_sender row) (db_requests db) of
             None \<Rightarrow> db
           | Some q \<Rightarrow>
               (case mark_answered_in_transaction ts linked (gr_sender row) (tq_sender q) None db of
                  (answered, db') \<Rightarrow>
                    if answered
                    then record_lifecycle_event_in_transaction (gr_issuer_scope row) (gr_request_id row) GAnswered
                           now (Some linked) (Some (gi_response_message_id i)) db'
                    else db'))
      | _ \<Rightarrow> db)"

definition held_claim :: "string \<Rightarrow> GuichetReplyInput \<Rightarrow> int \<Rightarrow> GuichetRow \<Rightarrow> bool" where
  "held_claim owner i now g \<longleftrightarrow>
     gr_issuer_scope g = gi_issuer_scope i \<and> gr_request_id g = gi_request_id i \<and> gr_state g = GClaimed \<and>
     gr_claim_owner g = Some owner \<and> gr_claim_generation g = as_i64 (gi_generation i) \<and>
     gr_claim_token g = Some (gi_token i) \<and>
     (case gr_claim_lease_expires_at g of Some until \<Rightarrow> now \<le> until | None \<Rightarrow> False)"

definition settled_row :: "string \<Rightarrow> string \<Rightarrow> GuichetRow \<Rightarrow> GuichetRow" where
  "settled_row issue bytes g =
     g\<lparr>gr_state := (if issue = ''refused'' then GRejected else GReplied), gr_result_issue := Some issue,
       gr_reply_bytes := Some bytes\<rparr>"

definition reply_guichet :: "string \<Rightarrow> GuichetReplyInput \<Rightarrow> int \<Rightarrow> int \<Rightarrow> Db \<Rightarrow> (GuichetResult \<times> Db) stored" where
  "reply_guichet owner i ts now db =
     (case guichet_row_for_key (gi_issuer_scope i) (gi_request_id i) db of
        None \<Rightarrow> Inr (GResIdempotencyExpired, db)
      | Some row \<Rightarrow>
          if gr_state row = GReplied \<or> gr_state row = GRejected
          then Inr (if gr_reply_bytes row = Some (gi_reply_bytes i) then guichet_existing_result row now
                    else GResCanonicalBytesMismatch, db)
          else if (case gr_linked_request_id row of Some linked \<Rightarrow> linked \<noteq> gi_in_reply_to i | None \<Rightarrow> False)
          then Inr (GResCanonicalBytesMismatch, db)
          else
            let issue = guichet_outcome_name (gi_outcome i);
                changed = sql_matches (held_claim owner i now) (db_guichet db);
                db1 = db\<lparr>db_guichet := sql_update (held_claim owner i now) (settled_row issue (gi_reply_bytes i))
                        (db_guichet db)\<rparr>
            in if changed \<noteq> 1 then Inr (GResClaimStale, db1)
               else Inr (GResTerminal issue (gr_expires_at row) True (gi_reply_bytes i),
                         answer_linked row i ts now db1))"

definition release_guichet_claims :: "string \<Rightarrow> Db \<Rightarrow> (unit \<times> Db) stored" where
  "release_guichet_claims owner db =
     Inr ((), db\<lparr>db_guichet := sql_update (\<lambda>g. gr_state g = GClaimed \<and> gr_claim_owner g = Some owner) requeued
                (db_guichet db)\<rparr>)"

definition recover_guichet_claims_after_restart :: "Db \<Rightarrow> (unit \<times> Db) stored" where
  "recover_guichet_claims_after_restart db =
     Inr ((), db\<lparr>db_guichet := sql_update (\<lambda>g. gr_state g = GClaimed) requeued (db_guichet db)\<rparr>)"

section \<open>The stream of reminders\<close>

definition reminder_complete :: "string \<Rightarrow> string \<Rightarrow> string \<Rightarrow> nat \<Rightarrow> bool" where
  "reminder_complete rid mid recipient generation \<longleftrightarrow>
     rid \<noteq> [] \<and> mid \<noteq> [] \<and> recipient \<noteq> [] \<and> generation \<noteq> 0"

text \<open>
  The cursor column takes the new high watermark. A generation that the cast makes negative
  fails the \<open>CHECK\<close> of its column; a sum past the range of \<open>i64\<close> turns into a real number that
  the read of the watermark refuses.
\<close>

definition record_reminder_sent ::
  "string \<Rightarrow> string \<Rightarrow> string \<Rightarrow> string \<Rightarrow> nat \<Rightarrow> int \<Rightarrow> Db \<Rightarrow> (CoordinationRow \<times> Db) stored"
where
  "record_reminder_sent event_id rid mid recipient generation observed_at db =
     (if \<not> reminder_complete rid mid recipient generation
      then Inl (StoreInvariant ''rappel de coordination incomplet'')
      else case sql_row (\<lambda>e. co_request_id e = rid \<and> co_generation e = as_i64 generation) (db_coordination db) of
        Some e \<Rightarrow> Inr (e, db)
      | None \<Rightarrow>
          let cursor = db_high_watermark db + 1;
              e = \<lparr>co_cursor = cursor, co_event_id = event_id, co_request_id = rid, co_reminder_message_id = mid,
                   co_recipient = recipient, co_generation = as_i64 generation, co_observed_at = observed_at\<rparr>
          in if \<not> is_i64 cursor \<or> as_i64 generation \<le> 0 \<or> sql_exists (\<lambda>e. co_event_id e = event_id) (db_coordination db)
             then Inl StoreSqlite
             else Inr (e, db\<lparr>db_coordination := db_coordination db @ [e], db_high_watermark := cursor\<rparr>))"

definition guichet_coordination_events :: "Db \<Rightarrow> CoordinationRow list" where
  "guichet_coordination_events db = sort_key (\<lambda>e. (co_observed_at e, co_event_id e)) (db_coordination db)"

definition guichet_lifecycle_events :: "Db \<Rightarrow> LifecycleRow list" where
  "guichet_lifecycle_events db = sort_key lc_observed_at (db_lifecycle db)"

datatype GuichetCoordinationReplay =
    Replay "CoordinationRow list" "nat option"
  | ReplayGap nat nat

text \<open>The loop over the events: the first cursor that is not the expected one, or what is expected next.\<close>

fun contiguous :: "nat \<Rightarrow> CoordinationRow list \<Rightarrow> (nat \<times> nat) + nat" where
  "contiguous expected [] = Inr expected"
| "contiguous expected (e # es) =
     (if as_u64 (co_cursor e) \<noteq> expected then Inl (expected, as_u64 (co_cursor e) - 1)
      else contiguous (u64_saturating_add expected 1) es)"

definition guichet_coordination_events_after :: "nat option \<Rightarrow> Db \<Rightarrow> GuichetCoordinationReplay" where
  "guichet_coordination_events_after after_cursor db =
     (let high = as_u64 (db_high_watermark db);
          after = (case after_cursor of Some c \<Rightarrow> c | None \<Rightarrow> 0)
      in if high < after then ReplayGap (u64_saturating_add high 1) after
         else let events = sort_key co_cursor (filter (\<lambda>e. as_i64 after < co_cursor e) (db_coordination db)) in
           case contiguous (u64_saturating_add after 1) events of
             Inl (a, b) \<Rightarrow> ReplayGap a b
           | Inr expected \<Rightarrow>
               if expected \<le> high then ReplayGap expected high
               else Replay events (if events = [] then after_cursor else Some (as_u64 (co_cursor (last events)))))"

section \<open>Tokens are injective\<close>

lemmas sextet_defs = sextet_1_def sextet_2_def sextet_3_def sextet_4_def

lemma masks: "and a 3 = take_bit 2 a" "and a 15 = take_bit 4 a" "and a 63 = take_bit 6 a" for a :: "8 word"
  by (simp_all add: take_bit_eq_mask mask_eq_exp_minus_1)

lemma byte_bit: "bit (a :: 8 word) n \<Longrightarrow> n < 8"
  using bit_imp_le_length [of a n] by simp

lemma sextet_less:
  assumes "take_bit 6 w = w"
  shows "unat (w :: 8 word) < 64"
proof -
  have "unat (take_bit 6 w) < 64" by (simp add: unsigned_take_bit_eq take_bit_nat_def)
  with assms show ?thesis by simp
qed

lemma sextets_less [simp]:
  "unat (sextet_1 a) < 64" "unat (sextet_2 a b) < 64" "unat (sextet_3 a b) < 64" "unat (sextet_4 a) < 64"
  unfolding sextet_defs masks
  by (rule sextet_less, rule bit_word_eqI, auto simp: bit_simps dest: byte_bit)+

lemma base64_inj: "unat v < 64 \<Longrightarrow> unat w < 64 \<Longrightarrow> base64_char v = base64_char w \<longleftrightarrow> v = w"
proof -
  assume s: "unat v < 64" "unat w < 64"
  have "distinct ALPHABET" "length ALPHABET = 64" by (simp_all add: ALPHABET_def)
  then show ?thesis using s nth_eq_iff_index_eq [of ALPHABET "unat v" "unat w"]
    by (simp add: base64_char_def word_unat_eq_iff)
qed

lemma base64_char_ALPHABET: "unat w < 64 \<Longrightarrow> base64_char w \<in> set ALPHABET"
proof -
  have "length ALPHABET = 64" by (simp add: ALPHABET_def)
  then show "unat w < 64 \<Longrightarrow> base64_char w \<in> set ALPHABET" by (simp add: base64_char_def)
qed

text \<open>The indices determine the bytes.\<close>

lemma split_byte: "or (push_bit k (drop_bit k a)) (take_bit k a) = (a :: 8 word)"
proof (rule bit_word_eqI)
  show "bit (or (push_bit k (drop_bit k a)) (take_bit k a)) n = bit a n" for n
    by (cases "k \<le> n") (auto simp: bit_simps dest: byte_bit)
qed

lemma chunk_bytes:
  "or (push_bit 2 (sextet_1 a)) (drop_bit 4 (sextet_2 a b)) = a"
  "or (push_bit 4 (sextet_2 a b)) (drop_bit 2 (sextet_3 b c)) = b"
  "or (push_bit 6 (sextet_3 b c)) (sextet_4 c) = c"
proof -
  have "drop_bit 4 (sextet_2 a b) = take_bit 2 a"
    unfolding sextet_defs masks by (rule bit_word_eqI) (auto simp: bit_simps dest: byte_bit)
  then show "or (push_bit 2 (sextet_1 a)) (drop_bit 4 (sextet_2 a b)) = a"
    using split_byte [of 2 a] by (simp add: sextet_1_def)
  have "drop_bit 2 (sextet_3 b c) = take_bit 4 b" "push_bit 4 (sextet_2 a b) = push_bit 4 (drop_bit 4 b)"
    "push_bit 6 (sextet_3 b c) = push_bit 6 (drop_bit 6 c)"
    unfolding sextet_defs masks by (rule bit_word_eqI, auto simp: bit_simps dest: byte_bit)+
  then show "or (push_bit 4 (sextet_2 a b)) (drop_bit 2 (sextet_3 b c)) = b"
    "or (push_bit 6 (sextet_3 b c)) (sextet_4 c) = c"
    using split_byte [of 4 b] split_byte [of 6 c] by (simp_all add: sextet_4_def masks)
qed

lemma chunk_inj:
  "sextet_1 a = sextet_1 a' \<Longrightarrow> sextet_2 a b = sextet_2 a' b' \<Longrightarrow> a = a'"
  "sextet_2 a b = sextet_2 a' b' \<Longrightarrow> sextet_3 b c = sextet_3 b' c' \<Longrightarrow> b = b'"
  "sextet_3 b c = sextet_3 b' c' \<Longrightarrow> sextet_4 c = sextet_4 c' \<Longrightarrow> c = c'"
  by (metis chunk_bytes)+

lemma claim_token_inj: "length xs = length ys \<Longrightarrow> claim_token xs = claim_token ys \<Longrightarrow> xs = ys"
proof (induction xs arbitrary: ys rule: claim_token.induct)
  case (2 a)
  then have "\<exists>b. ys = [b]" by (metis length_0_conv length_Suc_conv)
  with 2 show ?case by (auto simp: base64_inj dest: chunk_inj)
next
  case (3 a b)
  then have "\<exists>c d. ys = [c, d]" by (metis length_0_conv length_Suc_conv)
  with 3 show ?case by (auto simp: base64_inj dest: chunk_inj)
next
  case (4 a b c xs)
  then have "\<exists>d e f zs. ys = d # e # f # zs" by (metis length_Suc_conv)
  with 4 show ?case by (auto simp: base64_inj dest: chunk_inj)
qed simp

lemma claim_token_length: "length xs = 16 \<Longrightarrow> length (claim_token xs) = 22"
  by (auto simp: eval_nat_numeral length_Suc_conv)

lemma claim_token_ALPHABET: "set (claim_token xs) \<subseteq> set ALPHABET"
  by (induction xs rule: claim_token.induct) (simp_all add: base64_char_ALPHABET)

end
