(* ===== verification/Store_Frames.thy ===== *)
theory Store_Frames
  imports Queue_Edits Guichet
begin

text \<open>
  What the operations of the idempotent store leave alone: they close requests and open new
  ones, but change no request that is closed, and do not touch the guichet, the stream of
  reminders and the events of the requests.
\<close>

section \<open>Requests are closed once\<close>

text \<open>
  A row that is no longer open does not change, but for the names of its parties, which a
  migration rewrites.
\<close>

definition nameless :: "RequestRow \<Rightarrow> RequestRow" where
  "nameless q = q\<lparr>tq_sender := [], tq_target := []\<rparr>"

definition request_kept :: "RequestRow \<Rightarrow> RequestRow \<Rightarrow> bool" where
  "request_kept q q' \<longleftrightarrow> tq_id q' = tq_id q \<and> (tq_state q \<noteq> ReqOpen \<longrightarrow> nameless q' = nameless q)"

definition requests_step :: "RequestRow table \<Rightarrow> RequestRow table \<Rightarrow> bool" where
  "requests_step rs rs' \<longleftrightarrow>
     (distinct (map tq_id rs) \<longrightarrow> distinct (map tq_id rs')) \<and> (\<forall>q\<in>set rs. \<exists>q'\<in>set rs'. request_kept q q')"

abbreviation outside :: "Db \<Rightarrow> GuichetRow table \<times> int \<times> RequestEventRow table \<times> CoordinationRow table \<times> int" where
  "outside db \<equiv> (db_guichet db, db_last_sequence db, db_request_events db, db_coordination db, db_high_watermark db)"

definition beside :: "Db \<Rightarrow> Db \<Rightarrow> bool" where
  "beside db db' \<longleftrightarrow> outside db' = outside db \<and> requests_step (db_requests db) (db_requests db')"

named_theorems beside_frame

lemma nameless_state: "nameless q' = nameless q \<Longrightarrow> tq_state q' = tq_state q"
  by (drule arg_cong [where f = tq_state]) (simp add: nameless_def)

lemma request_kept_refl [simp]: "request_kept q q"
  by (simp add: request_kept_def)

lemma requests_step_refl [simp]: "requests_step rs rs"
  by (auto simp: requests_step_def intro: request_kept_refl)

lemma requests_step_trans:
  assumes "requests_step a b" and "requests_step b c"
  shows "requests_step a c"
proof -
  have "\<exists>q''\<in>set c. request_kept q q''" if q: "q \<in> set a" for q
  proof -
    obtain q' where "q' \<in> set b" "request_kept q q'" using assms(1) q unfolding requests_step_def by blast
    moreover from this obtain q'' where "q'' \<in> set c" "request_kept q' q''"
      using assms(2) unfolding requests_step_def by blast
    ultimately show ?thesis
      by (intro bexI [of _ q'']) (auto simp: request_kept_def dest: nameless_state)
  qed
  with assms show ?thesis by (simp add: requests_step_def)
qed

lemma requests_step_update:
  assumes "\<And>q. p q \<Longrightarrow> tq_state q = ReqOpen \<or> nameless (f q) = nameless q" and "\<And>q. tq_id (f q) = tq_id q"
  shows "requests_step rs (sql_update p f rs)"
proof -
  have "request_kept q (if p q then f q else q)" for q using assms by (auto simp: request_kept_def)
  moreover have "(if p q then f q else q) \<in> set (sql_update p f rs)" if "q \<in> set rs" for q
    using that by (simp add: set_sql_update)
  ultimately have "\<forall>q\<in>set rs. \<exists>q'\<in>set (sql_update p f rs). request_kept q q'" by blast
  then show ?thesis using assms(2) by (simp add: requests_step_def map_sql_update)
qed

lemma requests_step_append:
  "\<not> sql_exists (\<lambda>r. tq_id r = tq_id q) rs \<Longrightarrow> requests_step rs (rs @ [q])"
  by (auto simp: requests_step_def sql_exists_iff intro: request_kept_refl)

lemma beside_same: "outside db' = outside db \<Longrightarrow> db_requests db' = db_requests db \<Longrightarrow> beside db db'"
  by (simp add: beside_def)

lemma beside_refl [simp]: "beside db db"
  by (rule beside_same) simp_all

lemma beside_trans [trans]: "beside a b \<Longrightarrow> beside b c \<Longrightarrow> beside a c"
  by (auto simp: beside_def intro: requests_step_trans)

lemma delete_records_beside: "beside db (snd (delete_records p db))"
  by (rule beside_same) (simp_all add: delete_records_def Let_def)

lemma purges_beside [beside_frame]:
  "purge_queue_edits now db = (n, db') \<Longrightarrow> beside db db'"
  "purge_expired now db = (n, db') \<Longrightarrow> beside db db'"
  "purge_expired_sends now grace db = (n, db') \<Longrightarrow> beside db db'"
proof -
  have edits: "beside db (snd (purge_queue_edits now db))" for db
    by (rule beside_same) (simp_all add: purge_queue_edits_def)
  then show "purge_queue_edits now db = (n, db') \<Longrightarrow> beside db db'" by (metis snd_conv)
  show "purge_expired now db = (n, db') \<Longrightarrow> beside db db'"
    using edits delete_records_beside
    by (auto simp: purge_expired_def Let_def split: prod.splits) (metis beside_trans snd_conv)
  show "purge_expired_sends now grace db = (n, db') \<Longrightarrow> beside db db'"
    using delete_records_beside by (metis purge_expired_sends_def snd_conv)
qed

lemma reserve_insert_beside [beside_frame]:
  "reserve_insert key c issued expires now db = Inr (r, db') \<Longrightarrow> beside db db'"
  by (auto simp: reserve_insert_def intro!: beside_same split: if_splits sum.splits option.splits)

lemma reserve_beside [beside_frame]:
  "reserve key c issued horizon now tolerance db = Inr (r, db') \<Longrightarrow> beside db db'"
  by (auto simp: reserve_def dest: reserve_insert_beside split: if_splits sum.splits option.splits)

lemma record_transition_beside [beside_frame]:
  "record_transition key a b db = Inr (r, db') \<Longrightarrow> beside db db'"
  by (auto simp: record_transition_def start_record_def intro!: beside_same split: if_splits prod.splits)

lemma finalize_beside [beside_frame]: "finalize key result db = Inr (r, db') \<Longrightarrow> beside db db'"
  by (auto simp: finalize_def settle_record_def intro!: beside_same
      split: if_splits prod.splits option.splits PublicResult.splits)

lemma reject_prepared_beside [beside_frame]: "reject_prepared key category reason db = Inr (r, db') \<Longrightarrow> beside db db'"
  by (auto simp: reject_prepared_def settle_record_def start_record_def intro!: beside_same
      split: if_splits prod.splits)

lemma insert_link_beside: "insert_link l db = Inr db' \<Longrightarrow> beside db db'"
  by (auto simp: insert_link_def intro!: beside_same split: if_splits)

lemma record_message_beside: "beside db (record_message_in_transaction ts msg ck db)"
  by (rule beside_same) (simp_all add: record_message_in_transaction_def)

lemma insert_request_beside: "insert_request r db = Inr db' \<Longrightarrow> beside db db'"
  by (auto simp: insert_request_def beside_def intro!: requests_step_append split: if_splits)

lemma begin_beside [beside_frame]:
  assumes "begin_send_delivery_with_guidance codec ts key delivery tracking link guidance cap held db = Inr (u, db')"
  shows "beside db db'"
  using assms
proof (rule begin_Inr)
  fix msg :: BridgetMessage and db2 db3 db4
  let ?ck = "msg_from msg @ ''|'' @ msg_to msg"
  assume ins: "insert_delivery (begin_row key delivery held msg (resumed_gate link msg (snd (start_record key db))))
      (snd (start_record key db)) = Inr db2"
    and link: "(case link of Some l \<Rightarrow> insert_link l db2 | None \<Rightarrow> Inr db2) = Inr db3"
    and tracking: "(case tracking of
        Some r \<Rightarrow> insert_request r (record_message_in_transaction ts msg ?ck db3)
      | None \<Rightarrow> Inr (record_message_in_transaction ts msg ?ck db3)) = Inr db4"
    and guidance: "(case guidance of Some g \<Rightarrow> insert_guidance g db4 | None \<Rightarrow> Inr db4) = Inr db'"
  have "beside db (snd (start_record key db))" by (rule beside_same) (simp_all add: start_record_def)
  also have "beside (snd (start_record key db)) db2"
    by (rule beside_same) (simp_all add: insert_delivery_Inr(1) [OF ins])
  also have "beside db2 db3" using link insert_link_beside by (auto split: option.splits)
  also have "beside db3 (record_message_in_transaction ts msg ?ck db3)" by (rule record_message_beside)
  also have "beside (record_message_in_transaction ts msg ?ck db3) db4"
    using tracking insert_request_beside by (auto split: option.splits)
  also have "beside db4 db'"
    using guidance by (auto simp: insert_guidance_def intro!: beside_same split: option.splits if_splits prod.splits)
  finally show ?thesis .
qed

lemma link_send_delivery_beside [beside_frame]: "link_send_delivery link db = Inr (r, db') \<Longrightarrow> beside db db'"
  by (auto simp: link_send_delivery_def q_bind_Inr_iff dest: insert_link_beside split: if_splits option.splits)

lemma moves_beside [beside_frame]:
  "reassign_dispatching_deliveries codec a b now db = (n, db') \<Longrightarrow> beside db db'"
  "adopt_held_for_agent codec agent inst recover ts db = Inr (n, db') \<Longrightarrow> beside db db'"
  "dispatching_deliveries_for_instance inst now db = Inr (ds, db') \<Longrightarrow> beside db db'"
  "mark_delivery_indeterminate did inst gen db = Inr (u, db') \<Longrightarrow> beside db db'"
  "settle_expired_dispatching now db = (n, db') \<Longrightarrow> beside db db'"
  "open_turn p db = (n, db') \<Longrightarrow> beside db db'"
  by (auto simp: reassign_dispatching_deliveries_def adopt_held_for_agent_def dispatching_deliveries_for_instance_def
      mark_delivery_indeterminate_def settle_expired_dispatching_def open_turn_def Let_def
      intro!: beside_same split: if_splits)

lemma frame_beside [beside_frame]:
  "beside db (mark_orphan_emitter_notified did now db)"
  "beside db (clear_held_turn_gate agent db)"
  "beside db (expire_gates agent now db)"
  "beside db (insert_notice i j k at db)"
  by (rule beside_same; simp add: mark_orphan_emitter_notified_def clear_held_turn_gate_def expire_gates_def
      insert_notice_def)+

lemma orphan_one_beside: "orphan_one codec reason ts d db = Inr (n, db') \<Longrightarrow> beside db db'"
  by (auto simp: orphan_one_def settle_record_def insert_notice_def Let_def intro!: beside_same
      split: if_splits prod.splits)

lemma orphan_loop_beside: "orphan_loop codec reason ts ds db = Inr (ns, db') \<Longrightarrow> beside db db'"
  by (induction ds arbitrary: db ns) (auto simp: q_bind_Inr_iff dest!: orphan_one_beside intro: beside_trans)

lemma orphan_beside [beside_frame]:
  "orphan_dispatching_for_instance codec inst reason ts db = Inr (ns, db') \<Longrightarrow> beside db db'"
  by (auto simp: orphan_dispatching_for_instance_def dest: orphan_loop_beside)

lemma mark_answered_beside: "beside db (snd (mark_answered_in_transaction ts rid responder recipient summary db))"
  by (auto simp: beside_def mark_answered_in_transaction_def Let_def intro!: requests_step_update)

lemma answer_request_beside: "beside db (snd (answer_request codec ts d db))"
  using mark_answered_beside
  by (auto simp: answer_request_def split: option.split prod.split) (metis snd_conv)

lemma ack_beside [beside_frame]:
  assumes "acknowledge_send_delivery_at codec ts did inst gen now db = Inr (res, db')"
  shows "beside db db'"
proof -
  from assms have "db' = db \<or> (\<exists>d. (res, db') = answer_request codec ts d (acked_db d now db))"
    by (auto simp: acknowledge_send_delivery_at_def split: option.splits if_splits prod.splits) (metis snd_conv)
  moreover have "beside db (acked_db d now db)" for d
    by (rule beside_same) (simp_all add: ack_tables_def settle_record_def Let_def)
  ultimately show ?thesis using answer_request_beside by (metis beside_refl beside_trans snd_conv)
qed

lemma lifecycle_tables [simp]:
  "db_requests (record_lifecycle_event_in_transaction scope rid st at answer response db) = db_requests db"
  "db_guichet (record_lifecycle_event_in_transaction scope rid st at answer response db) = db_guichet db"
  "db_last_sequence (record_lifecycle_event_in_transaction scope rid st at answer response db) = db_last_sequence db"
  "db_request_events (record_lifecycle_event_in_transaction scope rid st at answer response db) = db_request_events db"
  "db_coordination (record_lifecycle_event_in_transaction scope rid st at answer response db) = db_coordination db"
  "db_high_watermark (record_lifecycle_event_in_transaction scope rid st at answer response db) = db_high_watermark db"
  "core_of (record_lifecycle_event_in_transaction scope rid st at answer response db) = core_of db"
  "db_edits (record_lifecycle_event_in_transaction scope rid st at answer response db) = db_edits db"
  "db_ledger (record_lifecycle_event_in_transaction scope rid st at answer response db) = db_ledger db"
  by (simp_all add: record_lifecycle_event_in_transaction_def core_of_def)

lemma lifecycle_fold:
  "db_requests (fold (\<lambda>g. record_lifecycle_event_in_transaction (gr_issuer_scope g) (gr_request_id g) st at answer response) gs db) = db_requests db"
  "db_guichet (fold (\<lambda>g. record_lifecycle_event_in_transaction (gr_issuer_scope g) (gr_request_id g) st at answer response) gs db) = db_guichet db"
  "db_last_sequence (fold (\<lambda>g. record_lifecycle_event_in_transaction (gr_issuer_scope g) (gr_request_id g) st at answer response) gs db) = db_last_sequence db"
  "db_request_events (fold (\<lambda>g. record_lifecycle_event_in_transaction (gr_issuer_scope g) (gr_request_id g) st at answer response) gs db) = db_request_events db"
  "db_coordination (fold (\<lambda>g. record_lifecycle_event_in_transaction (gr_issuer_scope g) (gr_request_id g) st at answer response) gs db) = db_coordination db"
  "db_high_watermark (fold (\<lambda>g. record_lifecycle_event_in_transaction (gr_issuer_scope g) (gr_request_id g) st at answer response) gs db) = db_high_watermark db"
  "core_of (fold (\<lambda>g. record_lifecycle_event_in_transaction (gr_issuer_scope g) (gr_request_id g) st at answer response) gs db) = core_of db"
  "db_edits (fold (\<lambda>g. record_lifecycle_event_in_transaction (gr_issuer_scope g) (gr_request_id g) st at answer response) gs db) = db_edits db"
  "db_ledger (fold (\<lambda>g. record_lifecycle_event_in_transaction (gr_issuer_scope g) (gr_request_id g) st at answer response) gs db) = db_ledger db"
  by (induction gs arbitrary: db) simp_all

lemma linked_lifecycle_tables [simp]:
  "db_requests (record_lifecycle_for_linked_request_in_transaction rid st at db) = db_requests db"
  "db_guichet (record_lifecycle_for_linked_request_in_transaction rid st at db) = db_guichet db"
  "db_last_sequence (record_lifecycle_for_linked_request_in_transaction rid st at db) = db_last_sequence db"
  "db_request_events (record_lifecycle_for_linked_request_in_transaction rid st at db) = db_request_events db"
  "db_coordination (record_lifecycle_for_linked_request_in_transaction rid st at db) = db_coordination db"
  "db_high_watermark (record_lifecycle_for_linked_request_in_transaction rid st at db) = db_high_watermark db"
  "core_of (record_lifecycle_for_linked_request_in_transaction rid st at db) = core_of db"
  "db_edits (record_lifecycle_for_linked_request_in_transaction rid st at db) = db_edits db"
  "db_ledger (record_lifecycle_for_linked_request_in_transaction rid st at db) = db_ledger db"
  by (simp_all add: record_lifecycle_for_linked_request_in_transaction_def lifecycle_fold)

lemma close_request_beside: "beside db (close_request msg reason now db)"
  by (auto simp: close_request_def beside_def Let_def intro!: requests_step_update)

lemma settle_held_beside [beside_frame]:
  assumes "settle_held_in_transaction codec did reason now db = Inr (n, db')"
  shows "beside db db'"
proof -
  have cases: "db' = db \<or> (\<exists>d msg db2. db2 = withdrawn_db d msg reason db \<and>
      db' = insert_notice did (msg_from msg) (withdrawn_body msg reason) now
        (if reply msg then close_request msg reason now db2 else db2))"
    using assms unfolding settle_held_in_transaction_def
    by (auto split: option.splits if_splits prod.splits) (metis snd_conv)+
  have withdrawn: "beside db (withdrawn_db d msg reason db)" for d msg
    by (rule beside_same) (simp_all add: withdraw_tables_def settle_record_def Let_def)
  have closed: "beside x (insert_notice i j k at (if r then close_request msg reason now x else x))" for x i j k at r msg
    by (cases r) (simp_all add: beside_trans [OF close_request_beside frame_beside(4)] frame_beside(4))
  from cases show ?thesis
  proof (elim disjE exE conjE)
    fix d msg db2
    assume "db2 = withdrawn_db d msg reason db" and db': "db' = insert_notice did (msg_from msg)
      (withdrawn_body msg reason) now (if reply msg then close_request msg reason now db2 else db2)"
    then have "beside db db2" using withdrawn by simp
    then show ?thesis unfolding db' by (rule beside_trans [OF _ closed])
  qed simp
qed

lemma release_beside [beside_frame]:
  assumes "release_next_held codec agent now db = Inr (res, db')"
  shows "beside db db'"
  using assms
proof (cases rule: release_Inr)
  case (candidate d ds)
  then have "beside (expire_gates agent now db) db'"
    by (auto simp: release_candidate_def q_bind_Inr_iff dest!: settle_held_beside moves_beside(6)
        split: option.splits if_splits prod.splits)
  then show ?thesis by (rule beside_trans [OF frame_beside(3)])
qed (auto intro: frame_beside)

text \<open>An edit adds its receipt to what its callback leaves.\<close>

lemma queue_edit_beside:
  assumes "queue_edit_once scope rid c act actor now app db = Inr (x, db')"
    and "\<And>x db1. app db = Inr (x, db1) \<Longrightarrow> beside db db1"
  shows "beside db db'"
proof -
  have receipt: "beside a (b\<lparr>db_edits := es\<rparr>)" if "beside a b" for a b es
    by (rule beside_trans [OF that]) (rule beside_same; simp)
  show ?thesis
  proof (cases "edit_of (scope, rid) db")
    case (Some e)
    with assms(1) show ?thesis
      by (auto simp: queue_edit_once_def edit_of_def q_bind_Inr_iff split: if_splits)
  next
    case None
    with assms(1) obtain delivery before decision db1 where app: "app db = Inr ((delivery, before, decision), db1)"
      by (auto simp: queue_edit_once_def edit_of_def q_bind_Inr_iff split: if_splits)
    have "beside db db1" using assms(2) app by blast
    with assms(1) None app receipt show ?thesis
      by (cases decision)
        (auto simp: queue_edit_once_def edit_of_def q_bind_Inr_iff split: if_splits option.splits prod.splits)
  qed
qed

lemma cancel_apply_beside: "cancel_apply codec agent mid now db = Inr (x, db1) \<Longrightarrow> beside db db1"
  by (auto simp: cancel_apply_def q_bind_Inr_iff dest: settle_held_beside split: option.splits)

lemma update_rank_beside: "update_rank p rank db = Inr db' \<Longrightarrow> beside db db'"
  by (auto simp: update_rank_def intro!: beside_same split: if_splits)

lemma negate_ranks_beside: "negate_ranks agent rows db = Inr db1 \<Longrightarrow> beside db db1"
  by (induction agent rows db rule: negate_ranks.induct)
    (auto simp: q_bind_Inr_iff dest!: update_rank_beside intro: beside_trans)

lemma assign_ranks_beside: "assign_ranks agent rows db = Inr db1 \<Longrightarrow> beside db db1"
  by (induction agent rows db rule: assign_ranks.induct)
    (auto simp: q_bind_Inr_iff dest!: update_rank_beside intro: beside_trans)

lemma reorder_rows_beside: "reorder_rows agent did before rows db = Inr db1 \<Longrightarrow> beside db db1"
  by (auto simp: reorder_rows_def q_bind_Inr_iff Let_def dest!: negate_ranks_beside assign_ranks_beside
      intro: beside_trans split: if_splits option.splits)

lemma reorder_apply_beside: "reorder_apply codec agent mid before db = Inr (x, db1) \<Longrightarrow> beside db db1"
  by (auto simp: reorder_apply_def q_bind_Inr_iff dest: reorder_rows_beside split: option.splits)

lemma promote_apply_beside:
  assumes "promote_apply codec code rights agent mid now db = Inr (x, db1)"
  shows "beside db db1"
proof -
  have "beside db db1" if "promote_candidate codec code rights agent now d db = Inr (x, db1)" for d
    using that
    by (auto simp: promote_candidate_def q_bind_Inr_iff dest: settle_held_beside moves_beside(6)
        split: option.splits sum.splits if_splits prod.splits)
  with assms show ?thesis by (auto simp: promote_apply_def split: option.splits)
qed

lemma edits_beside [beside_frame]:
  "apply_cancel codec scope rid c actor agent mid now db = Inr (x, db') \<Longrightarrow> beside db db'"
  "apply_reorder codec scope rid c actor agent mid before now db = Inr (y, db') \<Longrightarrow> beside db db'"
  "apply_promote codec scope rid c actor agent mid facts code now db = Inr (z, db') \<Longrightarrow> beside db db'"
  by (auto simp: apply_cancel_def q_bind_Inr_iff elim!: queue_edit_beside dest: cancel_apply_beside)
    (auto simp: apply_reorder_def q_bind_Inr_iff elim!: queue_edit_beside dest: reorder_apply_beside,
     auto simp: apply_promote_def Let_def elim!: queue_edit_beside dest: promote_apply_beside split: sum.splits)

fun elsewhere :: "store_op \<Rightarrow> bool" where
  "elsewhere (OpElsewhere requests interruptions deposits control) = True"
| "elsewhere _ = False"

lemma store_exec_beside:
  assumes "store_exec codec x db = Inr (r, db')" and "\<not> elsewhere x"
  shows "beside db db'"
  using assms by (cases x) (auto simp: replying_Inr settle_held_def intro: beside_frame)

end
