(* ===== verification/Daemon_Machine.thy ===== *)
theory Daemon_Machine
  imports Store_Frames
begin

text \<open>
  The database of the daemon as one machine: the operations of the idempotent store, of the
  tracked requests, of the ledger and of the guichet, one after the other in any order and with
  any arguments. The invariant of its tables, and the contract of its durable facts: a closed
  request, a settled deposit and a numbered reminder.
\<close>

section \<open>Operations\<close>

datatype daemon_op =
    DStore store_op
  | DCreateRequest string string string nat int
  | DSetDeadline string int
  | DCancelRequest string string "string option" int
  | DMarkAnswered string string string "string option" int
  | DMarkTimedOut string int
  | DSetEscalation string nat
  | DDeferred string nat int
  | DRecordMessage BridgetMessage string int
  | DMigrate "(string \<times> string) list"
  | DPurgeDays nat int
  | DDeposit GuichetDeposit int int int
  | DClaimNext "8 word list" string int
  | DReply string GuichetReplyInput int int
  | DReleaseClaims string
  | DRecoverClaims
  | DReminderSent string string string string nat int

datatype daemon_reply =
    RepStore store_reply
  | RepUnit
  | RepBool bool
  | RepCount nat
  | RepRequest "TrackedRequest option"
  | RepGuichet GuichetResult
  | RepNext GuichetNext
  | RepReminder CoordinationRow

datatype daemon_error = EStore IdempotencyError | ELedger StoreError

text \<open>The writes of other stores, without those of the tables that are modelled here.\<close>

fun own_tables :: "store_op \<Rightarrow> Db \<Rightarrow> store_op" where
  "own_tables (OpElsewhere requests interruptions deposits control) db =
     OpElsewhere (db_requests db) interruptions (db_guichet db) control"
| "own_tables x db = x"

definition relabel :: "('e \<Rightarrow> daemon_error) \<Rightarrow> ('r \<Rightarrow> daemon_reply) \<Rightarrow> 'e + 'r \<times> Db \<Rightarrow> daemon_error + daemon_reply \<times> Db" where
  "relabel e f x = map_sum e (map_prod f id) x"

fun daemon_exec :: "Codec \<Rightarrow> (string \<Rightarrow> bool) \<Rightarrow> daemon_op \<Rightarrow> Db \<Rightarrow> daemon_error + daemon_reply \<times> Db" where
  "daemon_exec codec attests (DStore x) db = relabel EStore RepStore (store_exec codec (own_tables x db) db)"
| "daemon_exec codec attests (DCreateRequest rid sender tgt timeout ts) db =
     relabel ELedger (RepRequest \<circ> Some) (create_request rid sender tgt timeout ts db)"
| "daemon_exec codec attests (DSetDeadline rid deadline) db =
     relabel ELedger RepBool (set_request_deadline rid deadline db)"
| "daemon_exec codec attests (DCancelRequest rid sender reason ts) db =
     relabel ELedger RepRequest (cancel_request rid sender reason ts db)"
| "daemon_exec codec attests (DMarkAnswered rid responder recipient summary ts) db =
     relabel ELedger RepBool (mark_answered rid responder recipient summary ts db)"
| "daemon_exec codec attests (DMarkTimedOut rid ts) db = relabel ELedger RepBool (mark_timed_out rid ts db)"
| "daemon_exec codec attests (DSetEscalation rid level) db =
     relabel ELedger (\<lambda>_. RepUnit) (set_escalation_level rid level db)"
| "daemon_exec codec attests (DDeferred rid level ts) db =
     relabel ELedger (\<lambda>_. RepUnit) (record_deferred_reminder rid level ts db)"
| "daemon_exec codec attests (DRecordMessage msg ck ts) db =
     relabel ELedger (\<lambda>_. RepUnit) (record_message msg ck ts db)"
| "daemon_exec codec attests (DMigrate mapping) db =
     relabel ELedger (\<lambda>_. RepUnit) (migrate_agent_references mapping db)"
| "daemon_exec codec attests (DPurgeDays days ts) db = relabel ELedger RepCount (purge_older_than_days days ts db)"
| "daemon_exec codec attests (DDeposit d horizon tolerance now) db =
     relabel ELedger RepGuichet (deposit_guichet d horizon tolerance now db)"
| "daemon_exec codec attests (DClaimNext bytes owner now) db =
     relabel ELedger RepNext (claim_next_guichet attests bytes owner now db)"
| "daemon_exec codec attests (DReply owner i ts now) db = relabel ELedger RepGuichet (reply_guichet owner i ts now db)"
| "daemon_exec codec attests (DReleaseClaims owner) db =
     relabel ELedger (\<lambda>_. RepUnit) (release_guichet_claims owner db)"
| "daemon_exec codec attests DRecoverClaims db =
     relabel ELedger (\<lambda>_. RepUnit) (recover_guichet_claims_after_restart db)"
| "daemon_exec codec attests (DReminderSent event_id rid mid recipient generation at) db =
     relabel ELedger RepReminder (record_reminder_sent event_id rid mid recipient generation at db)"

lemma relabel_Inr: "relabel e f x = Inr (r, db') \<longleftrightarrow> (\<exists>v. x = Inr (v, db') \<and> r = f v)"
  by (cases x) (auto simp: relabel_def)

section \<open>Requests\<close>

abbreviation requests_of :: "Db \<Rightarrow> Db \<Rightarrow> bool" where
  "requests_of db db' \<equiv> requests_step (db_requests db) (db_requests db')"

lemma own_tables_beside:
  assumes "store_exec codec (own_tables x db) db = Inr (r, db')"
  shows "beside db db'"
proof (cases "elsewhere x")
  case True
  with assms show ?thesis by (cases x) (auto intro: beside_same)
next
  case False
  then have "own_tables x db = x" by (cases x) simp_all
  with assms False show ?thesis by (auto intro: store_exec_beside)
qed

lemma open_row_step [simp]:
  "(\<And>q. tq_id (f q) = tq_id q) \<Longrightarrow> requests_step rs (sql_update (open_row rid) f rs)"
  by (rule requests_step_update) (simp_all add: open_row_def)

lemma rename_agent_requests: "rename_agent m db = Inr db' \<Longrightarrow> requests_of db db'"
  by (auto simp: rename_agent_def Let_def split: prod.splits if_splits
      intro!: requests_step_trans [OF requests_step_update requests_step_update] simp: nameless_def)

lemma rename_agents_requests: "rename_agents ms db = Inr db' \<Longrightarrow> requests_of db db'"
proof (induction ms arbitrary: db)
  case (Cons m ms)
  then obtain db1 where "rename_agent m db = Inr db1" "rename_agents ms db1 = Inr db'"
    by (auto split: sum.splits)
  with Cons.IH show ?case using rename_agent_requests requests_step_trans by blast
qed simp

lemma answer_linked_requests: "requests_of db (answer_linked row i ts now db)"
proof -
  have "requests_of db db'" if "mark_answered_in_transaction ts rid a b c db = (x, db')" for rid a b c x db'
    using mark_answered_beside [of db ts rid a b c] that by (simp add: beside_def)
  then show ?thesis by (simp add: answer_linked_def split: option.split prod.split GuichetOutcome.split)
qed

lemma reply_requests: "reply_guichet owner i ts now db = Inr (r, db') \<Longrightarrow> requests_of db db'"
  using answer_linked_requests [of "db\<lparr>db_guichet := gs\<rparr>" for gs]
  by (auto simp: reply_guichet_def Let_def split: option.splits if_splits)

lemma daemon_exec_requests:
  assumes "daemon_exec codec attests x db = Inr (r, db')" and "\<And>days ts. x \<noteq> DPurgeDays days ts"
  shows "requests_of db db'"
proof (cases x)
  case (DStore y)
  with assms(1) show ?thesis using own_tables_beside by (auto simp: relabel_Inr beside_def)
next
  case (DCreateRequest rid sender tgt timeout ts)
  with assms(1) show ?thesis
    by (auto simp: relabel_Inr create_request_def Let_def intro!: requests_step_append split: if_splits)
next
  case (DCancelRequest rid sender reason ts)
  with assms(1) show ?thesis
    by (auto simp: relabel_Inr cancel_request_def Let_def split: option.splits if_splits)
next
  case (DMarkAnswered rid responder recipient summary ts)
  with assms(1) show ?thesis using mark_answered_beside [of db]
    by (auto simp: relabel_Inr mark_answered_def beside_def) (metis snd_conv)
next
  case (DMigrate mapping)
  with assms(1) show ?thesis
    by (auto simp: relabel_Inr migrate_agent_references_def split: sum.splits dest!: rename_agents_requests)
next
  case (DReply owner i ts now)
  with assms(1) show ?thesis by (auto simp: relabel_Inr dest: reply_requests)
qed (use assms in \<open>auto simp: relabel_Inr set_request_deadline_def mark_timed_out_def set_escalation_level_def
    record_deferred_reminder_def record_message_def record_message_in_transaction_def deposit_guichet_def
    claim_next_guichet_def release_guichet_claims_def recover_guichet_claims_after_restart_def
    record_reminder_sent_def Let_def split: option.splits if_splits\<close>)

section \<open>Deposits\<close>

text \<open>The life of a deposit: queued, claimed, back in the queue or settled for good.\<close>

inductive guichet_row_step :: "GuichetRow \<Rightarrow> GuichetRow \<Rightarrow> bool" where
  requeue: "gr_state g = GClaimed \<Longrightarrow> guichet_row_step g (requeued g)"
| claim: "gr_state g = GQueued \<Longrightarrow> guichet_row_step g (claimed_row owner generation token until g)"
| settle: "gr_state g = GClaimed \<Longrightarrow>
    guichet_row_step g (settled_row (guichet_outcome_name outcome) bytes g)"

definition settled :: "GuichetRow \<Rightarrow> bool" where
  "settled g \<longleftrightarrow> gr_state g = GReplied \<or> gr_state g = GRejected"

interpretation deposits: absorbing_machine guichet_row_step settled
  by unfold_locales (auto simp: settled_def elim: guichet_row_step.cases)

text \<open>What never changes in the row of a deposit.\<close>

definition deposit_identity :: "GuichetRow \<Rightarrow> int \<times> string \<times> string \<times> string \<times> string option \<times> int \<times> string \<times> string option" where
  "deposit_identity g =
     (gr_deposited_sequence g, gr_issuer_scope g, gr_request_id g, gr_canonical_request g,
      gr_authorization_attestation g, gr_expires_at g, gr_sender g, gr_linked_request_id g)"

text \<open>The columns that a state of a row fills.\<close>

definition guichet_row_wf :: "GuichetRow \<Rightarrow> bool" where
  "guichet_row_wf g \<longleftrightarrow>
     (gr_state g = GQueued \<longrightarrow> gr_claim_owner g = None \<and> gr_claim_token g = None \<and> gr_claim_lease_expires_at g = None) \<and>
     (gr_state g \<noteq> GQueued \<longrightarrow> gr_claim_owner g \<noteq> None \<and> gr_claim_token g \<noteq> None \<and> gr_claim_lease_expires_at g \<noteq> None) \<and>
     (settled g \<longleftrightarrow> gr_reply_bytes g \<noteq> None) \<and>
     (settled g \<longleftrightarrow> gr_result_issue g \<in> Some ` range guichet_outcome_name) \<and>
     (gr_state g = GRejected \<longleftrightarrow> gr_result_issue g = Some (guichet_outcome_name OutRefused)) \<and>
     (gr_reply_bytes g = None \<longleftrightarrow> gr_result_issue g = None)"

lemma guichet_row_step_keeps:
  assumes "guichet_row_step g g'"
  shows "deposit_identity g' = deposit_identity g" and "guichet_row_wf g \<Longrightarrow> guichet_row_wf g'"
  using assms
  by (cases; simp add: deposit_identity_def requeued_def claimed_row_def settled_row_def)
    (use assms in \<open>cases; auto simp: guichet_row_wf_def settled_def requeued_def claimed_row_def settled_row_def\<close>)

lemma guichet_row_steps_keep:
  "guichet_row_step\<^sup>*\<^sup>* g g' \<Longrightarrow> deposit_identity g' = deposit_identity g \<and> (guichet_row_wf g \<longrightarrow> guichet_row_wf g')"
  by (induction rule: rtranclp_induct) (auto dest: guichet_row_step_keeps)

abbreviation rows_step :: "GuichetRow table \<Rightarrow> GuichetRow table \<Rightarrow> bool" where
  "rows_step \<equiv> list_all2 guichet_row_step\<^sup>*\<^sup>*"

lemma rows_step_refl [simp]: "rows_step gs gs"
  by (simp add: list_all2_refl)

lemma rows_step_trans: "rows_step a b \<Longrightarrow> rows_step b c \<Longrightarrow> rows_step a c"
  by (rule list_all2_trans) auto

lemma rows_step_update: "(\<And>g. p g \<Longrightarrow> guichet_row_step g (f g)) \<Longrightarrow> rows_step gs (sql_update p f gs)"
  by (induction gs) auto

lemma claim_next_rows:
  assumes "claim_next_guichet attests bytes owner now db = Inr (r, db')"
  shows "rows_step (db_guichet db) (db_guichet db')"
proof -
  have lapse: "rows_step gs (sql_update (lapsed now) requeued gs)" for gs
    by (rule rows_step_update) (auto simp: lapsed_def intro: requeue)
  have claim: "rows_step gs (sql_update (\<lambda>g. gr_deposited_sequence g = n \<and> gr_state g = GQueued)
      (claimed_row owner generation token until) gs)" for gs n generation token until
    by (rule rows_step_update) (auto intro: claim)
  show ?thesis using assms
    by (auto simp: claim_next_guichet_def Let_def split: option.splits if_splits
        intro: lapse rows_step_trans [OF lapse claim])
qed

lemma core_of_frames [simp]:
  "core_of (db\<lparr>db_requests := x0\<rparr>) = core_of db"
  "core_of (db\<lparr>db_ledger := x1\<rparr>) = core_of db"
  "core_of (db\<lparr>db_guichet := x2\<rparr>) = core_of db"
  "core_of (db\<lparr>db_last_sequence := x3\<rparr>) = core_of db"
  "core_of (db\<lparr>db_lifecycle := x4\<rparr>) = core_of db"
  "core_of (db\<lparr>db_request_events := x5\<rparr>) = core_of db"
  "core_of (db\<lparr>db_coordination := x6\<rparr>) = core_of db"
  "core_of (db\<lparr>db_high_watermark := x7\<rparr>) = core_of db"
  by (simp_all add: core_of_def)

lemma answer_linked_frame [simp]:
  "db_guichet (answer_linked row i ts now db) = db_guichet db"
  "db_last_sequence (answer_linked row i ts now db) = db_last_sequence db"
  "db_request_events (answer_linked row i ts now db) = db_request_events db"
  "db_coordination (answer_linked row i ts now db) = db_coordination db"
  "db_high_watermark (answer_linked row i ts now db) = db_high_watermark db"
  "core_of (answer_linked row i ts now db) = core_of db"
  by (auto simp: answer_linked_def mark_answered_in_transaction_def Let_def
      split: option.split prod.split GuichetOutcome.split)

lemma reply_rows:
  assumes "reply_guichet owner i ts now db = Inr (r, db')"
  shows "rows_step (db_guichet db) (db_guichet db')"
proof -
  have settle: "rows_step gs (sql_update (held_claim owner i now) (settled_row (guichet_outcome_name out) bytes) gs)"
    for gs out bytes
    by (rule rows_step_update) (auto simp: held_claim_def intro: settle)
  show ?thesis using assms
    by (auto simp: reply_guichet_def Let_def settle split: option.splits if_splits)
qed

lemma rename_agents_frame:
  "rename_agents ms db = Inr db' \<Longrightarrow> outside db' = outside db \<and> core_of db' = core_of db"
  by (induction ms arbitrary: db)
    (auto simp: rename_agent_def Let_def split: sum.splits prod.splits if_splits)

lemma cancel_request_frame:
  "cancel_request rid sender reason ts db = Inr (r, db') \<Longrightarrow> outside db' = outside db \<and> core_of db' = core_of db"
  by (auto simp: cancel_request_def Let_def split: option.splits if_splits)

text \<open>What the remaining operations do to the other tables.\<close>

lemmas plain_defs = create_request_def set_request_deadline_def mark_answered_def mark_answered_in_transaction_def
  mark_timed_out_def set_escalation_level_def record_deferred_reminder_def record_message_def
  record_message_in_transaction_def migrate_agent_references_def

lemma daemon_exec_rows:
  assumes "daemon_exec codec attests x db = Inr (r, db')"
    and "\<And>days ts. x \<noteq> DPurgeDays days ts" and "\<And>d h t now. x \<noteq> DDeposit d h t now"
  shows "rows_step (db_guichet db) (db_guichet db') \<and> db_last_sequence db' = db_last_sequence db"
proof (cases x)
  case (DStore y)
  with assms(1) show ?thesis using own_tables_beside by (auto simp: relabel_Inr beside_def)
next
  case (DCancelRequest rid sender reason ts)
  with assms(1) show ?thesis by (auto simp: relabel_Inr dest: cancel_request_frame)
next
  case (DMigrate mapping)
  with assms(1) show ?thesis
    by (auto simp: relabel_Inr migrate_agent_references_def split: sum.splits dest!: rename_agents_frame)
next
  case (DClaimNext bytes owner now)
  with assms(1) show ?thesis
    by (auto simp: relabel_Inr dest: claim_next_rows)
      (auto simp: claim_next_guichet_def Let_def split: option.splits if_splits)
next
  case (DReply owner i ts now)
  with assms(1) show ?thesis
    by (auto simp: relabel_Inr dest: reply_rows) (auto simp: reply_guichet_def Let_def split: option.splits if_splits)
next
  case (DReleaseClaims owner)
  with assms(1) show ?thesis
    by (auto simp: relabel_Inr release_guichet_claims_def intro!: rows_step_update requeue)
next
  case DRecoverClaims
  with assms(1) show ?thesis
    by (auto simp: relabel_Inr recover_guichet_claims_after_restart_def intro!: rows_step_update requeue)
qed (use assms in \<open>auto simp: relabel_Inr plain_defs record_reminder_sent_def Let_def split: if_splits option.splits\<close>)

definition guichet_inv :: "Db \<Rightarrow> bool" where
  "guichet_inv db \<longleftrightarrow>
     distinct (map gr_deposited_sequence (db_guichet db)) \<and>
     distinct (map (\<lambda>g. (gr_issuer_scope g, gr_request_id g)) (db_guichet db)) \<and>
     (\<forall>g\<in>set (db_guichet db). gr_deposited_sequence g \<le> db_last_sequence db \<and> guichet_row_wf g)"

lemma rows_step_identity: "rows_step gs gs' \<Longrightarrow> map deposit_identity gs' = map deposit_identity gs"
  by (induction rule: list_all2_induct) (auto dest: guichet_row_steps_keep)

lemma rows_step_row:
  assumes "rows_step gs gs'"
  shows "g \<in> set gs \<Longrightarrow> \<exists>g'\<in>set gs'. guichet_row_step\<^sup>*\<^sup>* g g'" and "g' \<in> set gs' \<Longrightarrow> \<exists>g\<in>set gs. guichet_row_step\<^sup>*\<^sup>* g g'"
  using assms by (induction rule: list_all2_induct) auto

lemma guichet_inv_rows:
  assumes "guichet_inv db" and "rows_step (db_guichet db) (db_guichet db')" and "db_last_sequence db' = db_last_sequence db"
  shows "guichet_inv db'"
proof -
  have identity: "map (f \<circ> deposit_identity) (db_guichet db') = map (f \<circ> deposit_identity) (db_guichet db)" for f
    using rows_step_identity [OF assms(2)] by (metis map_map)
  have "map gr_deposited_sequence (db_guichet db') = map gr_deposited_sequence (db_guichet db)"
    using identity [of fst] by (simp add: deposit_identity_def comp_def)
  moreover have "map (\<lambda>g. (gr_issuer_scope g, gr_request_id g)) (db_guichet db') =
      map (\<lambda>g. (gr_issuer_scope g, gr_request_id g)) (db_guichet db)"
    using identity [of "\<lambda>(_, a, b, _). (a, b)"] by (simp add: deposit_identity_def comp_def)
  moreover have "gr_deposited_sequence g' \<le> db_last_sequence db \<and> guichet_row_wf g'" if "g' \<in> set (db_guichet db')" for g'
    using rows_step_row(2) [OF assms(2) that] assms(1) guichet_row_steps_keep
    by (fastforce simp: guichet_inv_def deposit_identity_def)
  ultimately show ?thesis using assms(1,3) by (simp add: guichet_inv_def)
qed

lemma deposit_inv:
  assumes "guichet_inv db" and "deposit_guichet d horizon tolerance now db = Inr (r, db')"
  shows "guichet_inv db'"
proof (cases "db' = db")
  case False
  with assms(2) obtain expires where new: "guichet_row_for_key (gd_issuer_scope d) (gd_request_id d) db = None"
    "db_guichet db' = db_guichet db @ [deposited_row d (db_last_sequence db + 1) expires]"
    "db_last_sequence db' = db_last_sequence db + 1"
    by (auto simp: deposit_guichet_def Let_def split: if_splits option.splits)
  have "guichet_row_wf (deposited_row d n e)" for n e by (auto simp: guichet_row_wf_def settled_def deposited_row_def)
  moreover have "(gd_issuer_scope d, gd_request_id d) \<notin> (\<lambda>g. (gr_issuer_scope g, gr_request_id g)) ` set (db_guichet db)"
    using new(1) by (auto simp: guichet_row_for_key_def sql_row_None_iff)
  ultimately show ?thesis using assms(1) new(2,3) by (fastforce simp: guichet_inv_def deposited_row_def)
qed (use assms in simp)

lemma guichet_inv_delete: "guichet_inv db \<Longrightarrow> guichet_inv (db\<lparr>db_guichet := sql_delete p (db_guichet db)\<rparr>)"
  by (auto simp: guichet_inv_def set_sql_delete distinct_map_sql_delete)

section \<open>The stream of reminders\<close>

definition stream_inv :: "Db \<Rightarrow> bool" where
  "stream_inv db \<longleftrightarrow>
     0 \<le> db_high_watermark db \<and> is_i64 (db_high_watermark db) \<and>
     map co_cursor (db_coordination db) = [1..db_high_watermark db] \<and>
     distinct (map (\<lambda>e. (co_request_id e, co_generation e)) (db_coordination db))"

lemma reminder_inv:
  assumes "stream_inv db" and "record_reminder_sent event_id rid mid recipient generation at db = Inr (e, db')"
  shows "stream_inv db' \<and> (\<exists>es. db_coordination db' = db_coordination db @ es)"
proof (cases "db' = db")
  case False
  with assms(2) have new: "\<forall>e\<in>set (db_coordination db). \<not> (co_request_id e = rid \<and> co_generation e = as_i64 generation)"
    "db_coordination db' = db_coordination db @ [e]" "db_high_watermark db' = db_high_watermark db + 1"
    "is_i64 (db_high_watermark db + 1)" "co_cursor e = db_high_watermark db + 1"
    "co_request_id e = rid" "co_generation e = as_i64 generation"
    by (auto simp: record_reminder_sent_def Let_def sql_row_None_iff split: option.splits if_splits)
  with assms(1) show ?thesis by (auto simp: stream_inv_def upto_rec2)
qed (use assms in simp)

lemma daemon_exec_stream:
  assumes "daemon_exec codec attests x db = Inr (r, db')" and "\<And>a b c d e f. x \<noteq> DReminderSent a b c d e f"
  shows "db_coordination db' = db_coordination db \<and> db_high_watermark db' = db_high_watermark db"
proof (cases x)
  case (DStore y)
  with assms(1) show ?thesis using own_tables_beside by (auto simp: relabel_Inr beside_def)
next
  case (DCancelRequest rid sender reason ts)
  with assms(1) show ?thesis by (auto simp: relabel_Inr dest: cancel_request_frame)
next
  case (DMigrate mapping)
  with assms(1) show ?thesis
    by (auto simp: relabel_Inr migrate_agent_references_def split: sum.splits dest!: rename_agents_frame)
qed (use assms in \<open>auto simp: relabel_Inr plain_defs purge_older_than_days_def deposit_guichet_def claim_next_guichet_def
    reply_guichet_def release_guichet_claims_def recover_guichet_claims_after_restart_def Let_def
    split: if_splits option.splits\<close>)

section \<open>The invariant\<close>

definition daemon_inv :: "Db \<Rightarrow> bool" where
  "daemon_inv db \<longleftrightarrow> store_inv db \<and> distinct (map tq_id (db_requests db)) \<and> guichet_inv db \<and> stream_inv db"

lemma daemon_inv_empty: "daemon_inv db_empty"
  using store_inv_empty by (simp add: daemon_inv_def guichet_inv_def stream_inv_def) (simp add: db_empty_def is_i64_def i64_simps)

lemma daemon_exec_core:
  assumes "daemon_exec codec attests x db = Inr (r, db')" and "\<And>y. x \<noteq> DStore y"
  shows "core_of db' = core_of db"
proof (cases x)
  case (DCancelRequest rid sender reason ts)
  with assms(1) show ?thesis by (auto simp: relabel_Inr dest: cancel_request_frame)
next
  case (DMigrate mapping)
  with assms(1) show ?thesis
    by (auto simp: relabel_Inr migrate_agent_references_def split: sum.splits dest!: rename_agents_frame)
qed (use assms in \<open>auto simp: relabel_Inr plain_defs purge_older_than_days_def deposit_guichet_def claim_next_guichet_def
    reply_guichet_def release_guichet_claims_def recover_guichet_claims_after_restart_def record_reminder_sent_def
    Let_def split: if_splits option.splits\<close>)

lemma daemon_exec_store_inv:
  assumes "daemon_exec codec attests x db = Inr (r, db')" and "store_inv db"
  shows "store_inv db'"
proof (cases "\<exists>y. x = DStore y")
  case True
  with assms show ?thesis by (auto simp: relabel_Inr intro: store.exec_inv)
next
  case False
  with assms show ?thesis using daemon_exec_core by (auto simp: store_inv_def)
qed

lemma daemon_exec_request_ids:
  assumes "daemon_exec codec attests x db = Inr (r, db')" and "distinct (map tq_id (db_requests db))"
  shows "distinct (map tq_id (db_requests db'))"
proof (cases "\<exists>days ts. x = DPurgeDays days ts")
  case True
  with assms show ?thesis by (auto simp: relabel_Inr purge_older_than_days_def Let_def distinct_map_sql_delete)
next
  case False
  with assms show ?thesis using daemon_exec_requests [OF assms(1)] by (auto simp: requests_step_def)
qed

lemma daemon_exec_guichet_inv:
  assumes "daemon_exec codec attests x db = Inr (r, db')" and "guichet_inv db"
  shows "guichet_inv db'"
proof -
  consider d h t now where "x = DDeposit d h t now" | days ts where "x = DPurgeDays days ts"
    | "\<forall>days ts. x \<noteq> DPurgeDays days ts" "\<forall>d h t now. x \<noteq> DDeposit d h t now" by blast
  then show ?thesis
  proof cases
    case 1
    with assms show ?thesis by (auto simp: relabel_Inr intro: deposit_inv)
  next
    case 2
    with assms guichet_inv_delete [OF assms(2)] show ?thesis
      by (auto simp: relabel_Inr purge_older_than_days_def Let_def guichet_inv_def)
  next
    case 3
    with assms show ?thesis using daemon_exec_rows [OF assms(1)] guichet_inv_rows by blast
  qed
qed

lemma daemon_exec_stream_inv:
  assumes "daemon_exec codec attests x db = Inr (r, db')" and "stream_inv db"
  shows "stream_inv db' \<and> (\<exists>es. db_coordination db' = db_coordination db @ es)"
proof (cases "\<exists>a b c d e f. x = DReminderSent a b c d e f")
  case True
  with assms show ?thesis by (auto simp: relabel_Inr dest: reminder_inv)
next
  case False
  with assms show ?thesis using daemon_exec_stream [OF assms(1)] by (auto simp: stream_inv_def)
qed

lemma daemon_exec_inv: "daemon_inv db \<Longrightarrow> daemon_exec codec attests x db = Inr (r, db') \<Longrightarrow> daemon_inv db'"
  using daemon_exec_store_inv [of codec attests x db r db'] daemon_exec_request_ids [of codec attests x db r db']
    daemon_exec_guichet_inv [of codec attests x db r db'] daemon_exec_stream_inv [of codec attests x db r db']
  by (simp add: daemon_inv_def)

section \<open>Durable facts\<close>

text \<open>A closed request, but for the names of its parties; it is forgotten by a purge past its end.\<close>

definition closed_request :: "string \<Rightarrow> Db \<Rightarrow> RequestRow option" where
  "closed_request rid db =
     (case sql_row (\<lambda>q. tq_id q = rid) (db_requests db) of
        Some q \<Rightarrow> if tq_state q = ReqOpen then None else Some (nameless q)
      | None \<Rightarrow> None)"

fun purges_request :: "daemon_op \<Rightarrow> string \<Rightarrow> Db \<Rightarrow> bool" where
  "purges_request (DPurgeDays days ts) rid db =
     sql_exists (\<lambda>q. tq_id q = rid \<and> closed_before (ts - int days * 86400) q) (db_requests db)"
| "purges_request x rid db = False"

text \<open>A settled deposit, as long as no purge takes it.\<close>

definition settled_deposit_of :: "string \<times> string \<Rightarrow> Db \<Rightarrow> GuichetRow option" where
  "settled_deposit_of k db =
     (case guichet_row_for_key (fst k) (snd k) db of
        Some g \<Rightarrow> if settled g then Some g else None
      | None \<Rightarrow> None)"

fun purges_deposit :: "daemon_op \<Rightarrow> string \<times> string \<Rightarrow> Db \<Rightarrow> bool" where
  "purges_deposit (DPurgeDays days ts) k db =
     sql_exists (\<lambda>g. gr_issuer_scope g = fst k \<and> gr_request_id g = snd k \<and>
                     settled_deposit (ts - int days * 86400) g) (db_guichet db)"
| "purges_deposit x k db = False"

definition reminder_at :: "int \<Rightarrow> Db \<Rightarrow> CoordinationRow option" where
  "reminder_at cursor db = sql_row (\<lambda>e. co_cursor e = cursor) (db_coordination db)"

lemma closed_request_iff:
  assumes "distinct (map tq_id (db_requests db))"
  shows "closed_request rid db = Some v \<longleftrightarrow>
    (\<exists>q\<in>set (db_requests db). tq_id q = rid \<and> tq_state q \<noteq> ReqOpen \<and> v = nameless q)"
proof
  assume "closed_request rid db = Some v"
  then show "\<exists>q\<in>set (db_requests db). tq_id q = rid \<and> tq_state q \<noteq> ReqOpen \<and> v = nameless q"
    by (auto simp: closed_request_def split: option.splits if_splits dest: sql_row_SomeD)
next
  assume "\<exists>q\<in>set (db_requests db). tq_id q = rid \<and> tq_state q \<noteq> ReqOpen \<and> v = nameless q"
  then obtain q where q: "q \<in> set (db_requests db)" "tq_id q = rid" "tq_state q \<noteq> ReqOpen" "v = nameless q" by blast
  then have "sql_row (\<lambda>r. tq_id r = rid) (db_requests db) = Some q"
    using sql_row_unique [of tq_id "db_requests db" q] assms by simp
  with q show "closed_request rid db = Some v" by (simp add: closed_request_def)
qed

lemma settled_deposit_iff:
  assumes "guichet_inv db"
  shows "settled_deposit_of k db = Some g \<longleftrightarrow>
    g \<in> set (db_guichet db) \<and> (gr_issuer_scope g, gr_request_id g) = k \<and> settled g"
proof
  assume "settled_deposit_of k db = Some g"
  then show "g \<in> set (db_guichet db) \<and> (gr_issuer_scope g, gr_request_id g) = k \<and> settled g"
    by (auto simp: settled_deposit_of_def guichet_row_for_key_def split: option.splits if_splits dest: sql_row_SomeD)
next
  assume g: "g \<in> set (db_guichet db) \<and> (gr_issuer_scope g, gr_request_id g) = k \<and> settled g"
  then have "guichet_row_for_key (fst k) (snd k) db = Some g"
    using assms sql_row_unique [of "\<lambda>g. (gr_issuer_scope g, gr_request_id g)" "db_guichet db" g]
    by (auto simp: guichet_row_for_key_def guichet_inv_def)
  with g show "settled_deposit_of k db = Some g" by (auto simp: settled_deposit_of_def)
qed

lemma closed_request_stable:
  assumes "daemon_inv db" and "closed_request rid db = Some v" and "daemon_exec codec attests x db = Inr (r, db')"
    and "\<not> purges_request x rid db"
  shows "closed_request rid db' = Some v"
proof -
  have ids: "distinct (map tq_id (db_requests db))" "distinct (map tq_id (db_requests db'))"
    using assms(1) daemon_exec_inv [OF assms(1,3)] by (simp_all add: daemon_inv_def)
  obtain q where q: "q \<in> set (db_requests db)" "tq_id q = rid" "tq_state q \<noteq> ReqOpen" "v = nameless q"
    using assms(2) closed_request_iff [OF ids(1)] by blast
  have "\<exists>q'\<in>set (db_requests db'). request_kept q q'"
  proof (cases "\<exists>days ts. x = DPurgeDays days ts")
    case True
    then have "q \<in> set (db_requests db')" using assms(3,4) q
      by (auto simp: relabel_Inr purge_older_than_days_def Let_def sql_exists_iff set_sql_delete)
    then show ?thesis by (auto intro: bexI [of _ q])
  next
    case False
    then show ?thesis using daemon_exec_requests [OF assms(3)] q(1) by (auto simp: requests_step_def)
  qed
  then obtain q' where "q' \<in> set (db_requests db')" "tq_id q' = rid" "nameless q' = nameless q"
    using q by (auto simp: request_kept_def)
  then show ?thesis using q(3,4) closed_request_iff [OF ids(2)] nameless_state by metis
qed

lemma settled_deposit_stable:
  assumes "daemon_inv db" and "settled_deposit_of k db = Some g" and "daemon_exec codec attests x db = Inr (r, db')"
    and "\<not> purges_deposit x k db"
  shows "settled_deposit_of k db' = Some g"
proof -
  have inv: "guichet_inv db" "guichet_inv db'"
    using assms(1) daemon_exec_inv [OF assms(1,3)] by (simp_all add: daemon_inv_def)
  have g: "g \<in> set (db_guichet db)" "(gr_issuer_scope g, gr_request_id g) = k" "settled g"
    using assms(2) settled_deposit_iff [OF inv(1)] by simp_all
  consider d h t now where "x = DDeposit d h t now" | days ts where "x = DPurgeDays days ts"
    | "\<forall>days ts. x \<noteq> DPurgeDays days ts" "\<forall>d h t now. x \<noteq> DDeposit d h t now" by blast
  then have "g \<in> set (db_guichet db')"
  proof cases
    case 1
    with assms(3) g(1) show ?thesis by (auto simp: relabel_Inr deposit_guichet_def Let_def split: if_splits option.splits)
  next
    case 2
    with assms(3,4) g show ?thesis
      by (auto simp: relabel_Inr purge_older_than_days_def Let_def sql_exists_iff set_sql_delete)
  next
    case 3
    then have "rows_step (db_guichet db) (db_guichet db')" using daemon_exec_rows [OF assms(3)] by blast
    then show ?thesis using rows_step_row(1) g(1,3) deposits.terminal_absorbing by metis
  qed
  with g show ?thesis using settled_deposit_iff [OF inv(2)] by simp
qed

lemma reminder_stable:
  assumes "daemon_inv db" and "reminder_at cursor db = Some e" and "daemon_exec codec attests x db = Inr (r, db')"
  shows "reminder_at cursor db' = Some e"
proof -
  obtain es where "db_coordination db' = db_coordination db @ es"
    using assms(1) daemon_exec_stream_inv [OF assms(3)] by (auto simp: daemon_inv_def)
  with assms(2) show ?thesis by (simp add: reminder_at_def sql_row_append)
qed

interpretation requests: durable_store "daemon_exec codec attests" daemon_inv closed_request purges_request
  for codec attests
  by unfold_locales (fact daemon_exec_inv closed_request_stable)+

interpretation guichet: durable_store "daemon_exec codec attests" daemon_inv settled_deposit_of purges_deposit
  for codec attests
  by unfold_locales (fact settled_deposit_stable)

interpretation reminders: durable_store "daemon_exec codec attests" daemon_inv reminder_at "\<lambda>_ _ _. False"
  for codec attests
  by unfold_locales (erule (2) reminder_stable)

end
