(* ===== verification/Daemon_Properties.thy ===== *)
theory Daemon_Properties
  imports Daemon_Machine
begin

text \<open>
  What the machine of the daemon promises about requests, deposits and reminders, whatever
  operations come in between.
\<close>

section \<open>Requests\<close>

text \<open>A state of the database that the daemon can reach.\<close>

abbreviation daemon_reached :: "Codec \<Rightarrow> (string \<Rightarrow> bool) \<Rightarrow> daemon_op list \<Rightarrow> Db" where
  "daemon_reached codec attests ops \<equiv> run_ops (daemon_exec codec attests) ops db_empty"

lemma daemon_reached_inv: "daemon_inv (daemon_reached codec attests ops)"
  using requests.run_inv daemon_inv_empty by blast

lemma run_ops_append: "run_ops exec (xs @ ys) s = run_ops exec ys (run_ops exec xs s)"
  by (induction xs arbitrary: s) simp_all

lemma get_request_closed:
  "get_request rid db = Some req \<and> tr_state req \<noteq> ReqOpen \<longleftrightarrow>
    (\<exists>q. sql_row (\<lambda>q. tq_id q = rid) (db_requests db) = Some q \<and> tq_state q \<noteq> ReqOpen \<and>
      req = tracked_request_from_row q)"
  by (auto simp: get_request_def tracked_request_from_row_def)

lemma closed_requestD:
  "closed_request rid db = Some v \<Longrightarrow>
    \<exists>q. sql_row (\<lambda>q. tq_id q = rid) (db_requests db) = Some q \<and> tq_state q \<noteq> ReqOpen \<and> v = nameless q"
  by (cases "sql_row (\<lambda>q. tq_id q = rid) (db_requests db)") (auto simp: closed_request_def split: if_splits)

lemma nameless_view:
  "nameless q = nameless q' \<Longrightarrow>
    tracked_request_from_row q' = (tracked_request_from_row q)\<lparr>tr_sender := tq_sender q', tr_target := tq_target q'\<rparr> \<and>
    tq_reply_summary q' = tq_reply_summary q"
  by (cases q, cases q') (simp add: nameless_def tracked_request_from_row_def)

text \<open>Once a request is closed, no statement that asks for an open one finds it.\<close>

lemma no_open_row:
  assumes "daemon_inv db" and "closed_request rid db = Some v" and "q \<in> set (db_requests db)"
  shows "\<not> open_row rid q"
proof
  assume "open_row rid q"
  have "distinct (map tq_id (db_requests db))" using assms(1) by (simp add: daemon_inv_def)
  moreover from this obtain q' where "q' \<in> set (db_requests db)" "tq_id q' = rid" "tq_state q' \<noteq> ReqOpen"
    using assms(2) closed_request_iff by blast
  ultimately show False using assms(3) \<open>open_row rid q\<close> by (auto simp: open_row_def distinct_map inj_on_def)
qed

lemma sql_update_none: "(\<And>r. r \<in> set rows \<Longrightarrow> \<not> p r) \<Longrightarrow> sql_update p f rows = rows"
  by (induction rows) auto

lemma sql_matches_none: "(\<And>r. r \<in> set rows \<Longrightarrow> \<not> p r) \<Longrightarrow> sql_matches p rows = 0"
  by (simp add: sql_matches_0_iff)

lemma closed_request_refuses:
  assumes "daemon_inv db" and "closed_request rid db = Some v"
  shows "mark_timed_out rid ts db = Inr (False, db)" and "mark_answered rid responder recipient summary ts db = Inr (False, db)"
    and "set_request_deadline rid deadline db = Inr (False, db)" and "set_escalation_level rid level db = Inr ((), db)"
    and "cancel_request rid sender reason ts db = Inr (get_request rid db, db)"
proof -
  have none: "q \<in> set (db_requests db) \<Longrightarrow> \<not> open_row rid q" for q by (rule no_open_row [OF assms])
  then have answer: "q \<in> set (db_requests db) \<Longrightarrow>
      \<not> (tq_id q = rid \<and> tq_sender q = recipient \<and> tq_target q = responder \<and> tq_state q = ReqOpen)" for q
    by (auto simp: open_row_def)
  show "mark_timed_out rid ts db = Inr (False, db)" "set_request_deadline rid deadline db = Inr (False, db)"
    "set_escalation_level rid level db = Inr ((), db)"
    by (simp_all add: mark_timed_out_def set_request_deadline_def set_escalation_level_def
        sql_update_none [OF none] sql_matches_none [OF none])
  show "mark_answered rid responder recipient summary ts db = Inr (False, db)"
    by (simp add: mark_answered_def mark_answered_in_transaction_def sql_update_none [OF answer]
        sql_matches_none [OF answer])
  obtain q where "sql_row (\<lambda>q. tq_id q = rid) (db_requests db) = Some q" "tq_state q \<noteq> ReqOpen"
    using closed_requestD [OF assms(2)] by blast
  then show "cancel_request rid sender reason ts db = Inr (get_request rid db, db)"
    by (simp add: cancel_request_def get_request_def tracked_request_from_row_def)
qed

text \<open>
  C9. A request is closed once and for all. When a request has been answered, cancelled or timed
  out, whatever operations of the daemon follow, and until a purge past its end removes it, the
  request shows the same state, the same dates, the same reason and the same summary of its
  reply (only a migration renames its parties); and whoever tries to close it again, to move
  its deadline or to escalate it is told so and changes nothing.
\<close>

theorem closed_request_is_final:
  assumes "get_request rid (daemon_reached codec attests past) = Some req" and "tr_state req \<noteq> ReqOpen"
    and "kept_ops (daemon_exec codec attests) purges_request rid later (daemon_reached codec attests past)"
  defines "db \<equiv> daemon_reached codec attests (past @ later)"
  shows "(\<exists>a b. get_request rid db = Some (req\<lparr>tr_sender := a, tr_target := b\<rparr>)) \<and>
    mark_timed_out rid ts db = Inr (False, db) \<and>
    mark_answered rid responder recipient summary ts db = Inr (False, db) \<and>
    cancel_request rid sender reason ts db = Inr (get_request rid db, db) \<and>
    set_request_deadline rid deadline db = Inr (False, db) \<and>
    set_escalation_level rid level db = Inr ((), db)"
proof -
  obtain q where q: "sql_row (\<lambda>q. tq_id q = rid) (db_requests (daemon_reached codec attests past)) = Some q"
    "tq_state q \<noteq> ReqOpen" "req = tracked_request_from_row q"
    using assms(1,2) get_request_closed by blast
  then have "closed_request rid (daemon_reached codec attests past) = Some (nameless q)" by (simp add: closed_request_def)
  then have closed: "closed_request rid db = Some (nameless q)"
    unfolding db_def run_ops_append by (rule requests.run_fact [OF daemon_reached_inv _ assms(3)])
  obtain q' where q': "sql_row (\<lambda>q. tq_id q = rid) (db_requests db) = Some q'" "nameless q = nameless q'"
    using closed_requestD [OF closed] by blast
  have "get_request rid db = Some (req\<lparr>tr_sender := tq_sender q', tr_target := tq_target q'\<rparr>)"
    unfolding get_request_def q'(1) using nameless_view [OF q'(2)] by (simp add: q(3))
  then have "\<exists>a b. get_request rid db = Some (req\<lparr>tr_sender := a, tr_target := b\<rparr>)" by blast
  moreover have "daemon_inv db" unfolding db_def by (rule daemon_reached_inv)
  ultimately show ?thesis using closed_request_refuses [OF _ closed] by simp
qed

named_theorems daemon_eval

declare relabel_def [daemon_eval] create_request_def [daemon_eval] get_request_def [daemon_eval]
  tracked_request_from_row_def [daemon_eval] mark_timed_out_def [daemon_eval] cancel_request_def [daemon_eval]
  open_row_def [daemon_eval] sql_matches_def [daemon_eval] sql_exists_def [daemon_eval] sql_row_def [daemon_eval]
  db_empty_def [daemon_eval] Let_def [daemon_eval] as_i64_def [daemon_eval] i64_wrap_def [daemon_eval]
  record_lifecycle_for_linked_request_in_transaction_def [daemon_eval] purge_older_than_days_def [daemon_eval]
  closed_before_def [daemon_eval] sql_delete_def [daemon_eval] settled_deposit_def [daemon_eval]

definition timed_out_ops :: "daemon_op list" where
  "timed_out_ops = [DCreateRequest ''r'' ''a'' ''b'' 60 100, DMarkTimedOut ''r'' 200]"

definition timed_out_request :: TrackedRequest where
  "timed_out_request = \<lparr>tr_id = ''r'', tr_sender = ''a'', tr_target = ''b'', tr_state = ReqTimedOut, tr_created_at = 100,
     tr_deadline_at = 160, tr_escalation_level = 0, tr_cancel_reason = None, tr_completed_at = Some 200\<rparr>"

theorem closed_request_is_final_witness:
  "get_request ''r'' (daemon_reached echo_codec (\<lambda>_. True) timed_out_ops) = Some timed_out_request \<and>
   (\<exists>a b. get_request ''r'' (daemon_reached echo_codec (\<lambda>_. True)
       (timed_out_ops @ [DCancelRequest ''r'' ''a'' None 300, DPurgeDays 1 1000])) =
     Some (timed_out_request\<lparr>tr_sender := a, tr_target := b\<rparr>))"
proof -
  let ?db = "daemon_reached echo_codec (\<lambda>_. True) timed_out_ops"
  have found: "get_request ''r'' ?db = Some timed_out_request"
    by (simp add: timed_out_ops_def timed_out_request_def daemon_eval)
  have closed: "tr_state timed_out_request \<noteq> ReqOpen" by (simp add: timed_out_request_def)
  have "kept_ops (daemon_exec echo_codec (\<lambda>_. True)) purges_request ''r''
      [DCancelRequest ''r'' ''a'' None 300, DPurgeDays 1 1000] ?db"
    by (simp add: timed_out_ops_def daemon_eval)
  from closed_request_is_final [OF found closed this] found show ?thesis by blast
qed

section \<open>Deposits\<close>

lemma guichet_row_unique:
  assumes "guichet_inv db" and "g \<in> set (db_guichet db)" and "gr_issuer_scope g = scope" and "gr_request_id g = rid"
  shows "guichet_row_for_key scope rid db = Some g"
  using assms sql_row_unique [of "\<lambda>g. (gr_issuer_scope g, gr_request_id g)" "db_guichet db" g]
  by (auto simp: guichet_row_for_key_def guichet_inv_def)

lemma existing_not_new: "guichet_existing_result g now \<noteq> GResTerminal issue e True bytes"
  by (simp add: guichet_existing_result_def)

lemma reply_accepted:
  assumes "reply_guichet owner i ts now db = Inr (GResTerminal issue e True bytes, db')" and "guichet_inv db"
  obtains g where "g \<in> set (db_guichet db)" and "held_claim owner i now g" and "e = gr_expires_at g"
    and "issue = guichet_outcome_name (gi_outcome i)" and "bytes = gi_reply_bytes i"
    and "settled_row issue bytes g \<in> set (db_guichet db')"
proof -
  let ?held = "held_claim owner i now"
  obtain row where row: "guichet_row_for_key (gi_issuer_scope i) (gi_request_id i) db = Some row"
    using assms(1) by (cases "guichet_row_for_key (gi_issuer_scope i) (gi_request_id i) db") (simp_all add: reply_guichet_def)
  have one: "sql_matches ?held (db_guichet db) = 1"
    using assms(1) row existing_not_new by (auto simp: reply_guichet_def Let_def split: if_splits)
  have res: "GResTerminal issue e True bytes =
      GResTerminal (guichet_outcome_name (gi_outcome i)) (gr_expires_at row) True (gi_reply_bytes i)"
    using assms(1) row existing_not_new by (auto simp: reply_guichet_def Let_def split: if_splits)
  have rows: "db_guichet db' = sql_update ?held (settled_row issue bytes) (db_guichet db)"
    using assms(1) row existing_not_new by (auto simp: reply_guichet_def Let_def split: if_splits)
  from one have "sql_matches ?held (db_guichet db) \<noteq> 0" by simp
  then obtain g where g: "g \<in> set (db_guichet db)" "?held g" unfolding sql_matches_0_iff by blast
  then have "row = g" using guichet_row_unique [OF assms(2)] row by (auto simp: held_claim_def)
  moreover have "settled_row issue bytes g \<in> set (db_guichet db')" using g rows by (auto simp: set_sql_update)
  ultimately show thesis using that g res by simp
qed

lemma settled_lookup:
  assumes "settled_deposit_of (scope, rid) db = Some g"
  shows "lookup_guichet scope rid t db = guichet_existing_result g t"
    and "gi_issuer_scope i = scope \<Longrightarrow> gi_request_id i = rid \<Longrightarrow>
      reply_guichet owner i ts t db = Inr (if gr_reply_bytes g = Some (gi_reply_bytes i)
        then guichet_existing_result g t else GResCanonicalBytesMismatch, db)"
    and "gd_issuer_scope d = scope \<Longrightarrow> gd_request_id d = rid \<Longrightarrow>
      length (gd_canonical_bytes d) < MAX_GUICHET_FRAME_BYTES \<Longrightarrow>
      deposit_guichet d horizon tolerance t db = Inr (if gd_canonical_bytes d = gr_canonical_request g
        then guichet_existing_result g t else GResCanonicalBytesMismatch, db)"
  using assms
  by (auto simp: settled_deposit_of_def lookup_guichet_def reply_guichet_def deposit_guichet_def settled_def
      split: option.splits if_splits)

text \<open>
  C10. A deposit is answered once. When a reply has been accepted, whatever operations of the
  daemon follow, and until a purge removes the deposit, every lookup before its expiry returns
  exactly the accepted outcome and the accepted bytes; a second reply changes nothing and is
  told the stored result, or a mismatch if its bytes differ; and depositing the request again
  changes nothing either.
\<close>

theorem guichet_answered_once:
  assumes "daemon_exec codec attests (DReply owner i ts now) (daemon_reached codec attests past) =
      Inr (RepGuichet (GResTerminal issue e True bytes), db1)"
    and "kept_ops (daemon_exec codec attests) purges_deposit (gi_issuer_scope i, gi_request_id i) later db1"
  defines "db \<equiv> run_ops (daemon_exec codec attests) later db1"
    and "answer \<equiv> \<lambda>t. if e < t then GResIdempotencyExpired else GResTerminal issue e False bytes"
  shows "issue = guichet_outcome_name (gi_outcome i) \<and> bytes = gi_reply_bytes i \<and>
    lookup_guichet (gi_issuer_scope i) (gi_request_id i) t db = answer t \<and>
    (gi_issuer_scope j = gi_issuer_scope i \<longrightarrow> gi_request_id j = gi_request_id i \<longrightarrow>
      reply_guichet owner' j ts' t db =
        Inr (if gi_reply_bytes j = bytes then answer t else GResCanonicalBytesMismatch, db)) \<and>
    (gd_issuer_scope d = gi_issuer_scope i \<longrightarrow> gd_request_id d = gi_request_id i \<longrightarrow>
      length (gd_canonical_bytes d) < MAX_GUICHET_FRAME_BYTES \<longrightarrow>
      (\<exists>r. deposit_guichet d horizon tolerance t db = Inr (r, db) \<and> r \<in> {answer t, GResCanonicalBytesMismatch}))"
proof -
  let ?past = "daemon_reached codec attests past"
  have past: "guichet_inv ?past" "daemon_inv db1"
    using daemon_reached_inv daemon_exec_inv [OF daemon_reached_inv assms(1)] by (simp_all add: daemon_inv_def)
  have "reply_guichet owner i ts now ?past = Inr (GResTerminal issue e True bytes, db1)"
    using assms(1) by (simp add: relabel_Inr)
  then obtain g where g: "g \<in> set (db_guichet ?past)" "held_claim owner i now g" "e = gr_expires_at g"
    "issue = guichet_outcome_name (gi_outcome i)" "bytes = gi_reply_bytes i" "settled_row issue bytes g \<in> set (db_guichet db1)"
    by (rule reply_accepted [OF _ past(1)])
  let ?g = "settled_row issue bytes g"
  have "settled_deposit_of (gi_issuer_scope i, gi_request_id i) db1 = Some ?g"
    using settled_deposit_iff past(2) g(2,6) by (simp add: daemon_inv_def held_claim_def settled_def settled_row_def)
  then have "settled_deposit_of (gi_issuer_scope i, gi_request_id i) db = Some ?g"
    unfolding db_def by (rule guichet.run_fact [OF past(2) _ assms(2)])
  moreover have "guichet_existing_result ?g t = answer t"
    by (simp add: guichet_existing_result_def settled_row_def answer_def g(3))
  moreover have "gr_reply_bytes ?g = Some bytes" by (simp add: settled_row_def)
  ultimately show ?thesis using g(4,5) by (auto simp: settled_lookup)
qed

declare deposit_guichet_def [daemon_eval] claim_next_guichet_def [daemon_eval] reply_guichet_def [daemon_eval]
  guichet_row_for_key_def [daemon_eval] guichet_next_queued_def [daemon_eval] deposited_row_def [daemon_eval]
  claimed_row_def [daemon_eval] settled_row_def [daemon_eval] held_claim_def [daemon_eval] lapsed_def [daemon_eval]
  requeued_def [daemon_eval] answer_linked_def [daemon_eval] guichet_existing_result_def [daemon_eval]
  MAX_GUICHET_FRAME_BYTES_def [daemon_eval] GUICHET_LEASE_SECS_def [daemon_eval] saturating_add_def [daemon_eval]
  i64_saturate_def [daemon_eval] i64_max_def [daemon_eval] i64_min_def [daemon_eval] as_u64_def [daemon_eval]
  u64_saturating_add_def [daemon_eval] u64_max_def [daemon_eval]

definition sample_deposit :: GuichetDeposit where
  "sample_deposit = \<lparr>gd_issuer_scope = ''scope'', gd_request_id = ''r1'', gd_issued_at = 100, gd_from = ''bob'',
     gd_payload = OtherPayload, gd_canonical_bytes = ''c'', gd_authorization_attestation = None\<rparr>"

definition first_draw :: "8 word list" where "first_draw = replicate 16 0"
definition second_draw :: "8 word list" where "second_draw = replicate 16 1"

definition sample_reply :: GuichetReplyInput where
  "sample_reply = \<lparr>gi_issuer_scope = ''scope'', gi_request_id = ''r1'', gi_generation = 1,
     gi_token = claim_token first_draw, gi_response_message_id = ''m'', gi_reply_bytes = ''yes'', gi_in_reply_to = [],
     gi_outcome = OutAccepted\<rparr>"

definition claimed_ops :: "daemon_op list" where
  "claimed_ops = [DDeposit sample_deposit 1000 5 100, DClaimNext first_draw ''w'' 110]"

theorem guichet_answered_once_witness:
  "\<exists>db1. daemon_exec echo_codec (\<lambda>_. True) (DReply ''w'' sample_reply 120 120)
       (daemon_reached echo_codec (\<lambda>_. True) claimed_ops) =
       Inr (RepGuichet (GResTerminal ''accepted'' 1100 True ''yes''), db1) \<and>
     lookup_guichet ''scope'' ''r1'' 200 (run_ops (daemon_exec echo_codec (\<lambda>_. True)) [DRecoverClaims] db1) =
       GResTerminal ''accepted'' 1100 False ''yes''"
proof -
  let ?db = "daemon_reached echo_codec (\<lambda>_. True) claimed_ops"
  obtain db1 where reply: "daemon_exec echo_codec (\<lambda>_. True) (DReply ''w'' sample_reply 120 120) ?db =
      Inr (RepGuichet (GResTerminal ''accepted'' 1100 True ''yes''), db1)"
    by (simp add: claimed_ops_def sample_deposit_def sample_reply_def daemon_eval)
  have "kept_ops (daemon_exec echo_codec (\<lambda>_. True)) purges_deposit
      (gi_issuer_scope sample_reply, gi_request_id sample_reply) [DRecoverClaims] db1" by simp
  from guichet_answered_once [OF reply this, of 200]
  have "lookup_guichet ''scope'' ''r1'' 200 (run_ops (daemon_exec echo_codec (\<lambda>_. True)) [DRecoverClaims] db1) =
      GResTerminal ''accepted'' 1100 False ''yes''" by (simp add: sample_reply_def)
  with reply show ?thesis by blast
qed

section \<open>Claims\<close>

text \<open>The 16 random bytes that each claim draws.\<close>

fun draws :: "daemon_op list \<Rightarrow> 8 word list list" where
  "draws [] = []"
| "draws (DClaimNext bytes owner now # xs) = bytes # draws xs"
| "draws (x # xs) = draws xs"

definition claim_fields :: "GuichetRow \<Rightarrow> (int \<times> string \<times> string \<times> string \<times> string option \<times> int \<times> string \<times> string option) \<times>
    string option \<times> int \<times> string option \<times> int option" where
  "claim_fields g = (deposit_identity g, gr_claim_owner g, gr_claim_generation g, gr_claim_token g, gr_claim_lease_expires_at g)"

text \<open>The row holds the claim \<open>c\<close> that was handed to \<open>owner\<close>.\<close>

definition claimed_by :: "string \<Rightarrow> GuichetClaim \<Rightarrow> GuichetRow \<Rightarrow> bool" where
  "claimed_by owner c g \<longleftrightarrow>
     gr_deposited_sequence g = gc_deposited_sequence c \<and> gr_issuer_scope g = gc_issuer_scope c \<and>
     gr_request_id g = gc_request_id c \<and> gr_claim_owner g = Some owner \<and>
     gr_claim_generation g = as_i64 (gc_claim_generation c) \<and> gr_claim_token g = Some (gc_claim_token c) \<and>
     gr_claim_lease_expires_at g = Some (gc_claim_lease_expires_at c)"

lemma claimed_by_fields: "claim_fields g = claim_fields g' \<Longrightarrow> claimed_by owner c g = claimed_by owner c g'"
  by (auto simp: claim_fields_def claimed_by_def deposit_identity_def)

text \<open>A row that carries a token after an operation carried it before, unless the operation claimed it.\<close>

definition tokens_kept :: "GuichetRow table \<Rightarrow> GuichetRow table \<Rightarrow> bool" where
  "tokens_kept gs gs' \<longleftrightarrow>
     (\<forall>g'\<in>set gs'. gr_claim_token g' \<noteq> None \<longrightarrow> (\<exists>g\<in>set gs. claim_fields g = claim_fields g'))"

lemma tokens_kept_refl [simp]: "tokens_kept gs gs"
  by (auto simp: tokens_kept_def)

lemma tokens_kept_update:
  assumes "\<And>g. p g \<Longrightarrow> gr_claim_token (f g) = None \<or> claim_fields (f g) = claim_fields g"
  shows "tokens_kept gs (sql_update p f gs)"
  unfolding tokens_kept_def
proof (intro ballI impI)
  fix g'
  assume "g' \<in> set (sql_update p f gs)" "gr_claim_token g' \<noteq> None"
  then show "\<exists>g\<in>set gs. claim_fields g = claim_fields g'" using assms by (elim in_sql_updateE) (metis (full_types))
qed

lemma fields_of_steps:
  "gr_claim_token (requeued g) = None" "claim_fields (settled_row issue bytes g) = claim_fields g"
  by (simp_all add: requeued_def settled_row_def claim_fields_def deposit_identity_def)

lemma daemon_exec_tokens:
  assumes "daemon_exec codec attests x db = Inr (r, db')" and "\<And>bytes owner now. x \<noteq> DClaimNext bytes owner now"
  shows "tokens_kept (db_guichet db) (db_guichet db')"
proof (cases x)
  case (DStore y)
  with assms(1) show ?thesis using own_tables_beside by (auto simp: relabel_Inr beside_def)
next
  case (DCancelRequest rid sender reason ts)
  with assms(1) show ?thesis by (auto simp: relabel_Inr dest: cancel_request_frame)
next
  case (DMigrate mapping)
  with assms(1) show ?thesis
    by (auto simp: relabel_Inr migrate_agent_references_def split: sum.splits dest!: rename_agents_frame)
next
  case (DPurgeDays days ts)
  with assms(1) show ?thesis
    by (auto simp: relabel_Inr purge_older_than_days_def Let_def tokens_kept_def set_sql_delete)
next
  case (DDeposit d h t now)
  with assms(1) show ?thesis
    by (auto simp: relabel_Inr deposit_guichet_def Let_def tokens_kept_def deposited_row_def split: if_splits option.splits)
next
  case (DReply owner i ts now)
  with assms(1) show ?thesis
    by (auto simp: relabel_Inr reply_guichet_def Let_def fields_of_steps intro!: tokens_kept_update
        split: if_splits option.splits)
next
  case (DReleaseClaims owner)
  with assms(1) show ?thesis
    by (auto simp: relabel_Inr release_guichet_claims_def fields_of_steps intro!: tokens_kept_update)
next
  case DRecoverClaims
  with assms(1) show ?thesis
    by (auto simp: relabel_Inr recover_guichet_claims_after_restart_def fields_of_steps intro!: tokens_kept_update)
qed (use assms in \<open>auto simp: relabel_Inr plain_defs record_reminder_sent_def Let_def split: if_splits option.splits\<close>)

lemma next_queued_row:
  assumes "guichet_next_queued now db = Some row"
  shows "row \<in> set (db_guichet db) \<and> gr_state row = GQueued \<and> now \<le> gr_expires_at row \<and>
    (\<forall>g\<in>set (db_guichet db). gr_state g = GQueued \<longrightarrow> now \<le> gr_expires_at g \<longrightarrow>
      gr_deposited_sequence row \<le> gr_deposited_sequence g)"
proof -
  let ?waiting = "filter (\<lambda>g. gr_state g = GQueued \<and> now \<le> gr_expires_at g) (db_guichet db)"
  obtain rest where queue: "sort_key gr_deposited_sequence ?waiting = row # rest"
    using assms by (auto simp: guichet_next_queued_def split: list.splits)
  have members: "set (row # rest) = set ?waiting" unfolding queue [symmetric] by simp
  have "sorted (map gr_deposited_sequence (row # rest))" unfolding queue [symmetric] by simp
  then have "\<forall>g\<in>set (row # rest). gr_deposited_sequence row \<le> gr_deposited_sequence g" by auto
  with members show ?thesis by auto
qed

lemma lapse_inv: "guichet_inv db \<Longrightarrow> guichet_inv (db\<lparr>db_guichet := sql_update (lapsed now) requeued (db_guichet db)\<rparr>)"
  by (rule guichet_inv_rows [of db]) (auto simp: lapsed_def intro!: rows_step_update requeue)

lemma sql_update_same: "(\<And>r. r \<in> set rows \<Longrightarrow> p r = q r) \<Longrightarrow> sql_update p f rows = sql_update q f rows"
  by (induction rows) auto

lemma claim_next_row:
  assumes "claim_next_guichet attests bytes owner now db = Inr (NextClaimed c, db')" and "guichet_inv db"
  obtains row gs where "gs = sql_update (lapsed now) requeued (db_guichet db)" and "row \<in> set gs" and "gr_state row = GQueued"
    and "distinct (map gr_deposited_sequence gs)"
    and "db_guichet db' = sql_update (\<lambda>g. g = row) (claimed_row owner (gc_claim_generation c) (gc_claim_token c)
           (gc_claim_lease_expires_at c)) gs"
    and "gc_claim_token c = claim_token bytes" and "gc_deposited_sequence c = gr_deposited_sequence row"
    and "gc_issuer_scope c = gr_issuer_scope row" and "gc_request_id c = gr_request_id row"
proof -
  let ?gs = "sql_update (lapsed now) requeued (db_guichet db)"
  let ?db1 = "db\<lparr>db_guichet := ?gs\<rparr>"
  obtain row where row: "guichet_next_queued now ?db1 = Some row"
    using assms(1) by (cases "guichet_next_queued now ?db1") (simp_all add: claim_next_guichet_def Let_def)
  have waiting: "row \<in> set ?gs" "gr_state row = GQueued" using next_queued_row [OF row] by simp_all
  have distinct: "distinct (map gr_deposited_sequence ?gs)" using lapse_inv [OF assms(2), of now] by (simp add: guichet_inv_def)
  have only: "sql_update (\<lambda>g. gr_deposited_sequence g = gr_deposited_sequence row \<and> gr_state g = GQueued) f ?gs =
      sql_update (\<lambda>g. g = row) f ?gs" for f
    by (rule sql_update_same) (use distinct waiting in \<open>auto simp: distinct_map inj_on_def\<close>)
  show thesis
    using assms(1) row
    by (intro that [OF refl waiting distinct])
      (auto simp: claim_next_guichet_def Let_def only split: if_splits)
qed

lemma claim_next_tokens:
  assumes "claim_next_guichet attests bytes owner now db = Inr (r, db')" and "guichet_inv db"
    and "g' \<in> set (db_guichet db')" and "gr_claim_token g' \<noteq> None"
  shows "(\<exists>g\<in>set (db_guichet db). claim_fields g = claim_fields g') \<and>
      (\<forall>c. r = NextClaimed c \<longrightarrow> gr_deposited_sequence g' \<noteq> gc_deposited_sequence c) \<or>
    (\<exists>c. r = NextClaimed c \<and> claimed_by owner c g' \<and> gc_claim_token c = claim_token bytes)"
proof -
  let ?gs = "sql_update (lapsed now) requeued (db_guichet db)"
  have kept: "tokens_kept (db_guichet db) ?gs" by (rule tokens_kept_update) (simp add: fields_of_steps)
  show ?thesis
  proof (cases r)
    case NextEmpty
    then have "db_guichet db' = ?gs"
      using assms(1) by (auto simp: claim_next_guichet_def Let_def split: option.splits if_splits)
    with kept assms(3,4) NextEmpty show ?thesis by (auto simp: tokens_kept_def)
  next
    case (NextClaimed c)
    with assms(1,2) obtain row where row: "row \<in> set ?gs" "distinct (map gr_deposited_sequence ?gs)"
      "db_guichet db' = sql_update (\<lambda>g. g = row) (claimed_row owner (gc_claim_generation c) (gc_claim_token c)
         (gc_claim_lease_expires_at c)) ?gs"
      "gc_claim_token c = claim_token bytes" "gc_deposited_sequence c = gr_deposited_sequence row"
      "gc_issuer_scope c = gr_issuer_scope row" "gc_request_id c = gr_request_id row"
      using claim_next_row by metis
    show ?thesis
    proof (cases "g' \<in> set ?gs \<and> g' \<noteq> row")
      case True
      then have "gr_deposited_sequence g' \<noteq> gr_deposited_sequence row"
        using row(1,2) by (auto simp: distinct_map inj_on_def)
      with True kept assms(4) row(5) NextClaimed show ?thesis by (auto simp: tokens_kept_def)
    next
      case False
      then have "g' = claimed_row owner (gc_claim_generation c) (gc_claim_token c) (gc_claim_lease_expires_at c) row"
        using assms(3) row(3) by (auto simp: set_sql_update split: if_splits)
      with row(4-) NextClaimed show ?thesis by (simp add: claimed_by_def claimed_row_def)
    qed
  qed
qed

lemma exec_token_step:
  assumes "daemon_exec codec attests x db = Inr (r, db')" and "guichet_inv db"
    and "g' \<in> set (db_guichet db')" and "gr_claim_token g' = Some t"
  shows "(\<exists>g\<in>set (db_guichet db). claim_fields g = claim_fields g') \<or> t \<in> claim_token ` set (draws [x])"
proof (cases "\<exists>bytes owner now. x = DClaimNext bytes owner now")
  case True
  with assms show ?thesis
    using claim_next_tokens [OF _ assms(2,3)] by (fastforce simp: relabel_Inr claimed_by_def)
next
  case False
  then show ?thesis using daemon_exec_tokens [OF assms(1)] assms(3,4) by (auto simp: tokens_kept_def)
qed

text \<open>What holds of every row that carries a token keeps holding, if nobody draws that token again.\<close>

definition fenced :: "string \<Rightarrow> (GuichetRow \<Rightarrow> bool) \<Rightarrow> Db \<Rightarrow> bool" where
  "fenced token P db \<longleftrightarrow> (\<forall>g\<in>set (db_guichet db). gr_claim_token g = Some token \<longrightarrow> P g)"

lemma fenced_run:
  assumes "daemon_inv db" and "fenced token P db" and "token \<notin> claim_token ` set (draws xs)"
    and "\<And>g g'. claim_fields g = claim_fields g' \<Longrightarrow> P g = P g'"
  shows "fenced token P (run_ops (daemon_exec codec attests) xs db)"
  using assms(1-3)
proof (induction xs arbitrary: db)
  case (Cons x xs)
  have draws: "set (draws (x # xs)) = set (draws [x]) \<union> set (draws xs)" by (cases x) auto
  show ?case
  proof (cases "daemon_exec codec attests x db")
    case (Inl e)
    moreover have "token \<notin> claim_token ` set (draws xs)" using Cons.prems(3) unfolding draws by blast
    ultimately show ?thesis using Cons.IH [OF Cons.prems(1,2)] by simp
  next
    case (Inr y)
    obtain r db' where exec: "daemon_exec codec attests x db = Inr (r, db')" using Inr by (cases y) simp
    have "fenced token P db'"
      unfolding fenced_def
    proof (intro ballI impI)
      fix g'
      assume g': "g' \<in> set (db_guichet db')" "gr_claim_token g' = Some token"
      have inv: "guichet_inv db" using Cons.prems(1) by (simp add: daemon_inv_def)
      have "token \<notin> claim_token ` set (draws [x])" using Cons.prems(3) unfolding draws by blast
      then obtain g where g: "g \<in> set (db_guichet db)" "claim_fields g = claim_fields g'"
        using exec_token_step [OF exec inv g'] by blast
      then have "gr_claim_token g = Some token" using g'(2) by (simp add: claim_fields_def)
      with g(1) Cons.prems(2) have "P g" by (simp add: fenced_def)
      then show "P g'" using assms(4) [OF g(2)] by simp
    qed
    moreover have "daemon_inv db'" using daemon_exec_inv [OF Cons.prems(1) exec] .
    moreover have "token \<notin> claim_token ` set (draws xs)" using Cons.prems(3) unfolding draws by blast
    ultimately have "fenced token P (run_ops (daemon_exec codec attests) xs db')" by (intro Cons.IH)
    then show ?thesis using exec by simp
  qed
qed simp

text \<open>A fresh token is nowhere before its claim and only in the claimed row after it.\<close>

lemma fresh_token:
  "token \<notin> claim_token ` set (draws past) \<Longrightarrow> fenced token (\<lambda>_. False) (daemon_reached codec attests past)"
  by (rule fenced_run [OF daemon_inv_empty]) (simp_all add: fenced_def db_empty_def)

lemma claim_fences:
  assumes "claim_next_guichet attests bytes owner now db = Inr (NextClaimed c, db')" and "guichet_inv db"
    and "fenced (claim_token bytes) (\<lambda>_. False) db"
  shows "fenced (claim_token bytes) (claimed_by owner c) db'"
  unfolding fenced_def
proof (intro ballI impI)
  fix g'
  assume g': "g' \<in> set (db_guichet db')" "gr_claim_token g' = Some (claim_token bytes)"
  have "\<not> (\<exists>g\<in>set (db_guichet db). claim_fields g = claim_fields g')"
    using assms(3) g'(2) by (auto simp: fenced_def claim_fields_def)
  then show "claimed_by owner c g'" using claim_next_tokens [OF assms(1,2) g'(1)] g'(2) by auto
qed

text \<open>A later claim of the same deposit removes the earlier token for good.\<close>

lemma claim_removes:
  assumes "claim_next_guichet attests bytes owner now db = Inr (NextClaimed c', db')" and "guichet_inv db"
    and "fenced token (claimed_by other c) db" and "token \<noteq> claim_token bytes"
    and "gc_deposited_sequence c' = gc_deposited_sequence c"
  shows "fenced token (\<lambda>_. False) db'"
  unfolding fenced_def
proof (intro ballI impI)
  fix g'
  assume g': "g' \<in> set (db_guichet db')" "gr_claim_token g' = Some token"
  then have "(\<exists>g\<in>set (db_guichet db). claim_fields g = claim_fields g') \<and> gr_deposited_sequence g' \<noteq> gc_deposited_sequence c'"
    using claim_next_tokens [OF assms(1,2) g'(1)] assms(4) by (auto simp: claimed_by_def)
  moreover from this have "claimed_by other c g'"
    using assms(3) g'(2) claimed_by_fields by (fastforce simp: fenced_def claim_fields_def)
  ultimately show False using assms(5) by (simp add: claimed_by_def)
qed

lemma draws_append: "draws (xs @ ys) = draws xs @ draws ys"
  by (induction xs rule: draws.induct) simp_all

lemma reclaim_removes:
  assumes "daemon_inv db" and "fenced token (claimed_by owner c) db"
    and "token \<notin> claim_token ` set (draws (xs @ DClaimNext b o' t' # ys))"
    and "daemon_exec codec attests (DClaimNext b o' t') (run_ops (daemon_exec codec attests) xs db) =
      Inr (RepNext (NextClaimed c'), db')"
    and "gc_deposited_sequence c' = gc_deposited_sequence c"
  shows "fenced token (\<lambda>_. False) (run_ops (daemon_exec codec attests) (xs @ DClaimNext b o' t' # ys) db)"
proof -
  let ?mid = "run_ops (daemon_exec codec attests) xs db"
  have parts: "token \<notin> claim_token ` set (draws xs)" "token \<noteq> claim_token b" "token \<notin> claim_token ` set (draws ys)"
    using assms(3) by (auto simp: draws_append)
  have mid: "daemon_inv ?mid" by (rule requests.run_inv [OF assms(1)])
  have "claim_next_guichet attests b o' t' ?mid = Inr (NextClaimed c', db')" using assms(4) by (simp add: relabel_Inr)
  moreover have "guichet_inv ?mid" using mid by (simp add: daemon_inv_def)
  ultimately have "fenced token (\<lambda>_. False) db'"
    by (rule claim_removes [OF _ _ fenced_run [OF assms(1,2) parts(1) claimed_by_fields] parts(2) assms(5)])
  then have "fenced token (\<lambda>_. False) (run_ops (daemon_exec codec attests) ys db')"
    by (rule fenced_run [OF daemon_exec_inv [OF mid assms(4)] _ parts(3)]) simp
  then show ?thesis using assms(4) by (simp add: run_ops_append)
qed

text \<open>
  C11. A lost claim cannot answer. Suppose that every claim draws 16 bytes of its own. Then a
  claim's token has 22 characters of the URL-safe alphabet, and a reply that presents it is
  accepted only from the connection that drew it, for the deposit it was drawn for, with its
  generation and before its lease ends; and never again once another claim of that deposit
  has been handed out, whatever leases lapse, connections close, restarts or purges happen in
  between.
\<close>

theorem stale_claim_is_fenced:
  assumes "daemon_exec codec attests (DClaimNext bytes owner t) (daemon_reached codec attests past) =
      Inr (RepNext (NextClaimed c), db1)"
    and "distinct (draws (past @ DClaimNext bytes owner t # later))"
    and "\<forall>b\<in>set (draws (past @ DClaimNext bytes owner t # later)). length b = 16"
    and "daemon_exec codec attests (DReply owner' i ts now) (run_ops (daemon_exec codec attests) later db1) =
      Inr (RepGuichet (GResTerminal issue e True reply_bytes), db2)"
    and "gi_token i = gc_claim_token c"
  shows "length (gc_claim_token c) = 22 \<and> set (gc_claim_token c) \<subseteq> set ALPHABET \<and> owner' = owner \<and>
    gi_issuer_scope i = gc_issuer_scope c \<and> gi_request_id i = gc_request_id c \<and>
    as_i64 (gi_generation i) = as_i64 (gc_claim_generation c) \<and> now \<le> gc_claim_lease_expires_at c \<and>
    (\<forall>xs b o' t' ys c' db'. later = xs @ DClaimNext b o' t' # ys \<longrightarrow>
      daemon_exec codec attests (DClaimNext b o' t') (run_ops (daemon_exec codec attests) xs db1) =
        Inr (RepNext (NextClaimed c'), db') \<longrightarrow>
      gc_deposited_sequence c' \<noteq> gc_deposited_sequence c)"
proof -
  let ?run = "run_ops (daemon_exec codec attests)" and ?db = "daemon_reached codec attests past"
  have fresh: "claim_token bytes \<notin> claim_token ` set (draws past)" "claim_token bytes \<notin> claim_token ` set (draws later)"
    using assms(2,3) claim_token_inj by (auto simp: draws_append) (metis UnCI)+
  have inv: "daemon_inv ?db" "daemon_inv db1" using daemon_reached_inv daemon_exec_inv [OF daemon_reached_inv assms(1)] by simp_all
  then have rows: "guichet_inv ?db" by (simp add: daemon_inv_def)
  have claim: "claim_next_guichet attests bytes owner t ?db = Inr (NextClaimed c, db1)" using assms(1) by (simp add: relabel_Inr)
  have token: "gc_claim_token c = claim_token bytes" using claim_next_row [OF claim rows] by blast
  have fenced: "fenced (claim_token bytes) (claimed_by owner c) db1"
    by (rule claim_fences [OF claim rows fresh_token [OF fresh(1)]])
  have last: "guichet_inv (?run later db1)" using requests.run_inv [OF inv(2)] by (simp add: daemon_inv_def)
  have reply: "reply_guichet owner' i ts now (?run later db1) = Inr (GResTerminal issue e True reply_bytes, db2)"
    using assms(4) by (simp add: relabel_Inr)
  obtain g where g: "g \<in> set (db_guichet (?run later db1))" "held_claim owner' i now g"
    using reply_accepted [OF reply last] by blast
  then have held: "gr_claim_token g = Some (claim_token bytes)" using assms(5) token by (simp add: held_claim_def)
  have "claimed_by owner c g"
    using fenced_run [OF inv(2) fenced fresh(2) claimed_by_fields] g(1) held by (auto simp: fenced_def)
  moreover have "gc_deposited_sequence c' \<noteq> gc_deposited_sequence c"
    if "later = xs @ DClaimNext b o' t' # ys"
      and "daemon_exec codec attests (DClaimNext b o' t') (?run xs db1) = Inr (RepNext (NextClaimed c'), db')"
    for xs b o' t' ys c' db'
    using reclaim_removes [OF inv(2) fenced fresh(2) [unfolded that(1)] that(2)] g(1) held that(1) by (auto simp: fenced_def)
  ultimately show ?thesis
    using g(2) token claim_token_ALPHABET [of bytes] claim_token_length [of bytes] assms(3)
    by (auto simp: claimed_by_def held_claim_def draws_append)
qed

theorem stale_claim_is_fenced_witness:
  "\<exists>c db1 db2. daemon_exec echo_codec (\<lambda>_. True) (DClaimNext first_draw ''w'' 110)
      (daemon_reached echo_codec (\<lambda>_. True) [DDeposit sample_deposit 1000 5 100]) = Inr (RepNext (NextClaimed c), db1) \<and>
    daemon_exec echo_codec (\<lambda>_. True) (DReply ''w'' sample_reply 120 120) db1 =
      Inr (RepGuichet (GResTerminal ''accepted'' 1100 True ''yes''), db2) \<and>
    length (gc_claim_token c) = 22 \<and> 120 \<le> gc_claim_lease_expires_at c"
proof -
  let ?exec = "daemon_exec echo_codec (\<lambda>_. True)" and ?past = "[DDeposit sample_deposit 1000 5 100]"
  obtain c db1 where claim: "?exec (DClaimNext first_draw ''w'' 110) (daemon_reached echo_codec (\<lambda>_. True) ?past) =
      Inr (RepNext (NextClaimed c), db1)" by (simp add: sample_deposit_def daemon_eval)
  then have token: "gi_token sample_reply = gc_claim_token c"
    by (auto simp: sample_deposit_def sample_reply_def daemon_eval)
  have "run_ops ?exec claimed_ops db_empty = db1" using claim by (simp add: claimed_ops_def)
  moreover obtain db2 where "?exec (DReply ''w'' sample_reply 120 120) (run_ops ?exec claimed_ops db_empty) =
      Inr (RepGuichet (GResTerminal ''accepted'' 1100 True ''yes''), db2)"
    by (simp add: claimed_ops_def sample_deposit_def sample_reply_def daemon_eval)
  ultimately have reply: "?exec (DReply ''w'' sample_reply 120 120) (run_ops ?exec [] db1) =
      Inr (RepGuichet (GResTerminal ''accepted'' 1100 True ''yes''), db2)" by simp
  have draws: "distinct (draws (?past @ DClaimNext first_draw ''w'' 110 # []))"
    "\<forall>b\<in>set (draws (?past @ DClaimNext first_draw ''w'' 110 # [])). length b = 16"
    by (simp_all add: first_draw_def)
  from stale_claim_is_fenced [OF claim draws reply token] claim reply show ?thesis by auto
qed

section \<open>The tables are well typed\<close>

text \<open>
  C21. The guichet holds only well-typed rows. In every state that the daemon reaches, a queued
  deposit carries no claim, a claimed or settled one carries an owner, a token and a lease; a
  deposit has a reply exactly when it is settled, and then its outcome is one of the four
  names, \<open>refused\<close> exactly when its state is \<open>rejected\<close>. No two deposits share a key or a
  sequence number. So reading a claim again never panics, and the default values that the
  lookup provides for a missing outcome or reply are never used.
\<close>

theorem guichet_rows_well_typed:
  assumes "g \<in> set (db_guichet (daemon_reached codec attests ops))"
  shows "guichet_row_wf g \<and>
    claim_guichet attests' owner scope rid token now (daemon_reached codec attests ops) \<noteq> None \<and>
    (guichet_existing_result g now = GResTerminal issue e new bytes \<longrightarrow>
      gr_reply_bytes g = Some bytes \<and> (\<exists>outcome. gr_result_issue g = Some issue \<and> issue = guichet_outcome_name outcome)) \<and>
    (\<forall>g'\<in>set (db_guichet (daemon_reached codec attests ops)).
      gr_deposited_sequence g' = gr_deposited_sequence g \<or>
      (gr_issuer_scope g', gr_request_id g') = (gr_issuer_scope g, gr_request_id g) \<longrightarrow> g' = g)"
proof -
  have inv: "guichet_inv (daemon_reached codec attests ops)" using daemon_reached_inv by (simp add: daemon_inv_def)
  then have wf: "guichet_row_wf g" using assms by (simp add: guichet_inv_def)
  have "gr_reply_bytes g = Some bytes \<and> (\<exists>outcome. gr_result_issue g = Some issue \<and> issue = guichet_outcome_name outcome)"
    if result: "guichet_existing_result g now = GResTerminal issue e new bytes"
  proof -
    have "settled g" using result by (cases "gr_state g") (auto simp: guichet_existing_result_def settled_def split: if_splits)
    with wf obtain outcome b where "gr_result_issue g = Some (guichet_outcome_name outcome)" "gr_reply_bytes g = Some b"
      by (auto simp: guichet_row_wf_def)
    with result show ?thesis by (auto simp: guichet_existing_result_def split: if_splits)
  qed
  moreover have "g' = g" if "g' \<in> set (db_guichet (daemon_reached codec attests ops))"
      "gr_deposited_sequence g' = gr_deposited_sequence g \<or>
       (gr_issuer_scope g', gr_request_id g') = (gr_issuer_scope g, gr_request_id g)" for g'
    using inv assms that by (auto simp: guichet_inv_def distinct_map inj_on_def)
  moreover have "claim_guichet attests' owner scope rid token now (daemon_reached codec attests ops) \<noteq> None"
    by (auto simp: claim_guichet_def split: option.splits if_splits)
  ultimately show ?thesis using wf by blast
qed

theorem guichet_rows_well_typed_witness:
  "\<exists>g. g \<in> set (db_guichet (daemon_reached echo_codec (\<lambda>_. True) claimed_ops)) \<and> guichet_row_wf g"
proof -
  have "\<exists>g. g \<in> set (db_guichet (daemon_reached echo_codec (\<lambda>_. True) claimed_ops))"
    by (simp add: claimed_ops_def sample_deposit_def daemon_eval)
  then show ?thesis using guichet_rows_well_typed by blast
qed

section \<open>The stream of reminders\<close>

lemma filter_drop: "(\<forall>k<length xs. P (xs ! k) \<longleftrightarrow> c \<le> k) \<Longrightarrow> filter P xs = drop c xs"
proof (induction xs arbitrary: c)
  case (Cons x xs)
  have rest: "\<forall>k<length xs. P (xs ! k) \<longleftrightarrow> c - 1 \<le> k"
    using Cons.prems by (metis Suc_less_eq Suc_le_eq diff_Suc_1 length_Cons less_Suc_eq_le nth_Cons_Suc le_diff_conv Suc_eq_plus1)
  have "P x \<longleftrightarrow> c = 0" using Cons.prems by (metis le_zero_eq length_greater_0_conv list.distinct(1) nth_Cons_0)
  with Cons.IH [OF rest] show ?case by (cases c) simp_all
qed simp

lemma contiguous_all:
  "(\<forall>k<length es. as_u64 (co_cursor (es ! k)) = first + k) \<Longrightarrow> first + length es \<le> u64_max \<Longrightarrow>
    contiguous first es = Inr (first + length es)"
proof (induction es arbitrary: first)
  case (Cons e es)
  have "as_u64 (co_cursor e) = first" using Cons.prems(1) by (metis add_0_right length_greater_0_conv list.distinct(1) nth_Cons_0)
  moreover have "\<forall>k<length es. as_u64 (co_cursor (es ! k)) = Suc first + k"
    using Cons.prems(1) by (metis Suc_less_eq add_Suc_shift length_Cons nth_Cons_Suc)
  ultimately show ?case using Cons.IH [of "Suc first"] Cons.prems(2) by (simp add: u64_saturating_add_def)
qed simp

text \<open>The cursors count the rows from one, below the limits of both integer types.\<close>

lemma stream_cursors:
  assumes "stream_inv db"
  shows "db_high_watermark db = int (length (db_coordination db))" and "int (length (db_coordination db)) \<le> i64_max"
    and "k < length (db_coordination db) \<Longrightarrow> co_cursor (db_coordination db ! k) = int k + 1"
proof -
  have map: "map co_cursor (db_coordination db) = [1..db_high_watermark db]" "0 \<le> db_high_watermark db"
    using assms by (simp_all add: stream_inv_def)
  then have "length (db_coordination db) = nat (db_high_watermark db)" by (metis length_map length_upto add_diff_cancel_right' diff_add_cancel)
  with map(2) show high: "db_high_watermark db = int (length (db_coordination db))" by simp
  then show "int (length (db_coordination db)) \<le> i64_max" using assms by (simp add: stream_inv_def is_i64_def)
  show "k < length (db_coordination db) \<Longrightarrow> co_cursor (db_coordination db ! k) = int k + 1"
    using map(1) high by (metis add.commute length_map nth_map nth_upto int_ops(2) of_nat_less_iff zle_iff_zadd zless_imp_add1_zle)
qed

lemma small_casts:
  assumes "int n \<le> i64_max"
  shows "as_u64 (int n) = n" and "as_u64 (int n + 1) = Suc n" and "as_i64 n = int n" and "Suc n \<le> u64_max"
    and "u64_saturating_add n 1 = Suc n"
  using assms by (simp_all add: as_u64_def as_i64_id i64_max_def u64_max_def u64_saturating_add_def nat_add_distrib)

lemma replay_from:
  assumes "stream_inv db" and "c \<le> length (db_coordination db)"
  shows "sort_key co_cursor (filter (\<lambda>e. as_i64 c < co_cursor e) (db_coordination db)) = drop c (db_coordination db)"
    and "contiguous (u64_saturating_add c 1) (drop c (db_coordination db)) = Inr (Suc (length (db_coordination db)))"
proof -
  let ?es = "db_coordination db"
  have bound: "int (length ?es) \<le> i64_max" by (rule stream_cursors(2) [OF assms(1)])
  then have c: "int c \<le> i64_max" using assms(2) by simp
  have "filter (\<lambda>e. as_i64 c < co_cursor e) ?es = drop c ?es"
    by (rule filter_drop) (use stream_cursors(3) [OF assms(1)] small_casts(3) [OF c] in auto)
  moreover have "sorted (map co_cursor ?es)" using assms(1) by (simp add: stream_inv_def)
  then have "sorted (map co_cursor (drop c ?es))" unfolding drop_map [symmetric] by (rule sorted_wrt_drop)
  ultimately show "sort_key co_cursor (filter (\<lambda>e. as_i64 c < co_cursor e) ?es) = drop c ?es"
    by (simp add: sort_key_id_if_sorted)
  have "as_u64 (co_cursor (drop c ?es ! k)) = Suc c + k" if k: "k < length (drop c ?es)" for k
  proof -
    have "int (c + k) \<le> i64_max" using k bound by simp
    moreover have "co_cursor (drop c ?es ! k) = int (c + k) + 1" using stream_cursors(3) [OF assms(1), of "c + k"] k by simp
    ultimately show ?thesis using small_casts(2) [of "c + k"] by simp
  qed
  then show "contiguous (u64_saturating_add c 1) (drop c ?es) = Inr (Suc (length ?es))"
    using contiguous_all [of "drop c ?es" "Suc c"] small_casts(4) [OF bound] small_casts(5) [OF c] assms(2) by simp
qed

lemma stream_grows: "\<exists>es. db_coordination (run_ops (daemon_exec codec attests) xs db) = db_coordination db @ es"
  if "daemon_inv db"
  using that
proof (induction xs arbitrary: db)
  case (Cons x xs)
  show ?case
  proof (cases "daemon_exec codec attests x db")
    case (Inl e)
    with Cons show ?thesis by simp
  next
    case (Inr y)
    obtain r db' where exec: "daemon_exec codec attests x db = Inr (r, db')" using Inr by (cases y) simp
    obtain es where "db_coordination db' = db_coordination db @ es"
      using daemon_exec_stream_inv [OF exec] Cons.prems by (auto simp: daemon_inv_def)
    moreover have "\<exists>es. db_coordination (run_ops (daemon_exec codec attests) xs db') = db_coordination db' @ es"
      by (rule Cons.IH [OF daemon_exec_inv [OF Cons.prems exec]])
    ultimately show ?thesis using exec by auto
  qed
qed simp

text \<open>
  C22. The stream of reminders is complete. The reminders are numbered from one without a hole,
  at most one per request and level; a replay from a cursor that the stream has reached returns
  exactly the reminders after it, in order, with the cursor to resume from; a cursor from the
  future is answered by a gap and never by an empty stream. Resuming from there later returns
  exactly what was recorded since, so that the replays of a client that resumes where it left
  off add up to the whole stream.
\<close>

theorem reminder_stream_replays:
  fixes codec :: Codec and attests :: "string \<Rightarrow> bool" and past later :: "daemon_op list"
  defines "old \<equiv> db_coordination (daemon_reached codec attests past)"
    and "db \<equiv> daemon_reached codec attests (past @ later)"
  shows "map co_cursor (db_coordination db) = [1..int (length (db_coordination db))] \<and>
    distinct (map (\<lambda>e. (co_request_id e, co_generation e)) (db_coordination db)) \<and>
    (c \<le> length (db_coordination db) \<longrightarrow>
      guichet_coordination_events_after (Some c) db = Replay (drop c (db_coordination db)) (Some (length (db_coordination db)))) \<and>
    (length (db_coordination db) < c \<longrightarrow>
      guichet_coordination_events_after (Some c) db = ReplayGap (Suc (length (db_coordination db))) c) \<and>
    (\<exists>new. db_coordination db = old @ new \<and>
      guichet_coordination_events_after (Some (length old)) db = Replay new (Some (length old + length new)))"
proof -
  have inv: "stream_inv db" unfolding db_def using daemon_reached_inv by (simp add: daemon_inv_def)
  let ?es = "db_coordination db"
  have bound: "int (length ?es) \<le> i64_max" and high: "as_u64 (db_high_watermark db) = length ?es"
    using stream_cursors(1,2) [OF inv] small_casts(1) [of "length ?es"] by simp_all
  have last: "as_u64 (co_cursor (last (drop k ?es))) = length ?es" if "k < length ?es" for k
  proof -
    have "last (drop k ?es) = ?es ! (length ?es - 1)" using that by (simp add: last_conv_nth)
    moreover have "co_cursor (?es ! (length ?es - 1)) = int (length ?es)"
      using stream_cursors(3) [OF inv, of "length ?es - 1"] that by (simp add: of_nat_diff)
    ultimately show ?thesis using small_casts(1) [OF bound] by simp
  qed
  have replay: "guichet_coordination_events_after (Some k) db = Replay (drop k ?es) (Some (length ?es))" if "k \<le> length ?es" for k
    using that replay_from [OF inv that] last [of k]
    by (auto simp: guichet_coordination_events_after_def Let_def high not_less)
  moreover have "guichet_coordination_events_after (Some c) db = ReplayGap (Suc (length ?es)) c" if "length ?es < c"
    using that small_casts(5) [OF bound] by (simp add: guichet_coordination_events_after_def Let_def high)
  moreover obtain new where "?es = old @ new"
    unfolding db_def old_def run_ops_append using stream_grows [OF daemon_reached_inv] by blast
  moreover from this have "guichet_coordination_events_after (Some (length old)) db = Replay new (Some (length old + length new))"
    using replay [of "length old"] by simp
  ultimately show ?thesis using inv stream_cursors(1) [OF inv] by (auto simp: stream_inv_def)
qed

theorem reminder_stream_replays_witness:
  "guichet_coordination_events_after (Some 1) (daemon_reached echo_codec (\<lambda>_. True)
      ([DReminderSent ''e1'' ''r'' ''m1'' ''bob'' 1 50] @ [DReminderSent ''e2'' ''r'' ''m2'' ''bob'' 2 60])) =
    Replay [\<lparr>co_cursor = 2, co_event_id = ''e2'', co_request_id = ''r'', co_reminder_message_id = ''m2'',
             co_recipient = ''bob'', co_generation = 2, co_observed_at = 60\<rparr>] (Some 2)"
proof -
  let ?past = "[DReminderSent ''e1'' ''r'' ''m1'' ''bob'' 1 50]" and ?later = "[DReminderSent ''e2'' ''r'' ''m2'' ''bob'' 2 60]"
  let ?db = "daemon_reached echo_codec (\<lambda>_. True) (?past @ ?later)"
  have es: "db_coordination ?db = [\<lparr>co_cursor = 1, co_event_id = ''e1'', co_request_id = ''r'', co_reminder_message_id = ''m1'',
      co_recipient = ''bob'', co_generation = 1, co_observed_at = 50\<rparr>,
      \<lparr>co_cursor = 2, co_event_id = ''e2'', co_request_id = ''r'', co_reminder_message_id = ''m2'',
      co_recipient = ''bob'', co_generation = 2, co_observed_at = 60\<rparr>]"
    by (simp add: daemon_eval record_reminder_sent_def reminder_complete_def is_i64_def)
  then have "1 \<le> length (db_coordination ?db)" by simp
  then have "guichet_coordination_events_after (Some 1) ?db = Replay (drop 1 (db_coordination ?db)) (Some (length (db_coordination ?db)))"
    using reminder_stream_replays [of echo_codec "\<lambda>_. True" ?past ?later 1] by blast
  then show ?thesis unfolding es by simp
qed

end
