(* ===== verification/Ledger_Properties.thy ===== *)
theory Ledger_Properties
  imports Request_Tracking
begin

text \<open>
  The keys of the conversations in the ledger: the writers and the readers agree on one form,
  the migration of identities writes another.
\<close>

lemma conversation_messages_Nil:
  "conversation_messages a b n db = [] \<longleftrightarrow>
    (\<forall>l\<in>set (db_ledger db). lg_conversation_key l \<notin> {a @ ''|'' @ b, b @ ''|'' @ a})"
proof -
  have sorted_Nil: "sort_key f xs = [] \<longleftrightarrow> xs = []" for f :: "LedgerRow \<Rightarrow> int \<times> string" and xs
    by (metis length_0_conv length_sort)
  show ?thesis by (auto simp: conversation_messages_def sorted_Nil filter_empty_conv)
qed

lemma migrated_key_no_bar:
  "CHR ''|'' \<notin> set (lg_sender l) \<union> set (lg_target l) \<Longrightarrow> CHR ''|'' \<notin> set (migrated_key l)"
  by (simp add: migrated_key_def)

lemma migrated_ledger:
  assumes "migrate_agent_references mapping db = Inr ((), db')" and "l \<in> set (db_ledger db')"
  shows "lg_conversation_key l = migrated_key l"
  using assms by (auto simp: migrate_agent_references_def migrated_key_def split: sum.splits)

lemma recorded_row:
  "\<lparr>lg_id = msg_id msg, lg_ts = ts, lg_sender = msg_from msg, lg_target = msg_to msg, lg_body = body msg,
    lg_conversation_key = ck\<rparr> \<in> set (db_ledger (record_message_in_transaction ts msg ck db))"
  by (simp add: record_message_in_transaction_def)

text \<open>
  C36. A migration of identities hides every past conversation. A message that is recorded under
  the key of the daemon's writers is found by the reader of conversations, from either side.
  But the migration rewrites every key of the ledger with a colon between the parties in
  alphabetical order, while writers and readers put a bar between sender and target: after it,
  for identities without a bar, every conversation reads as empty and counts no exchange,
  although the messages are still in the ledger.
\<close>

theorem migration_hides_conversations:
  assumes "record_message msg (msg_from msg @ ''|'' @ msg_to msg) ts db = Inr ((), db1)"
    and "migrate_agent_references mapping db1 = Inr ((), db2)"
    and "\<forall>l\<in>set (db_ledger db2). CHR ''|'' \<notin> set (lg_sender l) \<union> set (lg_target l)"
  shows "conversation_messages (msg_from msg) (msg_to msg) n db1 \<noteq> [] \<and>
    conversation_messages (msg_to msg) (msg_from msg) n db1 \<noteq> [] \<and>
    conversation_messages a b n db2 = [] \<and> count_recent (a @ ''|'' @ b) window now db2 = 0 \<and>
    length (db_ledger db2) = length (db_ledger db1)"
proof -
  have "db1 = record_message_in_transaction ts msg (msg_from msg @ ''|'' @ msg_to msg) db"
    using assms(1) by (simp add: record_message_def)
  with recorded_row [of msg ts "msg_from msg @ ''|'' @ msg_to msg" db]
  have "\<exists>l\<in>set (db_ledger db1). lg_conversation_key l = msg_from msg @ ''|'' @ msg_to msg" by force
  then have found: "conversation_messages (msg_from msg) (msg_to msg) n db1 \<noteq> []"
    "conversation_messages (msg_to msg) (msg_from msg) n db1 \<noteq> []"
    unfolding conversation_messages_Nil by blast+
  have bar: "lg_conversation_key l \<noteq> x @ ''|'' @ y" if "l \<in> set (db_ledger db2)" for l x y
  proof
    assume "lg_conversation_key l = x @ ''|'' @ y"
    then have "CHR ''|'' \<in> set (migrated_key l)" using migrated_ledger [OF assms(2) that] by simp
    then show False using migrated_key_no_bar [of l] assms(3) that by blast
  qed
  then have hidden: "conversation_messages a b n db2 = []" "count_recent (a @ ''|'' @ b) window now db2 = 0"
    unfolding conversation_messages_Nil by (auto simp: count_recent_def Let_def sql_matches_0_iff)
  have "length (db_ledger x) = length (db_ledger y)" if "rename_agents ms y = Inr x" for ms x y
    using that by (induction ms arbitrary: y)
      (auto simp: rename_agent_def Let_def split: sum.splits prod.splits if_splits)
  with assms(2) have "length (db_ledger db2) = length (db_ledger db1)"
    by (auto simp: migrate_agent_references_def split: sum.splits)
  with found hidden show ?thesis by blast
qed

definition greeting :: BridgetMessage where
  "greeting = message_new ''m1'' ''alice'' ''bob'' ''hello''"

theorem migration_hides_conversations_witness:
  "\<exists>db1 db2. record_message greeting ''alice|bob'' 7 db_empty = Inr ((), db1) \<and>
     migrate_agent_references [(''bob'', ''b-1'')] db1 = Inr ((), db2) \<and>
     conversation_messages ''alice'' ''bob'' 10 db1 \<noteq> [] \<and> conversation_messages ''alice'' ''b-1'' 10 db2 = []"
proof -
  obtain db1 where rec: "record_message greeting (msg_from greeting @ ''|'' @ msg_to greeting) 7 db_empty = Inr ((), db1)"
    by (simp add: record_message_def)
  then obtain db2 where mig: "migrate_agent_references [(''bob'', ''b-1'')] db1 = Inr ((), db2)"
    and names: "\<forall>l\<in>set (db_ledger db2). CHR ''|'' \<notin> set (lg_sender l) \<union> set (lg_target l)"
    by (auto simp: record_message_def record_message_in_transaction_def migrate_agent_references_def rename_agent_def
        greeting_def message_new_def db_empty_def sql_delete_def Let_def)
  from migration_hides_conversations [OF rec mig names, of 10 "''alice''" "''b-1''"] rec mig show ?thesis
    by (auto simp: greeting_def message_new_def)
qed

end
