(* ===== verification/Ledger_Search.thy ===== *)
theory Ledger_Search
  imports Request_Tracking Receipt_Store "HOL-Library.Product_Lexorder"
begin

text \<open>
  The search in the ledger and in the shared threads, and the exact re-reading of a message:
  \<open>crates/bridget-daemon/src/ledger.rs\<close> (module \<open>search\<close>) and the module \<open>search\<close> of
  \<open>store/ledger_requests.rs\<close>. A page reads at most 128 candidates in descending order, under a
  budget of bytes, of results and of the size of the response, and returns a cursor from which
  the next page resumes.

  Library code is a field of \<open>SearchLib\<close>: the JSON texts of a cursor and of a fingerprint, the
  sizes of a serialised result and of an empty page, SHA-256, the parser of UUIDs and the
  Unicode table of lower-case letters. A refusal is its code, without the sentence for the
  reader; the fixed notices of a page are left out.
\<close>

section \<open>Types\<close>

datatype LedgerSearchSource = SourceMessages | SourceThread

record LedgerSearchRequest =
  lq_source :: LedgerSearchSource
  lq_query :: string
  lq_author :: "string option"
  lq_peer :: "string option"
  lq_since :: "int option"
  lq_until :: "int option"
  lq_limit :: "nat option"
  lq_cursor :: "string option"
  lq_thread_id :: "string option"

record MessageKey =
  mk_ts :: int
  mk_id :: string
  mk_target :: string

datatype CursorKey = KeyMessage MessageKey | KeySeq nat

record CursorV1 =
  cv_v :: nat
  cv_actor :: string
  cv_fingerprint :: string
  cv_source :: LedgerSearchSource
  cv_upper :: CursorKey
  cv_before :: CursorKey

datatype LedgerSearchHit =
    HitMessage string string string int string nat string nat
  | HitThreadEntry string nat string string int string nat string nat

record LedgerSearchPage =
  lp_source :: LedgerSearchSource
  lp_hits :: "LedgerSearchHit list"
  lp_has_more :: bool
  lp_next_cursor :: "string option"
  lp_scanned_count :: nat
  lp_scanned_bytes :: nat
  lp_skipped_oversized :: nat
  lp_stop_reason :: string
  lp_consistency :: string

record SearchLib =
  sl_cursor_json :: "CursorV1 \<Rightarrow> string"
  sl_cursor_parse :: "string \<Rightarrow> CursorV1 option"
  sl_fingerprint_json :: "string \<Rightarrow> string \<Rightarrow> string option \<Rightarrow> string option \<Rightarrow> int option \<Rightarrow> int option \<Rightarrow> string option \<Rightarrow> string"
  sl_hit_size :: "LedgerSearchHit \<Rightarrow> nat"
  sl_page_size :: "LedgerSearchSource \<Rightarrow> string option \<Rightarrow> nat"
  sl_sha256_hex :: "string \<Rightarrow> string"
  sl_uuid :: "string \<Rightarrow> string option"
  sl_lowercase :: "string \<Rightarrow> string"

definition MAX_QUERY_BYTES :: nat where "MAX_QUERY_BYTES = 256"
definition MAX_TERMS :: nat where "MAX_TERMS = 8"
definition DEFAULT_LIMIT :: nat where "DEFAULT_LIMIT = 20"
definition MAX_LIMIT :: nat where "MAX_LIMIT = 50"
definition RESPONSE_BUDGET_BYTES :: nat where "RESPONSE_BUDGET_BYTES = 61440"
definition CURSOR_MAX_BYTES :: nat where "CURSOR_MAX_BYTES = 16384"
definition READ_FRAGMENT_BYTES :: nat where "READ_FRAGMENT_BYTES = 16384"
definition CANDIDATES_PER_PAGE :: nat where "CANDIDATES_PER_PAGE = 128"
definition BYTE_BUDGET :: nat where "BYTE_BUDGET = 1048576"
definition MAX_BODY_BYTES :: nat where "MAX_BODY_BYTES = 16777216"
definition MAX_METADATA_BYTES :: nat where "MAX_METADATA_BYTES = 256"
definition EXCERPT_BYTES :: nat where "EXCERPT_BYTES = 512"
definition FETCH_LIMIT :: nat where "FETCH_LIMIT = CANDIDATES_PER_PAGE + 1"

type_synonym 'r answered = "string + 'r"

section \<open>Text\<close>

text \<open>The folding of one character, given as its UTF-8 bytes.\<close>

definition fold_char :: "string \<Rightarrow> string" where
  "fold_char ch =
     (case map byte ch of
        [a, b] \<Rightarrow>
          if a = 195 then
            (if 128 \<le> b \<and> b \<le> 133 \<or> 160 \<le> b \<and> b \<le> 165 then ''a''
             else if 136 \<le> b \<and> b \<le> 139 \<or> 168 \<le> b \<and> b \<le> 171 then ''e''
             else if 140 \<le> b \<and> b \<le> 143 \<or> 172 \<le> b \<and> b \<le> 175 then ''i''
             else if 146 \<le> b \<and> b \<le> 150 \<or> 178 \<le> b \<and> b \<le> 182 then ''o''
             else if 153 \<le> b \<and> b \<le> 156 \<or> 185 \<le> b \<and> b \<le> 188 then ''u''
             else if b = 157 \<or> b = 189 \<or> b = 191 then ''y''
             else if b = 135 \<or> b = 167 then ''c''
             else if b = 145 \<or> b = 177 then ''n''
             else ch)
          else if a = 197 \<and> b = 184 then ''y'' else ch
      | _ \<Rightarrow> ch)"

definition fold_for_search :: "SearchLib \<Rightarrow> string \<Rightarrow> string" where
  "fold_for_search lib s = concat (map (\<lambda>ch. sl_lowercase lib (fold_char ch)) (utf8_chars s))"

definition folded_len :: "SearchLib \<Rightarrow> string \<Rightarrow> nat" where
  "folded_len lib ch = length (sl_lowercase lib (fold_char ch))"

text \<open>\<open>str::find\<close>: the offset of the first occurrence.\<close>

fun str_find :: "string \<Rightarrow> string \<Rightarrow> nat option" where
  "str_find p [] = (if p = [] then Some 0 else None)"
| "str_find p (c # cs) = (if starts_with (c # cs) p then Some 0 else map_option Suc (str_find p cs))"

text \<open>The loop over the terms: the smallest offset, if all of them occur.\<close>

fun first_term :: "string \<Rightarrow> string list \<Rightarrow> nat option \<Rightarrow> nat option option" where
  "first_term folded [] first = Some first"
| "first_term folded (t # ts) first =
     (case str_find t folded of
        None \<Rightarrow> None
      | Some at \<Rightarrow> first_term folded ts (Some (case first of Some current \<Rightarrow> min current at | None \<Rightarrow> at)))"

text \<open>The loop over \<open>char_indices\<close>; \<open>prev\<close> is the offset of the last character seen.\<close>

fun original_offset :: "SearchLib \<Rightarrow> nat \<Rightarrow> string list \<Rightarrow> nat \<Rightarrow> nat \<Rightarrow> nat option \<Rightarrow> nat option" where
  "original_offset lib tgt [] offset folded prev = prev"
| "original_offset lib tgt (ch # chs) offset folded prev =
     (if tgt \<le> folded then Some offset
      else original_offset lib tgt chs (offset + length ch) (folded + folded_len lib ch) (Some offset))"

definition locate_terms :: "SearchLib \<Rightarrow> string \<Rightarrow> string list \<Rightarrow> nat option" where
  "locate_terms lib bdy terms =
     (case first_term (fold_for_search lib bdy) terms None of
        Some (Some tgt) \<Rightarrow> original_offset lib tgt (utf8_chars bdy) 0 0 None
      | _ \<Rightarrow> None)"

definition excerpt :: "string \<Rightarrow> nat \<Rightarrow> nat \<Rightarrow> string" where
  "excerpt bdy offset max_bytes =
     (let start = floor_char_boundary bdy (min offset (length bdy));
          stop = floor_char_boundary bdy (min (start + max_bytes) (length bdy))
      in drop start (take stop bdy))"

text \<open>\<open>str::split_whitespace\<close>\<close>

fun split_chars :: "string list \<Rightarrow> string list" where
  "split_chars [] = [[]]"
| "split_chars (ch # chs) =
     (if is_whitespace (code_point ch) then [] # split_chars chs
      else case split_chars chs of w # ws \<Rightarrow> (ch @ w) # ws | [] \<Rightarrow> [ch])"

definition split_whitespace :: "string \<Rightarrow> string list" where
  "split_whitespace s = filter (\<lambda>w. w \<noteq> []) (split_chars (utf8_chars s))"

section \<open>Validation\<close>

record DateWindow =
  dw_since :: int
  dw_until :: int

record Spec =
  sp_source :: LedgerSearchSource
  sp_terms :: "string list"
  sp_author :: "string option"
  sp_peer :: "string option"
  sp_window :: DateWindow
  sp_limit :: nat
  sp_thread_id :: "string option"

definition canonical_uuid :: "SearchLib \<Rightarrow> string \<Rightarrow> string option" where
  "canonical_uuid lib v = (case sl_uuid lib v of Some c \<Rightarrow> if c = v then Some c else None | None \<Rightarrow> None)"

definition uuid_param :: "SearchLib \<Rightarrow> string option \<Rightarrow> string option answered" where
  "uuid_param lib v =
     (case v of
        None \<Rightarrow> Inr None
      | Some x \<Rightarrow> (case canonical_uuid lib x of Some c \<Rightarrow> Inr (Some c) | None \<Rightarrow> Inl ''invalid_params''))"

definition validate_search :: "SearchLib \<Rightarrow> LedgerSearchRequest \<Rightarrow> Spec answered" where
  "validate_search lib q =
     (let terms = map (fold_for_search lib) (split_whitespace (lq_query q));
          limit = (case lq_limit q of Some n \<Rightarrow> n | None \<Rightarrow> DEFAULT_LIMIT);
          since = (case lq_since q of Some t \<Rightarrow> t | None \<Rightarrow> 0);
          until = (case lq_until q of Some t \<Rightarrow> t | None \<Rightarrow> i64_max)
      in if trim (lq_query q) = [] then Inl ''invalid_params''
         else if MAX_QUERY_BYTES < length (lq_query q) then Inl ''invalid_params''
         else if terms = [] \<or> MAX_TERMS < length terms then Inl ''invalid_params''
         else if \<not> (1 \<le> limit \<and> limit \<le> MAX_LIMIT) then Inl ''invalid_params''
         else if since < 0 \<or> until < 0 then Inl ''invalid_params''
         else if until < since then Inl ''invalid_params''
         else case uuid_param lib (lq_author q) of
           Inl e \<Rightarrow> Inl e
         | Inr author \<Rightarrow>
             (case uuid_param lib (lq_peer q) of
                Inl e \<Rightarrow> Inl e
              | Inr peer \<Rightarrow>
                  (case uuid_param lib (lq_thread_id q) of
                     Inl e \<Rightarrow> Inl e
                   | Inr thread_id \<Rightarrow>
                       if lq_source q = SourceMessages \<and> thread_id \<noteq> None then Inl ''invalid_params''
                       else if lq_source q = SourceThread \<and> thread_id = None then Inl ''invalid_params''
                       else if lq_source q = SourceThread \<and> peer \<noteq> None then Inl ''invalid_params''
                       else Inr \<lparr>sp_source = lq_source q, sp_terms = terms, sp_author = author, sp_peer = peer,
                                 sp_window = \<lparr>dw_since = since, dw_until = until\<rparr>, sp_limit = limit,
                                 sp_thread_id = thread_id\<rparr>)))"

section \<open>The cursor\<close>

definition source_name :: "LedgerSearchSource \<Rightarrow> string" where
  "source_name src = (case src of SourceMessages \<Rightarrow> ''messages'' | SourceThread \<Rightarrow> ''thread'')"

definition fingerprint :: "SearchLib \<Rightarrow> LedgerSearchRequest \<Rightarrow> string" where
  "fingerprint lib q = sl_sha256_hex lib
     (sl_fingerprint_json lib (source_name (lq_source q)) (lq_query q) (lq_author q) (lq_peer q)
       (lq_since q) (lq_until q) (lq_thread_id q))"

definition hex_nibble :: "nat \<Rightarrow> char" where
  "hex_nibble n = char_of (if n < 10 then 48 + n else 87 + n)"

definition hex_encode :: "string \<Rightarrow> string" where
  "hex_encode bytes = concat (map (\<lambda>c. [hex_nibble (byte c div 16), hex_nibble (byte c mod 16)]) bytes)"

text \<open>A lower-case hexadecimal digit: \<open>is_ascii_hexdigit\<close> and not \<open>is_ascii_uppercase\<close>.\<close>

definition is_lower_hex :: "char \<Rightarrow> bool" where
  "is_lower_hex c \<longleftrightarrow> 48 \<le> byte c \<and> byte c \<le> 57 \<or> 97 \<le> byte c \<and> byte c \<le> 102"

definition hex_value :: "char \<Rightarrow> nat" where
  "hex_value c = (if byte c \<le> 57 then byte c - 48 else byte c - 87)"

fun hex_pairs :: "string \<Rightarrow> string" where
  "hex_pairs (a # b # s) = char_of (16 * hex_value a + hex_value b) # hex_pairs s"
| "hex_pairs _ = []"

definition hex_decode :: "string \<Rightarrow> string option" where
  "hex_decode text =
     (if odd (length text) \<or> \<not> list_all is_lower_hex text then None else Some (hex_pairs text))"

definition encode_cursor :: "SearchLib \<Rightarrow> CursorV1 \<Rightarrow> string answered" where
  "encode_cursor lib c =
     (let encoded = hex_encode (sl_cursor_json lib c)
      in if CURSOR_MAX_BYTES < length encoded then Inl ''source_metadata_too_large'' else Inr encoded)"

definition key_admissible :: "MessageKey \<Rightarrow> bool" where
  "key_admissible k \<longleftrightarrow> mk_id k \<noteq> [] \<and> mk_target k \<noteq> [] \<and>
     length (mk_id k) \<le> MAX_METADATA_BYTES \<and> length (mk_target k) \<le> MAX_METADATA_BYTES"

text \<open>\<open>page_cmp\<close>: a key stands before another in a page when its triple is greater.\<close>

definition key_triple :: "MessageKey \<Rightarrow> int \<times> string \<times> string" where
  "key_triple k = (mk_ts k, mk_id k, mk_target k)"

definition page_before :: "MessageKey \<Rightarrow> MessageKey \<Rightarrow> bool" where
  "page_before k k' \<longleftrightarrow> key_triple k' < key_triple k"

definition decode_cursor :: "SearchLib \<Rightarrow> string \<Rightarrow> string \<Rightarrow> LedgerSearchRequest \<Rightarrow> CursorV1 answered" where
  "decode_cursor lib text actor q =
     (if text = [] \<or> CURSOR_MAX_BYTES < length text then Inl ''invalid_cursor''
      else case hex_decode text of
        None \<Rightarrow> Inl ''invalid_cursor''
      | Some bytes \<Rightarrow>
          (case sl_cursor_parse lib bytes of
             None \<Rightarrow> Inl ''invalid_cursor''
           | Some c \<Rightarrow>
               if cv_v c \<noteq> 1 \<or> cv_actor c \<noteq> actor \<or> cv_source c \<noteq> lq_source q \<or>
                  cv_fingerprint c \<noteq> fingerprint lib q
               then Inl ''invalid_cursor''
               else case (cv_upper c, cv_before c) of
                 (KeyMessage upper, KeyMessage before) \<Rightarrow>
                   if lq_source q \<noteq> SourceMessages \<or> \<not> key_admissible upper \<or> \<not> key_admissible before \<or>
                      page_before before upper
                   then Inl ''invalid_cursor'' else Inr c
               | (KeySeq upper, KeySeq before) \<Rightarrow>
                   if lq_source q \<noteq> SourceThread \<or> upper = 0 \<or> before = 0 \<or> upper < before
                   then Inl ''invalid_cursor'' else Inr c
               | _ \<Rightarrow> Inl ''invalid_cursor''))"

section \<open>Reading the candidates\<close>

record MessageCandidate =
  mc_key :: MessageKey
  mc_sender :: string
  mc_body_bytes :: nat

definition ledger_key :: "LedgerRow \<Rightarrow> MessageKey" where
  "ledger_key l = \<lparr>mk_ts = lg_ts l, mk_id = lg_id l, mk_target = lg_target l\<rparr>"

definition meta_too_large :: "LedgerRow \<Rightarrow> bool" where
  "meta_too_large l \<longleftrightarrow> MAX_METADATA_BYTES < length (lg_id l) \<or> MAX_METADATA_BYTES < length (lg_target l) \<or>
     MAX_METADATA_BYTES < length (lg_sender l)"

definition sender_branch :: "string \<Rightarrow> LedgerRow \<Rightarrow> bool" where
  "sender_branch actor l \<longleftrightarrow> lg_sender l = actor"

definition target_branch :: "string \<Rightarrow> LedgerRow \<Rightarrow> bool" where
  "target_branch actor l \<longleftrightarrow> lg_target l = actor \<and> lg_sender l \<noteq> actor"

definition in_date_window :: "DateWindow \<Rightarrow> int \<Rightarrow> bool" where
  "in_date_window w ts \<longleftrightarrow> dw_since w \<le> ts \<and> ts \<le> dw_until w"

text \<open>\<open>ORDER BY ts DESC, id DESC, target DESC\<close>\<close>

definition newest_first :: "LedgerRow list \<Rightarrow> LedgerRow list" where
  "newest_first rows = rev (sort_key (\<lambda>l. key_triple (ledger_key l)) rows)"

definition candidate_select ::
  "(LedgerRow \<Rightarrow> bool) \<Rightarrow> DateWindow \<Rightarrow> MessageKey \<Rightarrow> MessageKey option \<Rightarrow> LedgerRow list \<Rightarrow> LedgerRow list" where
  "candidate_select branch window upper before ledger =
     take FETCH_LIMIT (newest_first (filter (\<lambda>l. branch l \<and> in_date_window window (lg_ts l) \<and>
       key_triple (ledger_key l) \<le> key_triple upper \<and>
       (case before of None \<Rightarrow> True | Some b \<Rightarrow> key_triple (ledger_key l) < key_triple b)) ledger))"

definition candidate_of :: "LedgerRow \<Rightarrow> MessageCandidate" where
  "candidate_of l = \<lparr>mc_key = ledger_key l, mc_sender = lg_sender l, mc_body_bytes = length (lg_body l)\<rparr>"

definition one_branch ::
  "Db \<Rightarrow> (LedgerRow \<Rightarrow> bool) \<Rightarrow> DateWindow \<Rightarrow> MessageKey \<Rightarrow> MessageKey option \<Rightarrow>
   MessageCandidate list answered" where
  "one_branch db branch window upper before =
     (let rows = candidate_select branch window upper before (db_ledger db)
      in if list_ex meta_too_large rows then Inl ''source_metadata_too_large''
         else Inr (map candidate_of rows))"

fun upper_bound_of :: "Db \<Rightarrow> DateWindow \<Rightarrow> (LedgerRow \<Rightarrow> bool) list \<Rightarrow> MessageKey option \<Rightarrow> MessageKey option answered" where
  "upper_bound_of db window [] best = Inr best"
| "upper_bound_of db window (branch # branches) best =
     (case newest_first (filter (\<lambda>l. branch l \<and> in_date_window window (lg_ts l)) (db_ledger db)) of
        [] \<Rightarrow> upper_bound_of db window branches best
      | l # _ \<Rightarrow>
          if meta_too_large l then Inl ''source_metadata_too_large''
          else upper_bound_of db window branches
            (case best of
               None \<Rightarrow> Some (ledger_key l)
             | Some current \<Rightarrow> if page_before (ledger_key l) current then Some (ledger_key l) else best))"

definition message_upper_bound :: "Db \<Rightarrow> string \<Rightarrow> DateWindow \<Rightarrow> MessageKey option answered" where
  "message_upper_bound db actor window =
     upper_bound_of db window [sender_branch actor, target_branch actor] None"

text \<open>The loop that merges the two branches; \<open>n\<close> is what is missing to \<open>FETCH_LIMIT\<close>.\<close>

fun merge_candidates :: "nat \<Rightarrow> MessageCandidate list \<Rightarrow> MessageCandidate list \<Rightarrow> MessageCandidate list" where
  "merge_candidates 0 a b = []"
| "merge_candidates (Suc n) [] [] = []"
| "merge_candidates (Suc n) (x # a) [] = x # merge_candidates n a []"
| "merge_candidates (Suc n) [] (y # b) = y # merge_candidates n [] b"
| "merge_candidates (Suc n) (x # a) (y # b) =
     (if \<not> page_before (mc_key y) (mc_key x) then x # merge_candidates n a (y # b)
      else y # merge_candidates n (x # a) b)"

definition message_candidates ::
  "Db \<Rightarrow> string \<Rightarrow> DateWindow \<Rightarrow> MessageKey \<Rightarrow> MessageKey option \<Rightarrow> MessageCandidate list answered" where
  "message_candidates db actor window upper before =
     (case one_branch db (sender_branch actor) window upper before of
        Inl e \<Rightarrow> Inl e
      | Inr sent \<Rightarrow>
          (case one_branch db (target_branch actor) window upper before of
             Inl e \<Rightarrow> Inl e
           | Inr received \<Rightarrow> Inr (merge_candidates FETCH_LIMIT sent received)))"

text \<open>The bodies of the chosen keys, by \<open>(id, target)\<close>, the primary key of the ledger.\<close>

definition message_bodies :: "Db \<Rightarrow> string \<Rightarrow> MessageKey list \<Rightarrow> MessageKey \<Rightarrow> LedgerRow option" where
  "message_bodies db actor keys k =
     sql_row (\<lambda>l. (lg_id l, lg_target l) = (mk_id k, mk_target k) \<and>
        (mk_id k, mk_target k) \<in> set (map (\<lambda>k'. (mk_id k', mk_target k')) keys) \<and>
        (lg_sender l = actor \<or> lg_target l = actor) \<and> length (lg_body l) \<le> MAX_BODY_BYTES)
       (db_ledger db)"

definition participant_row :: "string \<Rightarrow> string \<Rightarrow> string \<Rightarrow> LedgerRow \<Rightarrow> bool" where
  "participant_row actor mid target l \<longleftrightarrow>
     lg_id l = mid \<and> lg_target l = target \<and> (lg_sender l = actor \<or> lg_target l = actor)"

definition message_head :: "Db \<Rightarrow> string \<Rightarrow> string \<Rightarrow> string \<Rightarrow> (string \<times> int \<times> nat) option" where
  "message_head db actor mid target =
     map_option (\<lambda>l. (lg_sender l, lg_ts l, length (lg_body l)))
       (sql_row (participant_row actor mid target) (db_ledger db))"

definition message_body :: "Db \<Rightarrow> string \<Rightarrow> string \<Rightarrow> string \<Rightarrow> string option" where
  "message_body db actor mid target =
     map_option lg_body (sql_row (participant_row actor mid target) (db_ledger db))"

text \<open>The tables of the shared threads, as far as the search reads them.\<close>

record ThreadRow =
  th_thread_id :: string
  th_last_seq :: int

record MemberRow =
  mb_thread_id :: string
  mb_agent_id :: string

record EntryRow =
  en_thread_id :: string
  en_seq :: int
  en_message_id :: string
  en_author_id :: string
  en_body :: string
  en_created_at :: int

record ThreadTables =
  td_ready :: bool
  td_threads :: "ThreadRow table"
  td_members :: "MemberRow table"
  td_entries :: "EntryRow table"

text \<open>\<open>u64_of\<close>: a negative integer of the database reads as 0.\<close>

definition load_thread_for_member :: "ThreadTables \<Rightarrow> string \<Rightarrow> string \<Rightarrow> nat option" where
  "load_thread_for_member td thread_id actor =
     (case sql_row (\<lambda>t. th_thread_id t = thread_id) (td_threads td) of
        None \<Rightarrow> None
      | Some t \<Rightarrow>
          if sql_exists (\<lambda>m. mb_thread_id m = thread_id \<and> mb_agent_id m = actor) (td_members td)
          then Some (nat (th_last_seq t)) else None)"

record ThreadCandidate =
  tc_seq :: nat
  tc_message_id :: string
  tc_author_id :: string
  tc_created_at :: int
  tc_body_bytes :: nat

definition entry_candidate :: "EntryRow \<Rightarrow> ThreadCandidate" where
  "entry_candidate e = \<lparr>tc_seq = nat (en_seq e), tc_message_id = en_message_id e,
     tc_author_id = en_author_id e, tc_created_at = en_created_at e, tc_body_bytes = length (en_body e)\<rparr>"

definition thread_candidates ::
  "ThreadTables \<Rightarrow> string \<Rightarrow> DateWindow \<Rightarrow> nat \<Rightarrow> nat option \<Rightarrow> ThreadCandidate list" where
  "thread_candidates td thread_id window upper_seq before_seq =
     (let before = (case before_seq of Some q \<Rightarrow> as_i64 q | None \<Rightarrow> i64_max)
      in map entry_candidate (take FETCH_LIMIT (rev (sort_key en_seq
           (filter (\<lambda>e. en_thread_id e = thread_id \<and> en_seq e \<le> as_i64 upper_seq \<and> en_seq e < before \<and>
              in_date_window window (en_created_at e)) (td_entries td))))))"

definition thread_bodies :: "ThreadTables \<Rightarrow> string \<Rightarrow> nat list \<Rightarrow> nat \<Rightarrow> string option" where
  "thread_bodies td thread_id seqs k =
     (if k \<in> set seqs
      then map_option en_body (sql_row (\<lambda>e. en_thread_id e = thread_id \<and> en_seq e = as_i64 k) (td_entries td))
      else None)"

section \<open>Assembling a page\<close>

record 'k Candidate =
  cd_key :: 'k
  cd_author :: string
  cd_peer :: "string option"
  cd_ts :: int
  cd_body_bytes :: nat

definition admissible :: "Spec \<Rightarrow> 'k Candidate \<Rightarrow> bool" where
  "admissible spec c \<longleftrightarrow>
     (case sp_author spec of None \<Rightarrow> True | Some a \<Rightarrow> cd_author c = a) \<and>
     (case sp_peer spec of None \<Rightarrow> True | Some p \<Rightarrow> cd_peer c = Some p)"

text \<open>The loop of \<open>select_prefix\<close>, from the bytes selected so far.\<close>

fun select_loop :: "Spec \<Rightarrow> nat \<Rightarrow> 'k Candidate list \<Rightarrow> nat \<times> 'k list \<times> bool" where
  "select_loop spec selected [] = (0, [], False)"
| "select_loop spec selected (c # cs) =
     (if admissible spec c \<and> cd_body_bytes c \<le> MAX_BODY_BYTES then
        (if BYTE_BUDGET \<le> selected then (0, [], True)
         else case select_loop spec (selected + cd_body_bytes c) cs of
           (prefix, to_load, byte_stop) \<Rightarrow> (Suc prefix, cd_key c # to_load, byte_stop))
      else case select_loop spec selected cs of
        (prefix, to_load, byte_stop) \<Rightarrow> (Suc prefix, to_load, byte_stop))"

definition select_prefix :: "Spec \<Rightarrow> 'k Candidate list \<Rightarrow> nat \<times> 'k list \<times> bool" where
  "select_prefix spec cs = select_loop spec 0 cs"

record PageBuilder =
  pb_hits :: "LedgerSearchHit list"
  pb_hits_bytes :: nat
  pb_scanned_count :: nat
  pb_scanned_bytes :: nat
  pb_skipped_oversized :: nat
  pb_consumed :: nat
  pb_stop_reason :: string

definition new_builder :: PageBuilder where
  "new_builder = \<lparr>pb_hits = [], pb_hits_bytes = 0, pb_scanned_count = 0, pb_scanned_bytes = 0,
     pb_skipped_oversized = 0, pb_consumed = 0, pb_stop_reason = ''exhausted''\<rparr>"

datatype Step = Consumed | StopBefore string

definition builder_consume :: "PageBuilder \<Rightarrow> PageBuilder \<times> Step" where
  "builder_consume b =
     (b\<lparr>pb_scanned_count := pb_scanned_count b + 1, pb_consumed := pb_consumed b + 1\<rparr>, Consumed)"

definition builder_step ::
  "SearchLib \<Rightarrow> Spec \<Rightarrow> PageBuilder \<Rightarrow> 'k Candidate \<Rightarrow> string option \<Rightarrow>
   (string \<Rightarrow> nat \<Rightarrow> string \<Rightarrow> nat \<Rightarrow> LedgerSearchHit) \<Rightarrow> nat \<Rightarrow> PageBuilder \<times> Step" where
  "builder_step lib spec b c bdy make_hit skeleton_bytes =
     (if sp_limit spec \<le> length (pb_hits b) then (b, StopBefore ''result_limit'')
      else if MAX_BODY_BYTES < cd_body_bytes c
      then builder_consume (b\<lparr>pb_skipped_oversized := pb_skipped_oversized b + 1\<rparr>)
      else case bdy of
        None \<Rightarrow> builder_consume b
      | Some text \<Rightarrow>
          (let b' = b\<lparr>pb_scanned_bytes := pb_scanned_bytes b + length text\<rparr>
           in case locate_terms lib text (sp_terms spec) of
                None \<Rightarrow> builder_consume b'
              | Some offset \<Rightarrow>
                  (let hit = make_hit (excerpt text offset EXCERPT_BYTES) offset (sl_sha256_hex lib text) (length text);
                       hit_bytes = sl_hit_size lib hit + 1
                   in if pb_hits b' \<noteq> [] \<and>
                         RESPONSE_BUDGET_BYTES < skeleton_bytes + pb_hits_bytes b' + hit_bytes
                      then (b', StopBefore ''response_budget'')
                      else builder_consume (b'\<lparr>pb_hits_bytes := pb_hits_bytes b' + hit_bytes,
                             pb_hits := pb_hits b' @ [hit]\<rparr>))))"

definition finish_page ::
  "Spec \<Rightarrow> PageBuilder \<Rightarrow> bool \<Rightarrow> string option \<Rightarrow> string \<Rightarrow> LedgerSearchPage" where
  "finish_page spec b has_more next_cursor consistency =
     \<lparr>lp_source = sp_source spec, lp_hits = pb_hits b, lp_has_more = has_more, lp_next_cursor = next_cursor,
      lp_scanned_count = pb_scanned_count b, lp_scanned_bytes = pb_scanned_bytes b,
      lp_skipped_oversized = pb_skipped_oversized b, lp_stop_reason = pb_stop_reason b,
      lp_consistency = consistency\<rparr>"

text \<open>The size of a page without results; every other field of it is fixed by the source.\<close>

definition skeleton_size :: "SearchLib \<Rightarrow> Spec \<Rightarrow> CursorV1 \<Rightarrow> nat" where
  "skeleton_size lib spec c =
     sl_page_size lib (sp_source spec) (case encode_cursor lib c of Inr t \<Rightarrow> Some t | Inl _ \<Rightarrow> None)"

definition search_cursor ::
  "SearchLib \<Rightarrow> string \<Rightarrow> LedgerSearchRequest \<Rightarrow> Spec \<Rightarrow> CursorKey \<Rightarrow> CursorKey \<Rightarrow> CursorV1" where
  "search_cursor lib actor q spec upper before =
     \<lparr>cv_v = 1, cv_actor = actor, cv_fingerprint = fingerprint lib q, cv_source = sp_source spec,
      cv_upper = upper, cv_before = before\<rparr>"

text \<open>
  The part that \<open>search_messages\<close> and \<open>search_thread\<close> share: the loop over the selected
  candidates, the reason of the stop and the next cursor. \<open>cand\<close> is the candidate of a row,
  \<open>wrap\<close> its key inside a cursor, \<open>load\<close> the grouped loading, \<open>text_of\<close> the loaded text and
  \<open>make_hit\<close> the result of a row.
\<close>

fun scan_loop ::
  "SearchLib \<Rightarrow> Spec \<Rightarrow> ('r \<Rightarrow> 'k Candidate) \<Rightarrow> ('k \<Rightarrow> nat) \<Rightarrow> ('k \<Rightarrow> 'b option) \<Rightarrow> ('b \<Rightarrow> string) \<Rightarrow>
   ('r \<Rightarrow> 'b option \<Rightarrow> string \<Rightarrow> nat \<Rightarrow> string \<Rightarrow> nat \<Rightarrow> LedgerSearchHit) \<Rightarrow>
   PageBuilder \<Rightarrow> 'k option \<Rightarrow> 'r list \<Rightarrow> PageBuilder \<times> 'k option" where
  "scan_loop lib spec cand skeleton bodies text_of make_hit b last_key [] = (b, last_key)"
| "scan_loop lib spec cand skeleton bodies text_of make_hit b last_key (r # rs) =
     (let c = cand r; loaded = bodies (cd_key c);
          bdy = (if admissible spec c then map_option text_of loaded else None)
      in case builder_step lib spec b c bdy (make_hit r loaded) (skeleton (cd_key c)) of
           (b', Consumed) \<Rightarrow>
             scan_loop lib spec cand skeleton bodies text_of make_hit b' (Some (cd_key c)) rs
         | (b', StopBefore reason) \<Rightarrow> (b'\<lparr>pb_stop_reason := reason\<rparr>, last_key))"

definition assemble_page ::
  "SearchLib \<Rightarrow> string \<Rightarrow> LedgerSearchRequest \<Rightarrow> Spec \<Rightarrow> ('r \<Rightarrow> 'k Candidate) \<Rightarrow> ('k \<Rightarrow> CursorKey) \<Rightarrow>
   ('k list \<Rightarrow> 'k \<Rightarrow> 'b option) \<Rightarrow> ('b \<Rightarrow> string) \<Rightarrow>
   ('r \<Rightarrow> 'b option \<Rightarrow> string \<Rightarrow> nat \<Rightarrow> string \<Rightarrow> nat \<Rightarrow> LedgerSearchHit) \<Rightarrow> string \<Rightarrow>
   'k \<Rightarrow> 'k option \<Rightarrow> 'r list \<Rightarrow> LedgerSearchPage answered" where
  "assemble_page lib actor q spec cand wrap load text_of make_hit consistency upper before fetched =
     (let witness = CANDIDATES_PER_PAGE < length fetched;
          rows = take (min (length fetched) CANDIDATES_PER_PAGE) fetched
      in case select_prefix spec (map cand rows) of
        (prefix, to_load, byte_stop) \<Rightarrow>
          (case scan_loop lib spec cand
                  (\<lambda>k. skeleton_size lib spec (search_cursor lib actor q spec (wrap upper) (wrap k)))
                  (load to_load) text_of make_hit new_builder before (take prefix rows) of
             (b, last_key) \<Rightarrow>
               (let b = (if pb_consumed b = prefix then
                           (if byte_stop then b\<lparr>pb_stop_reason := ''byte_budget''\<rparr>
                            else if witness then b\<lparr>pb_stop_reason := ''scan_budget''\<rparr> else b)
                         else b);
                    has_more = (pb_stop_reason b \<noteq> ''exhausted'')
                in if has_more then
                     (case encode_cursor lib (search_cursor lib actor q spec (wrap upper)
                             (wrap (case last_key of Some k \<Rightarrow> k | None \<Rightarrow> upper))) of
                        Inl e \<Rightarrow> Inl e
                      | Inr text \<Rightarrow> Inr (finish_page spec b True (Some text) consistency))
                   else Inr (finish_page spec b False None consistency))))"

section \<open>The search\<close>

definition message_candidate :: "string \<Rightarrow> MessageCandidate \<Rightarrow> MessageKey Candidate" where
  "message_candidate actor r =
     \<lparr>cd_key = mc_key r, cd_author = mc_sender r,
      cd_peer = Some (if mc_sender r = actor then mk_target (mc_key r) else mc_sender r),
      cd_ts = mk_ts (mc_key r), cd_body_bytes = mc_body_bytes r\<rparr>"

definition message_hit ::
  "MessageCandidate \<Rightarrow> LedgerRow option \<Rightarrow> string \<Rightarrow> nat \<Rightarrow> string \<Rightarrow> nat \<Rightarrow> LedgerSearchHit" where
  "message_hit r loaded text offset digest bytes =
     HitMessage (mk_id (mc_key r)) (mk_target (mc_key r))
       (case loaded of Some l \<Rightarrow> lg_sender l | None \<Rightarrow> mc_sender r) (mk_ts (mc_key r)) text offset digest bytes"

definition search_messages ::
  "SearchLib \<Rightarrow> Db \<Rightarrow> string \<Rightarrow> LedgerSearchRequest \<Rightarrow> Spec \<Rightarrow> LedgerSearchPage answered" where
  "search_messages lib db actor q spec =
     (let page = (\<lambda>upper before.
            case message_candidates db actor (sp_window spec) upper before of
              Inl e \<Rightarrow> Inl e
            | Inr rows \<Rightarrow>
                assemble_page lib actor q spec (message_candidate actor) KeyMessage
                  (message_bodies db actor) lg_body message_hit ''live_bounded'' upper before rows)
      in case lq_cursor q of
           Some text \<Rightarrow>
             (case decode_cursor lib text actor q of
                Inl e \<Rightarrow> Inl e
              | Inr c \<Rightarrow>
                  (case (cv_upper c, cv_before c) of
                     (KeyMessage upper, KeyMessage before) \<Rightarrow> page upper (Some before)
                   | _ \<Rightarrow> Inl ''invalid_cursor''))
         | None \<Rightarrow>
             (case message_upper_bound db actor (sp_window spec) of
                Inl e \<Rightarrow> Inl e
              | Inr (Some upper) \<Rightarrow> page upper None
              | Inr None \<Rightarrow> Inr (finish_page spec new_builder False None ''live_bounded'')))"

definition thread_candidate :: "ThreadCandidate \<Rightarrow> nat Candidate" where
  "thread_candidate r =
     \<lparr>cd_key = tc_seq r, cd_author = tc_author_id r, cd_peer = None, cd_ts = tc_created_at r,
      cd_body_bytes = tc_body_bytes r\<rparr>"

definition thread_hit ::
  "string \<Rightarrow> ThreadCandidate \<Rightarrow> string option \<Rightarrow> string \<Rightarrow> nat \<Rightarrow> string \<Rightarrow> nat \<Rightarrow> LedgerSearchHit" where
  "thread_hit thread_id r loaded text offset digest bytes =
     HitThreadEntry thread_id (tc_seq r) (tc_message_id r) (tc_author_id r) (tc_created_at r) text offset
       digest bytes"

definition search_thread ::
  "SearchLib \<Rightarrow> ThreadTables \<Rightarrow> string \<Rightarrow> LedgerSearchRequest \<Rightarrow> Spec \<Rightarrow> LedgerSearchPage answered" where
  "search_thread lib td actor q spec =
     (let thread_id = the (sp_thread_id spec);
          cursor = (case lq_cursor q of
                      Some text \<Rightarrow> map_sum (\<lambda>e. e) Some (decode_cursor lib text actor q)
                    | None \<Rightarrow> Inr None)
      in case cursor of
        Inl e \<Rightarrow> Inl e
      | Inr cursor \<Rightarrow>
          if \<not> td_ready td then Inl ''capability_unavailable''
          else case load_thread_for_member td thread_id actor of
            None \<Rightarrow> Inl ''not_found_or_forbidden''
          | Some last_seq \<Rightarrow>
              (case (case cursor of
                       Some c \<Rightarrow>
                         (case (cv_upper c, cv_before c) of
                            (KeySeq upper, KeySeq before) \<Rightarrow> Inr (min upper last_seq, Some before)
                          | _ \<Rightarrow> Inl ''invalid_cursor'')
                     | None \<Rightarrow> Inr (last_seq, None)) of
                 Inl e \<Rightarrow> Inl e
               | Inr (upper, before) \<Rightarrow>
                   if upper = 0
                   then Inr (finish_page spec new_builder False None ''immutable_upper_bound'')
                   else assemble_page lib actor q spec thread_candidate KeySeq
                     (thread_bodies td thread_id) (\<lambda>b. b) (thread_hit thread_id) ''immutable_upper_bound''
                     upper before (thread_candidates td thread_id (sp_window spec) upper before)))"

definition search_on ::
  "SearchLib \<Rightarrow> Db \<Rightarrow> ThreadTables \<Rightarrow> string \<Rightarrow> LedgerSearchRequest \<Rightarrow> LedgerSearchPage answered" where
  "search_on lib db td actor q =
     (case validate_search lib q of
        Inl e \<Rightarrow> Inl e
      | Inr spec \<Rightarrow>
          (case sp_source spec of
             SourceMessages \<Rightarrow> search_messages lib db actor q spec
           | SourceThread \<Rightarrow> search_thread lib td actor q spec))"

section \<open>Reading a message again\<close>

record LedgerReadRequest =
  rr_id :: string
  rr_target :: string
  rr_offset :: nat
  rr_digest :: "string option"

record LedgerReadFragment =
  rf_id :: string
  rf_target :: string
  rf_sender :: string
  rf_ts :: int
  rf_body_bytes :: nat
  rf_digest :: string
  rf_fragment :: string
  rf_next_offset :: "nat option"

definition validate_read :: "LedgerReadRequest \<Rightarrow> unit answered" where
  "validate_read r =
     (if rr_id r = [] \<or> MAX_METADATA_BYTES < length (rr_id r) then Inl ''invalid_params''
      else if rr_target r = [] \<or> MAX_METADATA_BYTES < length (rr_target r) then Inl ''invalid_params''
      else case rr_digest r of
        Some d \<Rightarrow> if length d \<noteq> 64 \<or> \<not> list_all is_lower_hex d then Inl ''invalid_params'' else Inr ()
      | None \<Rightarrow> if 0 < rr_offset r then Inl ''invalid_params'' else Inr ())"

definition read_fragment :: "SearchLib \<Rightarrow> Db \<Rightarrow> string \<Rightarrow> LedgerReadRequest \<Rightarrow> LedgerReadFragment answered" where
  "read_fragment lib db actor r =
     (case message_head db actor (rr_id r) (rr_target r) of
        None \<Rightarrow> Inl ''not_found_or_forbidden''
      | Some (sender, ts, body_bytes) \<Rightarrow>
          if MAX_BODY_BYTES < body_bytes then Inl ''source_too_large''
          else case message_body db actor (rr_id r) (rr_target r) of
            None \<Rightarrow> Inl ''not_found_or_forbidden''
          | Some bdy \<Rightarrow>
              (let digest = sl_sha256_hex lib bdy; offset = rr_offset r
               in if (case rr_digest r of Some expected \<Rightarrow> expected \<noteq> digest | None \<Rightarrow> False)
                  then Inl ''content_changed''
                  else if length bdy < offset \<or> \<not> is_char_boundary bdy offset then Inl ''invalid_params''
                  else let stop = floor_char_boundary bdy (min (offset + READ_FRAGMENT_BYTES) (length bdy))
                       in Inr \<lparr>rf_id = rr_id r, rf_target = rr_target r, rf_sender = sender, rf_ts = ts,
                            rf_body_bytes = length bdy, rf_digest = digest,
                            rf_fragment = drop offset (take stop bdy),
                            rf_next_offset = (if stop < length bdy then Some stop else None)\<rparr>))"

definition read_on :: "SearchLib \<Rightarrow> Db \<Rightarrow> string \<Rightarrow> LedgerReadRequest \<Rightarrow> LedgerReadFragment answered" where
  "read_on lib db actor r =
     (case validate_read r of Inl e \<Rightarrow> Inl e | Inr _ \<Rightarrow> read_fragment lib db actor r)"

end
