(* ===== verification/Ledger_Paging.thy ===== *)
theory Ledger_Paging
  imports Ledger_Search
begin

text \<open>
  Following the pages of a search and the fragments of a message. A paged source answers a
  cursor with the results of the next items and the cursor that stands after them; its client
  asks until there is no cursor. The locale proves once that the client ends and has received
  the result of every item in order; it is interpreted for the search in the messages, for the
  search in a thread and for the fragments of a message.
\<close>

section \<open>Paged sources\<close>

text \<open>The client: it keeps asking with the cursor it was given. No fuel left is \<open>None\<close>.\<close>

fun follow_pages :: "('c option \<Rightarrow> 'e + 'h list \<times> 'c option) \<Rightarrow> nat \<Rightarrow> 'c option \<Rightarrow> ('e + 'h list) option" where
  "follow_pages page 0 c = None"
| "follow_pages page (Suc n) c =
     (case page c of
        Inl e \<Rightarrow> Some (Inl e)
      | Inr (hs, None) \<Rightarrow> Some (Inr hs)
      | Inr (hs, Some c') \<Rightarrow> map_option (map_sum (\<lambda>e. e) (\<lambda>rest. hs @ rest)) (follow_pages page n (Some c')))"

locale paged_source =
  fixes page :: "'s \<Rightarrow> 'c option \<Rightarrow> 'e + 'h list \<times> 'c option"
    and items :: "'s \<Rightarrow> 'i list"
    and result :: "'s \<Rightarrow> 'i \<Rightarrow> 'h list"
    and ready :: "'s \<Rightarrow> bool"
    and stands :: "'s \<Rightarrow> 'c option \<Rightarrow> nat \<Rightarrow> bool"
  assumes start: "ready s \<Longrightarrow> stands s None 0"
    and advance: "ready s \<Longrightarrow> stands s c p \<Longrightarrow> p \<le> length (items s) \<Longrightarrow>
      \<exists>k next. page s c = Inr (concat (map (result s) (take k (drop p (items s)))), next) \<and>
        (case next of
           None \<Rightarrow> length (items s) \<le> p + k
         | Some c' \<Rightarrow> 0 < k \<and> p + k \<le> length (items s) \<and> stands s (Some c') (p + k))"
begin

lemma follow_from:
  assumes "ready s" "stands s c p" "p \<le> length (items s)" "length (items s) - p < n"
  shows "follow_pages (page s) n c = Some (Inr (concat (map (result s) (drop p (items s)))))"
  using assms
proof (induction n arbitrary: c p)
  case 0
  thus ?case by simp
next
  case (Suc n)
  obtain k nxt where page: "page s c = Inr (concat (map (result s) (take k (drop p (items s)))), nxt)"
    and nxt: "case nxt of None \<Rightarrow> length (items s) \<le> p + k
       | Some c' \<Rightarrow> 0 < k \<and> p + k \<le> length (items s) \<and> stands s (Some c') (p + k)"
    using advance [OF Suc.prems(1-3)] by blast
  have split: "concat (map (result s) (drop p (items s))) =
      concat (map (result s) (take k (drop p (items s)))) @ concat (map (result s) (drop (p + k) (items s)))"
    by (metis add.commute append_take_drop_id concat_append drop_drop map_append)
  show ?case
  proof (cases nxt)
    case None
    thus ?thesis using page nxt split by simp
  next
    case (Some c')
    hence c': "0 < k" "p + k \<le> length (items s)" "stands s (Some c') (p + k)"
      using nxt by auto
    have "follow_pages (page s) n (Some c') = Some (Inr (concat (map (result s) (drop (p + k) (items s)))))"
      using c' Suc.prems by (intro Suc.IH) auto
    thus ?thesis using page Some split by simp
  qed
qed

lemma follow_all:
  assumes "ready s"
  shows "follow_pages (page s) (Suc (length (items s))) None = Some (Inr (concat (map (result s) (items s))))"
  using follow_from [OF assms start [OF assms], of "Suc (length (items s))"] by (simp del: follow_pages.simps)

end

section \<open>The fragments of a message\<close>

text \<open>A client of \<open>read\<close>: its cursor is the offset to resume from and the digest of the body.\<close>

type_synonym read_source = "SearchLib \<times> Db \<times> string \<times> string \<times> string"

definition read_page :: "read_source \<Rightarrow> (nat \<times> string) option \<Rightarrow> string + string \<times> (nat \<times> string) option" where
  "read_page src c =
     (case src of (lib, db, actor, mid, target) \<Rightarrow>
        map_sum (\<lambda>e. e) (\<lambda>f. (rf_fragment f, map_option (\<lambda>off. (off, rf_digest f)) (rf_next_offset f)))
          (read_on lib db actor
             \<lparr>rr_id = mid, rr_target = target, rr_offset = (case c of None \<Rightarrow> 0 | Some (off, _) \<Rightarrow> off),
              rr_digest = map_option snd c\<rparr>))"

definition read_items :: "read_source \<Rightarrow> string" where
  "read_items src = (case src of (lib, db, actor, mid, target) \<Rightarrow>
     case message_body db actor mid target of Some bdy \<Rightarrow> bdy | None \<Rightarrow> [])"

text \<open>
  What the reader relies on: the key is one that \<open>read\<close> accepts, the message is visible to the
  actor, its body is a Rust \<open>String\<close> of at most 16 MiB and its digest is printed as 64
  lower-case hexadecimal digits.
\<close>

definition read_ready :: "read_source \<Rightarrow> bool" where
  "read_ready src = (case src of (lib, db, actor, mid, target) \<Rightarrow>
     mid \<noteq> [] \<and> length mid \<le> MAX_METADATA_BYTES \<and> target \<noteq> [] \<and> length target \<le> MAX_METADATA_BYTES \<and>
     (case message_body db actor mid target of
        None \<Rightarrow> False
      | Some bdy \<Rightarrow> length bdy \<le> MAX_BODY_BYTES \<and> utf8_valid (map byte bdy) \<and>
          length (sl_sha256_hex lib bdy) = 64 \<and> list_all is_lower_hex (sl_sha256_hex lib bdy)))"

definition read_stands :: "read_source \<Rightarrow> (nat \<times> string) option \<Rightarrow> nat \<Rightarrow> bool" where
  "read_stands src c p = (case c of
     None \<Rightarrow> p = 0
   | Some (off, digest) \<Rightarrow> off = p \<and> is_char_boundary (read_items src) p \<and>
       digest = sl_sha256_hex (fst src) (read_items src))"

lemma floor_loop_le: "floor_loop s i \<le> i"
  by (induction i) auto

lemma floor_loop_boundary: "is_char_boundary s (floor_loop s i)"
  by (induction i) (auto simp: is_char_boundary_def)

lemma floor_loop_ge: "is_char_boundary s j \<Longrightarrow> j \<le> i \<Longrightarrow> j \<le> floor_loop s i"
  by (induction i) (auto simp: le_Suc_eq)

text \<open>A character of a Rust \<open>String\<close> has at most four bytes.\<close>

lemma utf8_valid_head: "utf8_valid (a # s) \<Longrightarrow> a div 64 \<noteq> 2"
  by (cases "a < 128"; cases "194 \<le> a") auto

lemma utf8_valid_char:
  assumes "utf8_valid bs" "bs \<noteq> []"
  obtains n where "0 < n" "n \<le> 4" "n \<le> length bs" "utf8_valid (drop n bs)"
proof -
  obtain a s where bs: "bs = a # s" using assms(2) by (cases bs) auto
  consider (one) "a < 128" | (two) "194 \<le> a" "a \<le> 223" | (three) "224 \<le> a" "a \<le> 239"
    | (four) "240 \<le> a" "a \<le> 244"
    using assms(1) by (auto simp: bs split: if_splits)
  thus thesis
  proof cases
    case one
    thus thesis using that [of 1] assms(1) by (simp add: bs)
  next
    case two
    then obtain b t where "s = b # t" using assms(1) by (cases s) (auto simp: bs)
    thus thesis using that [of 2] assms(1) two by (simp add: bs)
  next
    case three
    then obtain b c t where "s = b # c # t"
      using assms(1) by (cases s; cases "tl s") (auto simp: bs)
    thus thesis using that [of 3] assms(1) three by (simp add: bs)
  next
    case four
    then obtain b c d t where "s = b # c # d # t"
      using assms(1) by (cases s; cases "tl s"; cases "tl (tl s)") (auto simp: bs)
    thus thesis using that [of 4] assms(1) four by (simp add: bs)
  qed
qed

lemma utf8_not_four_continuations:
  assumes "utf8_valid bs" "i + 4 \<le> length bs"
  shows "\<exists>d < 4. bs ! (i + d) div 64 \<noteq> 2"
  using assms
proof (induction "length bs" arbitrary: bs i rule: less_induct)
  case less
  have ne: "bs \<noteq> []" using less.prems by auto
  from utf8_valid_char [OF less.prems(1) ne] obtain n
    where n: "0 < n" "n \<le> 4" "n \<le> length bs" "utf8_valid (drop n bs)" .
  show ?case
  proof (cases "n \<le> i")
    case True
    have "\<exists>d < 4. drop n bs ! ((i - n) + d) div 64 \<noteq> 2"
      using less.prems n True by (intro less.hyps) auto
    thus ?thesis using True n by (auto simp: nth_drop)
  next
    case False
    define m where "m = (if i = 0 then 0 else n)"
    have "utf8_valid (drop m bs)" "m < length bs" "i \<le> m" "m < i + 4"
      using less.prems n False ne by (auto simp: m_def)
    hence "bs ! m div 64 \<noteq> 2"
      using utf8_valid_head by (metis Cons_nth_drop_Suc)
    thus ?thesis using \<open>i \<le> m\<close> \<open>m < i + 4\<close> by (intro exI [of _ "m - i"]) auto
  qed
qed

lemma floor_char_boundary_progress:
  assumes "utf8_valid (map byte s)" "off < length s"
  shows "off < floor_char_boundary s (min (off + READ_FRAGMENT_BYTES) (length s))"
proof (cases "off + 5 \<le> length s")
  case True
  hence "\<exists>d < 4. map byte s ! (off + 1 + d) div 64 \<noteq> 2"
    by (intro utf8_not_four_continuations [OF assms(1)]) simp
  then obtain d where d: "d < 4" "map byte s ! (off + 1 + d) div 64 \<noteq> 2" by blast
  hence "is_char_boundary s (off + 1 + d)"
    using True by (auto simp: is_char_boundary_def is_continuation_def)
  from floor_loop_ge [OF this, of "min (off + READ_FRAGMENT_BYTES) (length s)"] show ?thesis
    using d True by (simp add: floor_char_boundary_def READ_FRAGMENT_BYTES_def)
next
  case False
  have "is_char_boundary s (length s)" by (simp add: is_char_boundary_def)
  from floor_loop_ge [OF this, of "length s"] show ?thesis
    using False assms(2) by (simp add: floor_char_boundary_def READ_FRAGMENT_BYTES_def min_absorb2)
qed

lemma floor_char_boundary_le: "i \<le> length s \<Longrightarrow> floor_char_boundary s i \<le> length s"
  using floor_loop_le [of s i] by (simp add: floor_char_boundary_def min_absorb1)

lemma read_page_step:
  assumes "read_ready src" "read_stands src c p" "p \<le> length (read_items src)"
  defines "stop \<equiv> floor_char_boundary (read_items src) (min (p + READ_FRAGMENT_BYTES) (length (read_items src)))"
  shows "read_page src c = Inr (drop p (take stop (read_items src)),
    if stop < length (read_items src) then Some (stop, sl_sha256_hex (fst src) (read_items src)) else None)"
proof -
  obtain lib db actor mid target where src: "src = (lib, db, actor, mid, target)" by (cases src)
  have b0: "is_char_boundary s 0" for s by (simp add: is_char_boundary_def)
  from assms(1) obtain bdy where "message_body db actor mid target = Some bdy"
    by (auto simp: src read_ready_def split: option.splits)
  moreover from this obtain l where "sql_row (participant_row actor mid target) (db_ledger db) = Some l" "lg_body l = bdy"
    by (auto simp: message_body_def)
  ultimately show ?thesis
    using assms b0
    by (cases c) (auto simp: src read_ready_def read_stands_def read_page_def read_items_def read_on_def
        validate_read_def read_fragment_def message_head_def Let_def)
qed

interpretation fragments: paged_source read_page read_items "\<lambda>_ c. [c]" read_ready read_stands
proof
  show "read_stands s None 0" for s by (simp add: read_stands_def)
next
  fix s c p
  assume a: "read_ready s" "read_stands s c p" "p \<le> length (read_items s)"
  let ?b = "read_items s"
  define stop where "stop = floor_char_boundary ?b (min (p + READ_FRAGMENT_BYTES) (length ?b))"
  have stop: "stop \<le> length ?b" "is_char_boundary ?b stop"
    by (simp_all add: stop_def floor_char_boundary_le)
      (simp add: floor_loop_boundary floor_char_boundary_def)
  have prog: "p < stop" if "p < length ?b"
    using floor_char_boundary_progress [of ?b p] that a(1)
    by (auto simp: stop_def read_ready_def read_items_def split: option.splits)
  have "stop = length ?b" if "p = length ?b"
    using floor_loop_ge [of ?b "length ?b" "length ?b"] stop(1) that
    by (simp add: stop_def floor_char_boundary_def min_absorb2 is_char_boundary_def)
  note prog = prog this
  have "concat (map (\<lambda>c. [c]) xs) = xs" for xs :: string by (induction xs) auto
  hence "read_page s c = Inr (concat (map (\<lambda>c. [c]) (take (stop - p) (drop p ?b))),
      if stop < length ?b then Some (stop, sl_sha256_hex (fst s) ?b) else None)"
    using read_page_step [OF a] by (simp add: stop_def drop_take)
  moreover have "if stop < length ?b then p < stop else length ?b \<le> p + (stop - p)"
    using prog stop a(3) by (cases "p < length ?b") auto
  ultimately show "\<exists>k next. read_page s c = Inr (concat (map (\<lambda>c. [c]) (take k (drop p ?b))), next) \<and>
      (case next of None \<Rightarrow> length ?b \<le> p + k
       | Some c' \<Rightarrow> 0 < k \<and> p + k \<le> length ?b \<and> read_stands s (Some c') (p + k))"
    using stop
    by (intro exI [of _ "stop - p"]
        exI [of _ "if stop < length ?b then Some (stop, sl_sha256_hex (fst s) ?b) else None"])
      (auto simp: read_stands_def split: if_splits)
qed

section \<open>One page of a search\<close>

text \<open>The result of one candidate, whatever page it falls in.\<close>

definition candidate_result ::
  "SearchLib \<Rightarrow> Spec \<Rightarrow> 'k Candidate \<Rightarrow> string option \<Rightarrow>
   (string \<Rightarrow> nat \<Rightarrow> string \<Rightarrow> nat \<Rightarrow> LedgerSearchHit) \<Rightarrow> LedgerSearchHit list" where
  "candidate_result lib spec c bdy make_hit =
     (if MAX_BODY_BYTES < cd_body_bytes c then []
      else case bdy of
        None \<Rightarrow> []
      | Some text \<Rightarrow>
          (case locate_terms lib text (sp_terms spec) of
             None \<Rightarrow> []
           | Some offset \<Rightarrow>
               [make_hit (excerpt text offset EXCERPT_BYTES) offset (sl_sha256_hex lib text) (length text)]))"

lemma builder_step_cases:
  obtains (consumed) b' where "builder_step lib spec b c bdy make_hit sk = (b', Consumed)"
      "pb_hits b' = pb_hits b @ candidate_result lib spec c bdy make_hit"
      "pb_consumed b' = Suc (pb_consumed b)" "pb_stop_reason b' = pb_stop_reason b"
  | (stopped) b' reason where "builder_step lib spec b c bdy make_hit sk = (b', StopBefore reason)"
      "pb_hits b' = pb_hits b" "pb_consumed b' = pb_consumed b" "reason \<noteq> ''exhausted''"
      "sp_limit spec = 0 \<or> pb_hits b \<noteq> []"
proof (cases "builder_step lib spec b c bdy make_hit sk")
  case (Pair b' st)
  show thesis
  proof (cases st)
    case Consumed
    hence "builder_step lib spec b c bdy make_hit sk = (b', Consumed)" using Pair by simp
    moreover from this have "pb_hits b' = pb_hits b @ candidate_result lib spec c bdy make_hit \<and>
        pb_consumed b' = Suc (pb_consumed b) \<and> pb_stop_reason b' = pb_stop_reason b"
      by (auto simp: builder_step_def candidate_result_def builder_consume_def Let_def
          split: if_splits option.splits)
    ultimately show thesis using consumed [of b'] by simp
  next
    case (StopBefore reason)
    hence "builder_step lib spec b c bdy make_hit sk = (b', StopBefore reason)" using Pair by simp
    moreover from this have "pb_hits b' = pb_hits b \<and> pb_consumed b' = pb_consumed b \<and>
        reason \<noteq> ''exhausted'' \<and> (sp_limit spec = 0 \<or> pb_hits b \<noteq> [])"
      by (auto simp: builder_step_def builder_consume_def Let_def split: if_splits option.splits)
    ultimately show thesis using stopped [of b' reason] by simp
  qed
qed

abbreviation row_result where
  "row_result lib spec cand bodies text_of make_hit r \<equiv>
     candidate_result lib spec (cand r)
       (if admissible spec (cand r) then map_option text_of (bodies (cd_key (cand r))) else None)
       (make_hit r (bodies (cd_key (cand r))))"

lemma scan_loop_prefix:
  "\<exists>k b' lk. scan_loop lib spec cand sk bodies text_of make_hit b last_key rs = (b', lk) \<and> k \<le> length rs \<and>
     pb_consumed b' = pb_consumed b + k \<and>
     pb_hits b' = pb_hits b @ concat (map (row_result lib spec cand bodies text_of make_hit) (take k rs)) \<and>
     lk = (if k = 0 then last_key else Some (cd_key (cand (rs ! (k - 1))))) \<and>
     (if k = length rs then pb_stop_reason b' = pb_stop_reason b else pb_stop_reason b' \<noteq> ''exhausted'') \<and>
     (k = 0 \<longrightarrow> rs = [] \<or> sp_limit spec = 0 \<or> pb_hits b \<noteq> [])"
proof (induction rs arbitrary: b last_key)
  case Nil
  show ?case by simp
next
  case (Cons r rs)
  let ?bdy = "if admissible spec (cand r) then map_option text_of (bodies (cd_key (cand r))) else None"
  let ?mk = "make_hit r (bodies (cd_key (cand r)))"
  show ?case
  proof (cases rule: builder_step_cases [of lib spec b "cand r" ?bdy ?mk "sk (cd_key (cand r))"])
    case (consumed b1)
    from Cons.IH [of b1 "Some (cd_key (cand r))"] obtain k b' lk where
      ih: "scan_loop lib spec cand sk bodies text_of make_hit b1 (Some (cd_key (cand r))) rs = (b', lk)"
        "k \<le> length rs" "pb_consumed b' = pb_consumed b1 + k"
        "pb_hits b' = pb_hits b1 @ concat (map (row_result lib spec cand bodies text_of make_hit) (take k rs))"
        "lk = (if k = 0 then Some (cd_key (cand r)) else Some (cd_key (cand (rs ! (k - 1)))))"
        "if k = length rs then pb_stop_reason b' = pb_stop_reason b1 else pb_stop_reason b' \<noteq> ''exhausted''"
      by blast
    show ?thesis
      using consumed ih by (intro exI [of _ "Suc k"] exI [of _ b'] exI [of _ lk]) (auto simp: Let_def nth_Cons')
  next
    case (stopped b1 reason)
    thus ?thesis
      by (intro exI [of _ 0] exI [of _ "b1\<lparr>pb_stop_reason := reason\<rparr>"] exI [of _ last_key]) (auto simp: Let_def)
  qed
qed

lemma select_loop_prefix:
  assumes "select_loop spec n cs = (prefix, to_load, byte_stop)"
  shows "prefix \<le> length cs" "byte_stop \<longleftrightarrow> prefix < length cs" "n < BYTE_BUDGET \<Longrightarrow> cs \<noteq> [] \<Longrightarrow> 0 < prefix"
    "c \<in> set (take prefix cs) \<Longrightarrow> admissible spec c \<Longrightarrow> cd_body_bytes c \<le> MAX_BODY_BYTES \<Longrightarrow> cd_key c \<in> set to_load"
  using assms
  by (induction spec n cs arbitrary: prefix to_load byte_stop rule: select_loop.induct)
    (auto split: if_splits prod.splits)

text \<open>A candidate whose body is not loaded has no result, so the grouped loading loses nothing.\<close>

lemma row_result_loaded:
  assumes "admissible spec (cand r) \<Longrightarrow> cd_body_bytes (cand r) \<le> MAX_BODY_BYTES \<Longrightarrow>
    bodies (cd_key (cand r)) = bodies' (cd_key (cand r))"
  shows "row_result lib spec cand bodies text_of make_hit r = row_result lib spec cand bodies' text_of make_hit r"
  using assms by (cases "admissible spec (cand r) \<and> cd_body_bytes (cand r) \<le> MAX_BODY_BYTES")
    (simp, auto simp: candidate_result_def)

text \<open>
  The selection and the scan of a page together: the scan consumes a prefix of the selected
  rows, which is not empty when there are rows, and knows the key of the last one.
\<close>

lemma scan_selected:
  fixes cand :: "'r \<Rightarrow> 'k Candidate"
  assumes limit: "0 < sp_limit spec"
    and load: "\<And>ks k. k \<in> set ks \<Longrightarrow> load ks k = full k"
    and sel: "select_prefix spec (map cand rows) = (prefix, to_load, byte_stop)"
  shows "\<exists>k b lk. scan_loop lib spec cand sk (load to_load) text_of make_hit new_builder before (take prefix rows) = (b, lk) \<and>
    k \<le> prefix \<and> prefix \<le> length rows \<and> (byte_stop \<longleftrightarrow> prefix < length rows) \<and> pb_consumed b = k \<and>
    pb_hits b = concat (map (row_result lib spec cand full text_of make_hit) (take k rows)) \<and>
    (rows \<noteq> [] \<longrightarrow> 0 < k \<and> lk = Some (cd_key (cand (rows ! (k - 1))))) \<and>
    (pb_stop_reason b = ''exhausted'' \<longleftrightarrow> k = prefix)"
proof -
  note loop = select_loop_prefix [OF sel [unfolded select_prefix_def]]
  have prefix: "prefix \<le> length rows" "byte_stop \<longleftrightarrow> prefix < length rows" "rows \<noteq> [] \<Longrightarrow> 0 < prefix"
    using loop by (auto simp: BYTE_BUDGET_def)
  from scan_loop_prefix [of lib spec cand sk "load to_load" text_of make_hit new_builder before "take prefix rows"]
  obtain k b lk where
    scan: "scan_loop lib spec cand sk (load to_load) text_of make_hit new_builder before (take prefix rows) = (b, lk)"
    and k: "k \<le> prefix" "pb_consumed b = k"
      "lk = (if k = 0 then before else Some (cd_key (cand (take prefix rows ! (k - 1)))))"
      "pb_stop_reason b = ''exhausted'' \<longleftrightarrow> k = prefix" "k = 0 \<Longrightarrow> prefix = 0"
    and hits: "pb_hits b = concat (map (row_result lib spec cand (load to_load) text_of make_hit) (take k (take prefix rows)))"
    using limit prefix(1) by (auto simp: new_builder_def split: if_splits)
  have same: "take k (take prefix rows) = take k rows" using k(1) by (simp add: min_def)
  have "map (row_result lib spec cand (load to_load) text_of make_hit) (take k rows) =
      map (row_result lib spec cand full text_of make_hit) (take k rows)"
  proof (rule map_cong [OF refl], rule row_result_loaded)
    fix r assume "r \<in> set (take k rows)" and e: "admissible spec (cand r)" "cd_body_bytes (cand r) \<le> MAX_BODY_BYTES"
    hence "cand r \<in> set (take prefix (map cand rows))"
      using same by (metis imageI image_set set_take_subset subsetD take_map)
    thus "load to_load (cd_key (cand r)) = full (cd_key (cand r))"
      using load loop(4) e by blast
  qed
  hence "pb_hits b = concat (map (row_result lib spec cand full text_of make_hit) (take k rows))"
    using hits unfolding same by argo
  thus ?thesis using scan k prefix by (intro exI [of _ k] exI [of _ b] exI [of _ lk]) auto
qed

text \<open>
  One page consumes a prefix of the candidates that remain: all of them when it gives no
  cursor, and at least one when it does; the cursor then holds the key of the last of them.
\<close>

lemma assemble_page_step:
  fixes cand :: "'r \<Rightarrow> 'k Candidate"
  assumes limit: "0 < sp_limit spec"
    and enc: "\<And>r. r \<in> set R \<Longrightarrow>
      \<exists>t. encode_cursor lib (search_cursor lib actor q spec (wrap upper) (wrap (cd_key (cand r)))) = Inr t"
    and load: "\<And>ks k. k \<in> set ks \<Longrightarrow> load ks k = full k"
  shows "\<exists>k page. assemble_page lib actor q spec cand wrap load text_of make_hit consistency upper before
      (take FETCH_LIMIT R) = Inr page \<and>
    lp_hits page = concat (map (row_result lib spec cand full text_of make_hit) (take k R)) \<and>
    (case lp_next_cursor page of
       None \<Rightarrow> length R \<le> k
     | Some t \<Rightarrow> 0 < k \<and> k \<le> length R \<and>
         encode_cursor lib (search_cursor lib actor q spec (wrap upper) (wrap (cd_key (cand (R ! (k - 1)))))) = Inr t)"
proof -
  define rows where "rows = take CANDIDATES_PER_PAGE R"
  have rows: "take (min (length (take FETCH_LIMIT R)) CANDIDATES_PER_PAGE) (take FETCH_LIMIT R) = rows"
    "CANDIDATES_PER_PAGE < length (take FETCH_LIMIT R) \<longleftrightarrow> length rows < length R" "length rows \<le> length R"
    "rows = [] \<longleftrightarrow> R = []"
    by (auto simp: rows_def FETCH_LIMIT_def CANDIDATES_PER_PAGE_def min_def)
  obtain prefix to_load byte_stop where sel: "select_prefix spec (map cand rows) = (prefix, to_load, byte_stop)"
    by (cases "select_prefix spec (map cand rows)")
  define sk where "sk = (\<lambda>k. skeleton_size lib spec (search_cursor lib actor q spec (wrap upper) (wrap k)))"
  from scan_selected [where load = load and full = full and lib = lib and sk = sk and text_of = text_of and
      make_hit = make_hit and before = before, OF limit load sel] obtain k b lk where
    scan: "scan_loop lib spec cand sk (load to_load) text_of make_hit new_builder before (take prefix rows) = (b, lk)"
    and k: "k \<le> prefix" "prefix \<le> length rows" "byte_stop \<longleftrightarrow> prefix < length rows" "pb_consumed b = k"
      "rows \<noteq> [] \<longrightarrow> 0 < k \<and> lk = Some (cd_key (cand (rows ! (k - 1))))"
      "pb_stop_reason b = ''exhausted'' \<longleftrightarrow> k = prefix"
    and hits: "pb_hits b = concat (map (row_result lib spec cand full text_of make_hit) (take k rows))"
    by blast
  have "take k rows = take k R" using k(1,2) by (auto simp: rows_def min_def split: if_splits)
  hence hits': "pb_hits b = concat (map (row_result lib spec cand full text_of make_hit) (take k R))"
    using hits by argo
  show ?thesis
  proof (cases "k = prefix \<and> \<not> byte_stop \<and> length rows = length R")
    case True
    thus ?thesis
      using sel scan k hits' rows
      by (intro exI [of _ k]) (auto simp: assemble_page_def sk_def Let_def finish_page_def)
  next
    case False
    hence R: "R \<noteq> []" using k(1-3) rows(3) by auto
    have key: "0 < k" "lk = Some (cd_key (cand (R ! (k - 1))))" "k \<le> length R"
      using k(1,2,5) R rows(3,4) by (auto simp: rows_def)
    obtain t where
      "encode_cursor lib (search_cursor lib actor q spec (wrap upper) (wrap (cd_key (cand (R ! (k - 1)))))) = Inr t"
      using enc [of "R ! (k - 1)"] key by auto
    thus ?thesis
      using False sel scan k hits' rows key
      by (intro exI [of _ k]) (auto simp: assemble_page_def sk_def Let_def finish_page_def)
  qed
qed

section \<open>The cursor\<close>

text \<open>
  What a cursor relies on in the JSON library: its text is read back as the same cursor, is not
  empty and fits in the size that the daemon admits.
\<close>

definition cursor_faithful :: "SearchLib \<Rightarrow> CursorV1 \<Rightarrow> bool" where
  "cursor_faithful lib c \<longleftrightarrow> sl_cursor_json lib c \<noteq> [] \<and> sl_cursor_parse lib (sl_cursor_json lib c) = Some c \<and>
     2 * length (sl_cursor_json lib c) \<le> CURSOR_MAX_BYTES"

lemma byte_char_of [simp]: "byte (char_of n) = n mod 256"
  by (simp add: byte_def)

lemma byte_less [simp]: "byte c < 256"
  by (simp add: byte_def)

lemma char_of_byte [simp]: "char_of (byte c) = c"
  by (simp add: byte_def)

lemma hex_value_digit: "n < 16 \<Longrightarrow> hex_value (hex_nibble n) = n \<and> is_lower_hex (hex_nibble n)"
  by (simp add: hex_value_def hex_nibble_def is_lower_hex_def)

lemma hex_encode_Cons [simp]:
  "hex_encode (c # cs) = hex_nibble (byte c div 16) # hex_nibble (byte c mod 16) # hex_encode cs"
  by (simp add: hex_encode_def)

lemma hex_encode_facts:
  "hex_pairs (hex_encode bytes) = bytes \<and> list_all is_lower_hex (hex_encode bytes) \<and>
   length (hex_encode bytes) = 2 * length bytes"
proof (induction bytes)
  case Nil
  show ?case by (simp add: hex_encode_def)
next
  case (Cons c cs)
  have "byte c div 16 < 16" by (simp add: less_mult_imp_div_less)
  thus ?case using Cons by (simp add: hex_value_digit)
qed

lemma hex_decode_encode: "hex_decode (hex_encode bytes) = Some bytes"
  by (simp add: hex_decode_def hex_encode_facts)

lemma encode_cursor_faithful:
  "cursor_faithful lib c \<Longrightarrow> encode_cursor lib c = Inr (hex_encode (sl_cursor_json lib c))"
  by (simp add: encode_cursor_def cursor_faithful_def hex_encode_facts)

lemma decode_encoded_cursor:
  assumes "cursor_faithful lib c" "encode_cursor lib c = Inr t"
  shows "t \<noteq> []" "length t \<le> CURSOR_MAX_BYTES" "hex_decode t = Some (sl_cursor_json lib c)"
    "sl_cursor_parse lib (sl_cursor_json lib c) = Some c"
  using assms hex_encode_facts [of "sl_cursor_json lib c"]
  by (auto simp: encode_cursor_faithful cursor_faithful_def hex_decode_encode)

lemma fingerprint_cursor [simp]: "fingerprint lib (q\<lparr>lq_cursor := c\<rparr>) = fingerprint lib q"
  by (simp add: fingerprint_def)

lemma validate_cursor [simp]: "validate_search lib (q\<lparr>lq_cursor := c\<rparr>) = validate_search lib q"
  by (simp add: validate_search_def Let_def cong: sum.case_cong if_cong)

lemma search_cursor_cursor [simp]:
  "search_cursor lib actor (q\<lparr>lq_cursor := c\<rparr>) spec u b = search_cursor lib actor q spec u b"
  by (simp add: search_cursor_def)

lemma validate_search_spec:
  assumes "validate_search lib q = Inr spec"
  shows "0 < sp_limit spec" "sp_source spec = lq_source q" "lq_source q = SourceThread \<Longrightarrow> sp_thread_id spec \<noteq> None"
  using assms by (auto simp: validate_search_def Let_def split: if_splits sum.splits)

text \<open>The search as a paged source: the results of a page and the cursor of the next one.\<close>

type_synonym search_source = "SearchLib \<times> Db \<times> ThreadTables \<times> string \<times> LedgerSearchRequest"

definition search_page :: "search_source \<Rightarrow> string option \<Rightarrow> string + LedgerSearchHit list \<times> string option" where
  "search_page src c = (case src of (lib, db, td, actor, q) \<Rightarrow>
     map_sum (\<lambda>e. e) (\<lambda>p. (lp_hits p, lp_next_cursor p)) (search_on lib db td actor (q\<lparr>lq_cursor := c\<rparr>)))"

text \<open>The result of one text.\<close>

definition text_result ::
  "SearchLib \<Rightarrow> Spec \<Rightarrow> string \<Rightarrow> (string \<Rightarrow> nat \<Rightarrow> string \<Rightarrow> nat \<Rightarrow> LedgerSearchHit) \<Rightarrow> LedgerSearchHit list" where
  "text_result lib spec bdy make_hit =
     (if MAX_BODY_BYTES < length bdy then []
      else case locate_terms lib bdy (sp_terms spec) of
        None \<Rightarrow> []
      | Some off \<Rightarrow> [make_hit (excerpt bdy off EXCERPT_BYTES) off (sl_sha256_hex lib bdy) (length bdy)])"

section \<open>Descending rows\<close>

text \<open>Rows in strictly descending order of a key, and what lies under one of them.\<close>

abbreviation descending :: "('a \<Rightarrow> 'b::linorder) \<Rightarrow> 'a list \<Rightarrow> bool" where
  "descending f \<equiv> sorted_wrt (\<lambda>a b. f b < f a)"

lemma descending_rev_sort:
  assumes "distinct (map f xs)"
  shows "descending f (rev (sort_key f xs))"
proof -
  have "distinct (map f (sort_key f xs))"
    using assms by (metis distinct_map distinct_sort set_sort)
  hence "sorted_wrt (<) (map f (sort_key f xs))"
    by (simp add: strict_sorted_iff)
  thus ?thesis by (simp add: sorted_wrt_rev sorted_wrt_map)
qed

lemma descending_filter: "descending f xs \<Longrightarrow> descending f (filter P xs)"
  by (induction xs) auto

lemma descending_below_first:
  assumes "descending f V" "V \<noteq> []"
  shows "filter (\<lambda>x. f x \<le> f (V ! 0)) V = V"
  using assms by (cases V) (auto intro!: filter_True less_imp_le)

lemma descending_below:
  assumes "descending f V" "0 < p" "p \<le> length V"
  shows "filter (\<lambda>x. f x \<le> f (V ! 0) \<and> f x < f (V ! (p - 1))) V = drop p V"
  using assms
proof (induction V arbitrary: p)
  case Nil
  thus ?case by simp
next
  case (Cons v V)
  show ?case
  proof (cases "p = 1")
    case True
    thus ?thesis using Cons.prems by (auto intro!: filter_True less_imp_le)
  next
    case False
    hence p: "0 < p - 1" "p - 1 \<le> length V" "V \<noteq> []" using Cons.prems by auto
    have eq: "f x \<le> f ((v # V) ! 0) \<and> f x < f ((v # V) ! (p - 1)) \<longleftrightarrow>
        f x \<le> f (V ! 0) \<and> f x < f (V ! (p - 1 - 1))" if "x \<in> set V" for x
      using that p Cons.prems by (cases V) (auto simp: nth_Cons' intro: less_imp_le)
    have "f (V ! (p - 2)) < f v" using Cons.prems p by auto
    hence "filter (\<lambda>x. f x \<le> f ((v # V) ! 0) \<and> f x < f ((v # V) ! (p - 1))) (v # V) =
        filter (\<lambda>x. f x \<le> f ((v # V) ! 0) \<and> f x < f ((v # V) ! (p - 1))) V"
      using p by (auto simp: nth_Cons' numeral_2_eq_2)
    also have "\<dots> = filter (\<lambda>x. f x \<le> f (V ! 0) \<and> f x < f (V ! (p - 1 - 1))) V"
      by (rule filter_cong [OF refl eq])
    also have "\<dots> = drop (p - 1) V" using Cons.prems(1) by (intro Cons.IH p) simp
    finally show ?thesis using p by (cases p) auto
  qed
qed

section \<open>The messages\<close>

text \<open>The exchanges of the actor in the window, newest first.\<close>

definition visible_messages :: "Db \<Rightarrow> string \<Rightarrow> DateWindow \<Rightarrow> LedgerRow list" where
  "visible_messages db actor window =
     newest_first (filter (\<lambda>l. (lg_sender l = actor \<or> lg_target l = actor) \<and> in_date_window window (lg_ts l)) (db_ledger db))"

definition message_result :: "SearchLib \<Rightarrow> Spec \<Rightarrow> string \<Rightarrow> LedgerRow \<Rightarrow> LedgerSearchHit list" where
  "message_result lib spec actor l =
     (if (sp_author spec = None \<or> sp_author spec = Some (lg_sender l)) \<and>
         (sp_peer spec = None \<or> sp_peer spec = Some (if lg_sender l = actor then lg_target l else lg_sender l))
      then text_result lib spec (lg_body l) (HitMessage (lg_id l) (lg_target l) (lg_sender l) (lg_ts l))
      else [])"

lemma newest_first_filter: "newest_first (filter P ls) = filter P (newest_first ls)"
  by (simp add: newest_first_def filter_sort rev_filter [symmetric])

abbreviation row_key :: "LedgerRow \<Rightarrow> int \<times> string \<times> string" where
  "row_key l \<equiv> key_triple (ledger_key l)"

lemma visible_messages_descending:
  assumes "distinct (map (\<lambda>l. (lg_id l, lg_target l)) (db_ledger db))"
  shows "descending row_key (visible_messages db actor window)"
proof -
  have "distinct (map row_key (db_ledger db))"
    using assms by (induction "db_ledger db" arbitrary: db)
      (auto simp: distinct_map inj_on_def key_triple_def ledger_key_def)
  thus ?thesis
    unfolding visible_messages_def newest_first_filter
    by (intro descending_filter) (simp add: newest_first_def descending_rev_sort)
qed

text \<open>The merge of the two branches is the order of the whole.\<close>

lemma merge_candidates_order:
  assumes "descending row_key W" "n \<le> a" "n \<le> b"
  shows "merge_candidates n (map candidate_of (take a (filter P W))) (map candidate_of (take b (filter (\<lambda>l. \<not> P l) W))) =
    map candidate_of (take n W)"
  using assms
proof (induction W arbitrary: n a b)
  case Nil
  thus ?case by (cases n) auto
next
  case (Cons w W)
  show ?case
  proof (cases n)
    case 0
    thus ?thesis by simp
  next
    case (Suc m)
    then obtain a' b' where ab: "a = Suc a'" "b = Suc b'" using Cons.prems by (cases a; cases b) auto
    have key: "mc_key (candidate_of l) = ledger_key l" for l by (simp add: candidate_of_def)
    have first: "\<not> page_before (ledger_key l) (ledger_key w)" "page_before (ledger_key w) (ledger_key l)"
      if "l \<in> set W" for l
      using that Cons.prems(1) by (auto simp: page_before_def intro: less_imp_not_less)
    show ?thesis
    proof (cases "P w")
      case True
      have "merge_candidates m (map candidate_of (take a' (filter P W)))
          (map candidate_of (take b (filter (\<lambda>l. \<not> P l) W))) = map candidate_of (take m W)"
        using Cons.prems Suc ab by (intro Cons.IH) auto
      thus ?thesis
        using True Suc ab first(1) [of "hd (filter (\<lambda>l. \<not> P l) W)"]
        by (cases "filter (\<lambda>l. \<not> P l) W") (auto simp: key dest: filter_eq_ConsD)
    next
      case False
      have "merge_candidates m (map candidate_of (take a (filter P W)))
          (map candidate_of (take b' (filter (\<lambda>l. \<not> P l) W))) = map candidate_of (take m W)"
        using Cons.prems Suc ab by (intro Cons.IH) auto
      thus ?thesis
        using False Suc ab first(2) [of "hd (filter P W)"]
        by (cases "filter P W") (auto simp: key dest: filter_eq_ConsD)
    qed
  qed
qed

lemma one_branch_below:
  assumes W: "filter (\<lambda>l. row_key l \<le> key_triple upper \<and>
      (case before of None \<Rightarrow> True | Some b \<Rightarrow> row_key l < key_triple b)) (visible_messages db actor window) = W"
    and small: "\<forall>l \<in> set W. \<not> meta_too_large l"
    and branch: "\<And>l. branch l \<Longrightarrow> lg_sender l = actor \<or> lg_target l = actor"
  shows "one_branch db branch window upper before = Inr (map candidate_of (take FETCH_LIMIT (filter branch W)))"
proof -
  have "candidate_select branch window upper before (db_ledger db) = take FETCH_LIMIT (filter branch W)"
    unfolding candidate_select_def W [symmetric] visible_messages_def newest_first_filter filter_filter
    using branch by (intro arg_cong [of _ _ "take FETCH_LIMIT"] filter_cong) auto
  moreover have "\<not> list_ex meta_too_large (take FETCH_LIMIT (filter branch W))"
    using small by (auto simp: list_ex_iff dest!: in_set_takeD)
  ultimately show ?thesis by (simp add: one_branch_def)
qed

lemma message_candidates_below:
  assumes W: "filter (\<lambda>l. row_key l \<le> key_triple upper \<and>
      (case before of None \<Rightarrow> True | Some b \<Rightarrow> row_key l < key_triple b)) (visible_messages db actor window) = W"
    and small: "\<forall>l \<in> set W. \<not> meta_too_large l"
    and desc: "descending row_key W"
  shows "message_candidates db actor window upper before = Inr (map candidate_of (take FETCH_LIMIT W))"
proof -
  have "l \<in> set W \<Longrightarrow> target_branch actor l \<longleftrightarrow> \<not> sender_branch actor l" for l
    unfolding W [symmetric] by (auto simp: visible_messages_def newest_first_def target_branch_def sender_branch_def)
  hence "filter (target_branch actor) W = filter (\<lambda>l. \<not> sender_branch actor l) W"
    by (rule filter_cong [OF refl])
  moreover have "one_branch db (sender_branch actor) window upper before =
      Inr (map candidate_of (take FETCH_LIMIT (filter (sender_branch actor) W)))"
    using small by (intro one_branch_below [OF W]) (auto simp: sender_branch_def)
  moreover have "one_branch db (target_branch actor) window upper before =
      Inr (map candidate_of (take FETCH_LIMIT (filter (target_branch actor) W)))"
    using small by (intro one_branch_below [OF W]) (auto simp: target_branch_def)
  ultimately show ?thesis
    using merge_candidates_order [OF desc order_refl order_refl] by (simp add: message_candidates_def)
qed

lemma message_upper_bound_first:
  assumes desc: "descending row_key (visible_messages db actor window)"
    and small: "\<forall>l \<in> set (visible_messages db actor window). \<not> meta_too_large l"
  shows "message_upper_bound db actor window =
    Inr (case visible_messages db actor window of [] \<Rightarrow> None | l # _ \<Rightarrow> Some (ledger_key l))"
proof -
  define V where "V = visible_messages db actor window"
  have branch: "newest_first (filter (\<lambda>l. br l \<and> in_date_window window (lg_ts l)) (db_ledger db)) = filter br V"
    if "\<And>l. br l \<Longrightarrow> lg_sender l = actor \<or> lg_target l = actor" for br
    unfolding V_def visible_messages_def newest_first_filter filter_filter using that by (intro filter_cong) auto
  have s: "newest_first (filter (\<lambda>l. sender_branch actor l \<and> in_date_window window (lg_ts l)) (db_ledger db)) =
      filter (sender_branch actor) V"
    by (rule branch) (simp add: sender_branch_def)
  have t: "newest_first (filter (\<lambda>l. target_branch actor l \<and> in_date_window window (lg_ts l)) (db_ledger db)) =
      filter (\<lambda>l. \<not> sender_branch actor l) V"
    by (subst branch) (auto simp: V_def visible_messages_def newest_first_def sender_branch_def target_branch_def
        intro!: filter_cong)
  show ?thesis
  proof (cases V)
    case Nil
    thus ?thesis using s t by (simp add: message_upper_bound_def V_def)
  next
    case (Cons v V')
    have first: "\<not> page_before (ledger_key l) (ledger_key v)" "page_before (ledger_key v) (ledger_key l)"
      if "l \<in> set V'" for l
      using that desc Cons by (auto simp: V_def [symmetric] page_before_def intro: less_imp_not_less)
    have ok: "\<not> meta_too_large l" if "l \<in> set V" for l using that small by (simp add: V_def)
    have mem: "\<not> meta_too_large x \<and> \<not> page_before (ledger_key x) (ledger_key v) \<and>
        page_before (ledger_key v) (ledger_key x)" if e: "filter P V' = x # xs" for P x xs
    proof -
      have "x \<in> set (filter P V')" unfolding e by simp
      thus ?thesis using first ok Cons by simp
    qed
    have "\<not> meta_too_large v" using ok Cons by simp
    thus ?thesis
      using s t Cons mem [of "sender_branch actor"] mem [of "\<lambda>l. \<not> sender_branch actor l"]
      by (cases "sender_branch actor v"; cases "filter (sender_branch actor) V'";
          cases "filter (\<lambda>l. \<not> sender_branch actor l) V'")
        (simp_all add: message_upper_bound_def V_def [symmetric])
  qed
qed

definition messages_ready :: "search_source \<Rightarrow> bool" where
  "messages_ready src = (case src of (lib, db, td, actor, q) \<Rightarrow>
     case validate_search lib q of
       Inl _ \<Rightarrow> False
     | Inr spec \<Rightarrow>
         (let V = visible_messages db actor (sp_window spec)
          in sp_source spec = SourceMessages \<and>
             distinct (map (\<lambda>l. (lg_id l, lg_target l)) (db_ledger db)) \<and>
             list_all (\<lambda>l. key_admissible (ledger_key l) \<and> length (lg_sender l) \<le> MAX_METADATA_BYTES) V \<and>
             list_all (\<lambda>u. list_all (\<lambda>b. cursor_faithful lib (search_cursor lib actor q spec
               (KeyMessage (ledger_key u)) (KeyMessage (ledger_key b)))) V) V))"

definition messages_items :: "search_source \<Rightarrow> LedgerRow list" where
  "messages_items src = (case src of (lib, db, td, actor, q) \<Rightarrow>
     case validate_search lib q of Inl _ \<Rightarrow> [] | Inr spec \<Rightarrow> visible_messages db actor (sp_window spec))"

definition messages_result :: "search_source \<Rightarrow> LedgerRow \<Rightarrow> LedgerSearchHit list" where
  "messages_result src l = (case src of (lib, db, td, actor, q) \<Rightarrow>
     case validate_search lib q of Inl _ \<Rightarrow> [] | Inr spec \<Rightarrow> message_result lib spec actor l)"

definition messages_cursor :: "search_source \<Rightarrow> nat \<Rightarrow> string answered" where
  "messages_cursor src p = (case src of (lib, db, td, actor, q) \<Rightarrow>
     case validate_search lib q of
       Inl e \<Rightarrow> Inl e
     | Inr spec \<Rightarrow> encode_cursor lib (search_cursor lib actor q spec
         (KeyMessage (ledger_key (messages_items src ! 0))) (KeyMessage (ledger_key (messages_items src ! (p - 1))))))"

definition messages_stands :: "search_source \<Rightarrow> string option \<Rightarrow> nat \<Rightarrow> bool" where
  "messages_stands src c p = (case c of
     None \<Rightarrow> p = 0
   | Some t \<Rightarrow> 0 < p \<and> p \<le> length (messages_items src) \<and> messages_cursor src p = Inr t)"

lemma message_bodies_own:
  assumes "distinct (map (\<lambda>l. (lg_id l, lg_target l)) (db_ledger db))" "l \<in> set (db_ledger db)"
    "lg_sender l = actor \<or> lg_target l = actor" "length (lg_body l) \<le> MAX_BODY_BYTES"
  shows "message_bodies db actor [ledger_key l] (ledger_key l) = Some l"
proof -
  have "message_bodies db actor [ledger_key l] (ledger_key l) =
      sql_row (\<lambda>l'. (lg_id l', lg_target l') = (lg_id l, lg_target l) \<and>
        (lg_sender l' = actor \<or> lg_target l' = actor) \<and> length (lg_body l') \<le> MAX_BODY_BYTES) (db_ledger db)"
    by (simp add: message_bodies_def ledger_key_def conj_assoc)
  also have "\<dots> = sql_row (\<lambda>l'. (lg_id l', lg_target l') = (lg_id l, lg_target l)) (db_ledger db)"
    unfolding sql_row_def
  proof (rule find_cong [OF refl])
    fix l' assume "l' \<in> set (db_ledger db)"
    hence "(lg_id l', lg_target l') = (lg_id l, lg_target l) \<Longrightarrow> l' = l"
      using assms(1,2) by (auto simp: distinct_map inj_on_def)
    thus "((lg_id l', lg_target l') = (lg_id l, lg_target l) \<and> (lg_sender l' = actor \<or> lg_target l' = actor) \<and>
        length (lg_body l') \<le> MAX_BODY_BYTES) = ((lg_id l', lg_target l') = (lg_id l, lg_target l))"
      using assms(3,4) by blast
  qed
  also have "\<dots> = Some l"
    using sql_row_unique [OF assms(1,2)] .
  finally show ?thesis .
qed

lemma message_row_result:
  assumes "distinct (map (\<lambda>l. (lg_id l, lg_target l)) (db_ledger db))" "l \<in> set (visible_messages db actor window)"
  shows "row_result lib spec (message_candidate actor) (\<lambda>k. message_bodies db actor [k] k) lg_body message_hit
    (candidate_of l) = message_result lib spec actor l"
proof -
  have l: "l \<in> set (db_ledger db)" "lg_sender l = actor \<or> lg_target l = actor"
    using assms(2) by (auto simp: visible_messages_def newest_first_def)
  have cand: "cd_key (message_candidate actor (candidate_of l)) = ledger_key l"
    "cd_body_bytes (message_candidate actor (candidate_of l)) = length (lg_body l)"
    by (simp_all add: message_candidate_def candidate_of_def)
  have adm: "admissible spec (message_candidate actor (candidate_of l)) \<longleftrightarrow>
      (sp_author spec = None \<or> sp_author spec = Some (lg_sender l)) \<and>
      (sp_peer spec = None \<or> sp_peer spec = Some (if lg_sender l = actor then lg_target l else lg_sender l))"
    by (auto simp: admissible_def message_candidate_def candidate_of_def ledger_key_def split: option.splits)
  show ?thesis
  proof (cases "length (lg_body l) \<le> MAX_BODY_BYTES")
    case True
    have "message_hit (candidate_of l) (Some l) = HitMessage (lg_id l) (lg_target l) (lg_sender l) (lg_ts l)"
      by (auto simp: message_hit_def candidate_of_def ledger_key_def fun_eq_iff)
    thus ?thesis
      using True message_bodies_own [OF assms(1) l True]
      by (simp add: message_result_def candidate_result_def text_result_def cand adm)
  next
    case False
    thus ?thesis by (simp add: message_result_def candidate_result_def text_result_def cand)
  qed
qed

abbreviation messages_step where
  "messages_step lib db actor q spec upper before \<equiv>
     (case message_candidates db actor (sp_window spec) upper before of
        Inl e \<Rightarrow> Inl e
      | Inr rows \<Rightarrow>
          assemble_page lib actor q spec (message_candidate actor) KeyMessage
            (message_bodies db actor) lg_body message_hit ''live_bounded'' upper before rows)"

lemma messages_page_from:
  fixes db :: Db and actor :: string and spec :: Spec and p :: nat
  defines "V \<equiv> visible_messages db actor (sp_window spec)"
  assumes ready: "messages_ready (lib, db, td, actor, q)" "validate_search lib q = Inr spec"
    and V: "V \<noteq> []"
    and W: "filter (\<lambda>l. row_key l \<le> key_triple (ledger_key (V ! 0)) \<and>
      (case before of None \<Rightarrow> True | Some b \<Rightarrow> row_key l < key_triple b)) V = drop p V"
  shows "\<exists>k page. messages_step lib db actor (q\<lparr>lq_cursor := c\<rparr>) spec (ledger_key (V ! 0)) before = Inr page \<and>
    lp_hits page = concat (map (message_result lib spec actor) (take k (drop p V))) \<and>
    (case lp_next_cursor page of
       None \<Rightarrow> length V \<le> p + k
     | Some t \<Rightarrow> 0 < k \<and> p + k \<le> length V \<and> messages_cursor (lib, db, td, actor, q) (p + k) = Inr t)"
proof -
  let ?R = "map candidate_of (drop p V)"
  let ?full = "\<lambda>k. message_bodies db actor [k] k"
  note r = ready [unfolded messages_ready_def Let_def, simplified]
  have facts: "distinct (map (\<lambda>l. (lg_id l, lg_target l)) (db_ledger db))" "\<forall>l \<in> set V. \<not> meta_too_large l"
    "\<forall>u \<in> set V. \<forall>b \<in> set V. cursor_faithful lib (search_cursor lib actor q spec (KeyMessage (ledger_key u))
       (KeyMessage (ledger_key b)))"
    using r by (auto simp: V_def list_all_iff meta_too_large_def key_admissible_def ledger_key_def)
  have desc: "descending row_key (drop p V)"
    using visible_messages_descending [OF facts(1)] by (simp add: V_def sorted_wrt_drop)
  have cands: "message_candidates db actor (sp_window spec) (ledger_key (V ! 0)) before = Inr (take FETCH_LIMIT ?R)"
    using message_candidates_below [OF W [unfolded V_def] _ desc [unfolded V_def]] facts(2)
    by (auto simp: V_def take_map dest: in_set_dropD)
  have key: "cd_key (message_candidate actor (candidate_of l)) = ledger_key l" for l
    by (simp add: message_candidate_def candidate_of_def)
  have enc: "\<exists>t. encode_cursor lib (search_cursor lib actor (q\<lparr>lq_cursor := c\<rparr>) spec (KeyMessage (ledger_key (V ! 0)))
      (KeyMessage (cd_key (message_candidate actor rr)))) = Inr t" if rr: "rr \<in> set ?R" for rr
  proof -
    obtain l where "l \<in> set V" "rr = candidate_of l" using rr by (auto dest: in_set_dropD)
    thus ?thesis using facts(3) V by (simp add: key encode_cursor_faithful)
  qed
  have load: "message_bodies db actor ks k = ?full k" if "k \<in> set ks" for ks k
  proof -
    have "(mk_id k, mk_target k) \<in> set (map (\<lambda>k'. (mk_id k', mk_target k')) ks)" using that by auto
    thus ?thesis by (simp add: message_bodies_def)
  qed
  from assemble_page_step [of spec ?R lib actor "q\<lparr>lq_cursor := c\<rparr>" KeyMessage "ledger_key (V ! 0)"
      "message_candidate actor" "message_bodies db actor" ?full lg_body message_hit "''live_bounded''" before,
      OF validate_search_spec(1) [OF ready(2)] enc load]
  obtain k page where step: "assemble_page lib actor (q\<lparr>lq_cursor := c\<rparr>) spec (message_candidate actor) KeyMessage
      (message_bodies db actor) lg_body message_hit ''live_bounded'' (ledger_key (V ! 0)) before (take FETCH_LIMIT ?R) =
      Inr page"
    and page: "lp_hits page = concat (map (row_result lib spec (message_candidate actor) ?full lg_body message_hit) (take k ?R))"
    "case lp_next_cursor page of None \<Rightarrow> length ?R \<le> k
     | Some t \<Rightarrow> 0 < k \<and> k \<le> length ?R \<and> encode_cursor lib (search_cursor lib actor q spec
         (KeyMessage (ledger_key (V ! 0))) (KeyMessage (cd_key (message_candidate actor (?R ! (k - 1)))))) = Inr t"
    unfolding search_cursor_cursor by blast
  have "map (row_result lib spec (message_candidate actor) ?full lg_body message_hit) (take k ?R) =
      map (message_result lib spec actor) (take k (drop p V))"
    unfolding take_map map_map
  proof (rule map_cong [OF refl])
    fix l assume "l \<in> set (take k (drop p V))"
    hence "l \<in> set (visible_messages db actor (sp_window spec))"
      unfolding V_def by (auto dest!: in_set_takeD in_set_dropD)
    from message_row_result [OF facts(1) this]
    show "(row_result lib spec (message_candidate actor) ?full lg_body message_hit \<circ> candidate_of) l =
        message_result lib spec actor l"
      by (simp only: o_def)
  qed
  hence hits: "lp_hits page = concat (map (message_result lib spec actor) (take k (drop p V)))"
    using page(1) by argo
  show ?thesis
    using step cands page(2) hits ready(2)
    by (intro exI [of _ k] exI [of _ page])
      (auto simp: messages_cursor_def messages_items_def V_def key split: option.splits)
qed

lemma messages_resume:
  assumes ready: "messages_ready (lib, db, td, actor, q)" "validate_search lib q = Inr spec"
    and stands: "messages_stands (lib, db, td, actor, q) (Some t) p"
  defines "V \<equiv> visible_messages db actor (sp_window spec)"
  shows "decode_cursor lib t actor (q\<lparr>lq_cursor := Some t\<rparr>) = Inr (search_cursor lib actor q spec
      (KeyMessage (ledger_key (V ! 0))) (KeyMessage (ledger_key (V ! (p - 1)))))"
proof -
  let ?c = "search_cursor lib actor q spec (KeyMessage (ledger_key (V ! 0))) (KeyMessage (ledger_key (V ! (p - 1))))"
  have p: "0 < p" "p \<le> length V" "encode_cursor lib ?c = Inr t"
    using stands ready(2) by (auto simp: messages_stands_def messages_items_def messages_cursor_def V_def)
  have mem: "V ! 0 \<in> set V" "V ! (p - 1) \<in> set V" using p(1,2) by (auto intro!: nth_mem)
  have facts: "distinct (map (\<lambda>l. (lg_id l, lg_target l)) (db_ledger db))" "sp_source spec = SourceMessages"
      "\<forall>l \<in> set V. key_admissible (ledger_key l)" "\<forall>u \<in> set V. \<forall>b \<in> set V. cursor_faithful lib
        (search_cursor lib actor q spec (KeyMessage (ledger_key u)) (KeyMessage (ledger_key b)))"
    using ready by (auto simp: messages_ready_def Let_def V_def list_all_iff)
  have "cursor_faithful lib ?c" using facts(4) mem by blast
  note dec = decode_encoded_cursor [OF this p(3)]
  have "descending row_key V" using visible_messages_descending [OF facts(1)] by (simp add: V_def)
  hence "row_key (V ! (p - 1)) \<le> row_key (V ! 0)"
    using p(1,2) by (cases "p = 1") (auto simp: sorted_wrt_iff_nth_less intro: less_imp_le)
  hence "\<not> page_before (ledger_key (V ! (p - 1))) (ledger_key (V ! 0))"
    by (simp add: page_before_def not_less)
  thus ?thesis
    using dec facts(2,3) mem validate_search_spec(2) [OF ready(2)]
    by (simp add: decode_cursor_def search_cursor_def)
qed

lemma messages_advance:
  fixes db :: Db and actor :: string and spec :: Spec
  defines "V \<equiv> visible_messages db actor (sp_window spec)"
  assumes s: "s = (lib, db, td, actor, q)" "messages_ready s" "validate_search lib q = Inr spec"
    and V: "V \<noteq> []"
    and eq: "search_messages lib db actor (q\<lparr>lq_cursor := c\<rparr>) spec =
      messages_step lib db actor (q\<lparr>lq_cursor := c\<rparr>) spec (ledger_key (V ! 0)) before"
    and W: "filter (\<lambda>l. row_key l \<le> row_key (V ! 0) \<and>
      (case before of None \<Rightarrow> True | Some b \<Rightarrow> row_key l < key_triple b)) V = drop p V"
  shows "\<exists>k next. search_page s c = Inr (concat (map (messages_result s) (take k (drop p (messages_items s)))), next) \<and>
    (case next of None \<Rightarrow> length (messages_items s) \<le> p + k
     | Some c' \<Rightarrow> 0 < k \<and> p + k \<le> length (messages_items s) \<and> messages_stands s (Some c') (p + k))"
proof -
  have items: "messages_items s = V" "messages_result s = message_result lib spec actor"
    by (auto simp: s messages_items_def messages_result_def V_def fun_eq_iff)
  have source: "sp_source spec = SourceMessages"
    using s by (simp add: messages_ready_def Let_def)
  from messages_page_from [OF s(2) [unfolded s(1)] s(3) V [unfolded V_def] W [unfolded V_def], of c]
  obtain k pg where "search_messages lib db actor (q\<lparr>lq_cursor := c\<rparr>) spec = Inr pg"
    "lp_hits pg = concat (map (message_result lib spec actor) (take k (drop p V)))"
    "case lp_next_cursor pg of None \<Rightarrow> length V \<le> p + k
     | Some t \<Rightarrow> 0 < k \<and> p + k \<le> length V \<and> messages_cursor s (p + k) = Inr t"
    unfolding eq V_def s(1) by blast
  thus ?thesis
    unfolding items
    by (intro exI [of _ k] exI [of _ "lp_next_cursor pg"])
      (auto simp: messages_stands_def items [unfolded s(1)] search_page_def search_on_def s source split: option.splits)
qed

lemma messages_first:
  assumes s: "s = (lib, db, td, actor, q)" "messages_ready s" "validate_search lib q = Inr spec"
  shows "\<exists>k next. search_page s None = Inr (concat (map (messages_result s) (take k (messages_items s))), next) \<and>
    (case next of None \<Rightarrow> length (messages_items s) \<le> k
     | Some c' \<Rightarrow> 0 < k \<and> k \<le> length (messages_items s) \<and> messages_stands s (Some c') k)"
proof -
  define V where "V = visible_messages db actor (sp_window spec)"
  have facts: "distinct (map (\<lambda>l. (lg_id l, lg_target l)) (db_ledger db))" "sp_source spec = SourceMessages"
    "\<forall>l \<in> set V. \<not> meta_too_large l"
    using s by (auto simp: messages_ready_def Let_def list_all_iff V_def meta_too_large_def key_admissible_def
        ledger_key_def)
  have desc: "descending row_key V" using visible_messages_descending [OF facts(1)] by (simp add: V_def)
  note ub = message_upper_bound_first [OF desc [unfolded V_def] facts(3) [unfolded V_def], folded V_def]
  show ?thesis
  proof (cases "V = []")
    case True
    thus ?thesis using ub s facts(2)
      by (intro exI [of _ 0] exI [of _ None])
        (simp add: search_page_def search_on_def messages_items_def search_messages_def finish_page_def
          new_builder_def V_def)
  next
    case False
    then obtain v V' where "V = v # V'" by (cases V) auto
    hence "search_messages lib db actor (q\<lparr>lq_cursor := None\<rparr>) spec =
        messages_step lib db actor (q\<lparr>lq_cursor := None\<rparr>) spec (ledger_key (V ! 0)) None"
      using ub by (simp add: search_messages_def cong: sum.case_cong)
    from messages_advance [OF s False [unfolded V_def] this [unfolded V_def], of 0] show ?thesis
      using descending_below_first [OF desc False] by (simp add: V_def cong: option.case_cong)
  qed
qed

lemma messages_next:
  assumes s: "s = (lib, db, td, actor, q)" "messages_ready s" "validate_search lib q = Inr spec"
    and stands: "messages_stands s (Some t) p"
  shows "\<exists>k next. search_page s (Some t) =
      Inr (concat (map (messages_result s) (take k (drop p (messages_items s)))), next) \<and>
    (case next of None \<Rightarrow> length (messages_items s) \<le> p + k
     | Some c' \<Rightarrow> 0 < k \<and> p + k \<le> length (messages_items s) \<and> messages_stands s (Some c') (p + k))"
proof -
  define V where "V = visible_messages db actor (sp_window spec)"
  have "distinct (map (\<lambda>l. (lg_id l, lg_target l)) (db_ledger db))"
    using s by (auto simp: messages_ready_def Let_def)
  hence desc: "descending row_key V" using visible_messages_descending by (simp add: V_def)
  have p: "0 < p" "p \<le> length V"
    using stands s by (auto simp: messages_stands_def messages_items_def V_def)
  note dec = messages_resume [OF s(2) [unfolded s(1)] s(3) stands [unfolded s(1)], folded V_def]
  show ?thesis
  proof (rule messages_advance [OF s, where before = "Some (ledger_key (V ! (p - 1)))", folded V_def])
    show "V \<noteq> []" using p by auto
    show "search_messages lib db actor (q\<lparr>lq_cursor := Some t\<rparr>) spec = messages_step lib db actor
        (q\<lparr>lq_cursor := Some t\<rparr>) spec (ledger_key (V ! 0)) (Some (ledger_key (V ! (p - 1))))"
      using dec by (simp add: search_messages_def search_cursor_def cong: sum.case_cong)
  qed (use descending_below [OF desc p] in simp)
qed

interpretation message_pages: paged_source search_page messages_items messages_result messages_ready messages_stands
proof
  show "messages_stands s None 0" for s by (simp add: messages_stands_def)
next
  fix s c p
  assume a: "messages_ready s" "messages_stands s c p" "p \<le> length (messages_items s)"
  obtain lib db td actor q where s: "s = (lib, db, td, actor, q)" by (cases s)
  obtain spec where spec: "validate_search lib q = Inr spec"
    using a(1) by (auto simp: s messages_ready_def split: sum.splits)
  show "\<exists>k next. search_page s c = Inr (concat (map (messages_result s) (take k (drop p (messages_items s)))), next) \<and>
        (case next of None \<Rightarrow> length (messages_items s) \<le> p + k
         | Some c' \<Rightarrow> 0 < k \<and> p + k \<le> length (messages_items s) \<and> messages_stands s (Some c') (p + k))"
  proof (cases c)
    case None
    hence "p = 0" using a(2) by (simp add: messages_stands_def)
    thus ?thesis using messages_first [OF s a(1) spec] None by (simp cong: option.case_cong)
  next
    case (Some t)
    thus ?thesis using messages_next [OF s a(1) spec, of t p] a(2) by simp
  qed
qed

section \<open>The threads\<close>

text \<open>The entries of a thread in the window, up to its last sequence number, newest first.\<close>

definition visible_entries :: "ThreadTables \<Rightarrow> string \<Rightarrow> DateWindow \<Rightarrow> nat \<Rightarrow> EntryRow list" where
  "visible_entries td thread_id window last_seq =
     rev (sort_key en_seq (filter (\<lambda>e. en_thread_id e = thread_id \<and> en_seq e \<le> int last_seq \<and>
       in_date_window window (en_created_at e)) (td_entries td)))"

definition entry_result :: "SearchLib \<Rightarrow> Spec \<Rightarrow> string \<Rightarrow> EntryRow \<Rightarrow> LedgerSearchHit list" where
  "entry_result lib spec thread_id e =
     (if sp_author spec = None \<or> sp_author spec = Some (en_author_id e)
      then text_result lib spec (en_body e)
        (HitThreadEntry thread_id (nat (en_seq e)) (en_message_id e) (en_author_id e) (en_created_at e))
      else [])"

definition thread_ready :: "search_source \<Rightarrow> bool" where
  "thread_ready src = (case src of (lib, db, td, actor, q) \<Rightarrow>
     case validate_search lib q of
       Inl _ \<Rightarrow> False
     | Inr spec \<Rightarrow> sp_source spec = SourceThread \<and> td_ready td \<and>
         distinct (map (\<lambda>e. (en_thread_id e, en_seq e)) (td_entries td)) \<and>
         list_all (\<lambda>e. 0 < en_seq e \<and> en_seq e < i64_max) (td_entries td) \<and>
         (case load_thread_for_member td (the (sp_thread_id spec)) actor of
            None \<Rightarrow> False
          | Some last_seq \<Rightarrow> int last_seq \<le> i64_max \<and>
              list_all (\<lambda>e. cursor_faithful lib (search_cursor lib actor q spec (KeySeq last_seq) (KeySeq (nat (en_seq e)))))
                (visible_entries td (the (sp_thread_id spec)) (sp_window spec) last_seq)))"

definition thread_items :: "search_source \<Rightarrow> EntryRow list" where
  "thread_items src = (case src of (lib, db, td, actor, q) \<Rightarrow>
     case validate_search lib q of
       Inl _ \<Rightarrow> []
     | Inr spec \<Rightarrow>
         (case load_thread_for_member td (the (sp_thread_id spec)) actor of
            None \<Rightarrow> []
          | Some last_seq \<Rightarrow> visible_entries td (the (sp_thread_id spec)) (sp_window spec) last_seq))"

definition thread_result :: "search_source \<Rightarrow> EntryRow \<Rightarrow> LedgerSearchHit list" where
  "thread_result src e = (case src of (lib, db, td, actor, q) \<Rightarrow>
     case validate_search lib q of Inl _ \<Rightarrow> [] | Inr spec \<Rightarrow> entry_result lib spec (the (sp_thread_id spec)) e)"

definition thread_stands :: "search_source \<Rightarrow> string option \<Rightarrow> nat \<Rightarrow> bool" where
  "thread_stands src c p = (case src of (lib, db, td, actor, q) \<Rightarrow>
     case c of
       None \<Rightarrow> p = 0
     | Some t \<Rightarrow> 0 < p \<and> p \<le> length (thread_items src) \<and>
         (case validate_search lib q of
            Inl _ \<Rightarrow> False
          | Inr spec \<Rightarrow>
              (case load_thread_for_member td (the (sp_thread_id spec)) actor of
                 None \<Rightarrow> False
               | Some last_seq \<Rightarrow> encode_cursor lib (search_cursor lib actor q spec (KeySeq last_seq)
                   (KeySeq (nat (en_seq (thread_items src ! (p - 1)))))) = Inr t)))"

lemma descending_under:
  assumes "descending f V" "0 < p" "p \<le> length V"
  shows "filter (\<lambda>x. f x < f (V ! (p - 1))) V = drop p V"
proof -
  have "f (V ! (p - 1)) \<le> f (V ! 0)"
    using assms by (cases "p = 1") (auto simp: sorted_wrt_iff_nth_less intro: less_imp_le)
  hence "filter (\<lambda>x. f x < f (V ! (p - 1))) V = filter (\<lambda>x. f x \<le> f (V ! 0) \<and> f x < f (V ! (p - 1))) V"
    by (intro filter_cong) auto
  thus ?thesis using descending_below [OF assms] by simp
qed

lemma visible_entries_descending:
  assumes "distinct (map (\<lambda>e. (en_thread_id e, en_seq e)) (td_entries td))"
  shows "descending en_seq (visible_entries td thread_id window last_seq)"
  unfolding visible_entries_def
  using assms by (intro descending_rev_sort) (auto simp: distinct_map inj_on_def)

lemma visible_entries_below:
  assumes "list_all (\<lambda>e. 0 < en_seq e \<and> en_seq e < i64_max) (td_entries td)" "int last_seq \<le> i64_max"
    and "case before of None \<Rightarrow> True | Some b \<Rightarrow> int b \<le> i64_max"
  shows "thread_candidates td thread_id window last_seq before = map entry_candidate (take FETCH_LIMIT
    (filter (\<lambda>e. case before of None \<Rightarrow> True | Some b \<Rightarrow> en_seq e < int b) (visible_entries td thread_id window last_seq)))"
proof -
  have "filter (\<lambda>e. en_thread_id e = thread_id \<and> en_seq e \<le> as_i64 last_seq \<and>
        en_seq e < (case before of Some q \<Rightarrow> as_i64 q | None \<Rightarrow> i64_max) \<and> in_date_window window (en_created_at e)) (td_entries td) =
      filter (\<lambda>e. case before of None \<Rightarrow> True | Some b \<Rightarrow> en_seq e < int b)
        (filter (\<lambda>e. en_thread_id e = thread_id \<and> en_seq e \<le> int last_seq \<and> in_date_window window (en_created_at e)) (td_entries td))"
    unfolding filter_filter using assms
    by (intro filter_cong) (auto simp: as_i64_id list_all_iff split: option.splits)
  thus ?thesis
    by (simp add: thread_candidates_def visible_entries_def Let_def filter_sort rev_filter [symmetric])
qed

lemma entry_row_result:
  assumes "distinct (map (\<lambda>e. (en_thread_id e, en_seq e)) (td_entries td))"
    "list_all (\<lambda>e. 0 < en_seq e \<and> en_seq e < i64_max) (td_entries td)"
    "e \<in> set (visible_entries td thread_id window last_seq)" "sp_peer spec = None"
  shows "row_result lib spec thread_candidate (\<lambda>k. thread_bodies td thread_id [k] k) (\<lambda>b. b) (thread_hit thread_id)
    (entry_candidate e) = entry_result lib spec thread_id e"
proof -
  have e: "e \<in> set (td_entries td)" "en_thread_id e = thread_id"
    using assms(3) by (auto simp: visible_entries_def)
  hence seq: "as_i64 (nat (en_seq e)) = en_seq e"
    using assms(2) by (auto simp: list_all_iff as_i64_id)
  have "sql_row (\<lambda>e'. en_thread_id e' = thread_id \<and> en_seq e' = en_seq e) (td_entries td) = Some e"
    using sql_row_unique [OF assms(1) e(1)] e(2) by simp
  hence "thread_bodies td thread_id [nat (en_seq e)] (nat (en_seq e)) = Some (en_body e)"
    by (simp add: thread_bodies_def seq)
  moreover have "thread_hit thread_id (entry_candidate e) (Some (en_body e)) =
      HitThreadEntry thread_id (nat (en_seq e)) (en_message_id e) (en_author_id e) (en_created_at e)"
    by (simp add: thread_hit_def entry_candidate_def fun_eq_iff)
  moreover have "admissible spec (thread_candidate (entry_candidate e)) \<longleftrightarrow>
      sp_author spec = None \<or> sp_author spec = Some (en_author_id e)"
    using assms(4) by (auto simp: admissible_def thread_candidate_def entry_candidate_def split: option.splits)
  ultimately show ?thesis
    by (simp add: entry_result_def candidate_result_def text_result_def thread_candidate_def entry_candidate_def)
qed

lemma thread_readyE:
  assumes "thread_ready (lib, db, td, actor, q)"
  obtains spec last_seq where "validate_search lib q = Inr spec"
    "load_thread_for_member td (the (sp_thread_id spec)) actor = Some last_seq"
  using assms by (auto simp: thread_ready_def split: sum.splits option.splits)

lemma thread_ready_facts:
  assumes "thread_ready (lib, db, td, actor, q)" "validate_search lib q = Inr spec"
    "load_thread_for_member td (the (sp_thread_id spec)) actor = Some last_seq"
  defines "V \<equiv> thread_items (lib, db, td, actor, q)"
  shows "lq_source q = SourceThread" "sp_source spec = SourceThread" "sp_peer spec = None" "td_ready td"
    "distinct (map (\<lambda>e. (en_thread_id e, en_seq e)) (td_entries td))"
    "list_all (\<lambda>e. 0 < en_seq e \<and> en_seq e < i64_max) (td_entries td)" "int last_seq \<le> i64_max"
    "V = visible_entries td (the (sp_thread_id spec)) (sp_window spec) last_seq"
    "e \<in> set V \<Longrightarrow> cursor_faithful lib (search_cursor lib actor q spec (KeySeq last_seq) (KeySeq (nat (en_seq e))))"
    "e \<in> set V \<Longrightarrow> 0 < en_seq e \<and> en_seq e < i64_max \<and> en_seq e \<le> int last_seq"
    "thread_result (lib, db, td, actor, q) = entry_result lib spec (the (sp_thread_id spec))"
proof -
  show source: "sp_source spec = SourceThread" using assms by (simp add: thread_ready_def)
  thus "lq_source q = SourceThread" using validate_search_spec(2) [OF assms(2)] by simp
  show "sp_peer spec = None"
    using source assms(2) by (auto simp: validate_search_def Let_def split: if_splits sum.splits)
  show "thread_result (lib, db, td, actor, q) = entry_result lib spec (the (sp_thread_id spec))"
    using assms by (simp add: thread_result_def fun_eq_iff)
  show V: "V = visible_entries td (the (sp_thread_id spec)) (sp_window spec) last_seq"
    using assms by (simp add: thread_items_def)
  show "td_ready td" "distinct (map (\<lambda>e. (en_thread_id e, en_seq e)) (td_entries td))"
    "list_all (\<lambda>e. 0 < en_seq e \<and> en_seq e < i64_max) (td_entries td)" "int last_seq \<le> i64_max"
    "e \<in> set V \<Longrightarrow> cursor_faithful lib (search_cursor lib actor q spec (KeySeq last_seq) (KeySeq (nat (en_seq e))))"
    "e \<in> set V \<Longrightarrow> 0 < en_seq e \<and> en_seq e < i64_max \<and> en_seq e \<le> int last_seq"
    using assms(1-3) by (auto simp: thread_ready_def list_all_iff V visible_entries_def)
qed

lemma thread_page_from:
  fixes lib :: SearchLib and db :: Db and td :: ThreadTables and actor :: string and q :: LedgerSearchRequest
  defines "V \<equiv> thread_items (lib, db, td, actor, q)"
  assumes ready: "thread_ready (lib, db, td, actor, q)" "validate_search lib q = Inr spec"
      "load_thread_for_member td (the (sp_thread_id spec)) actor = Some last_seq"
    and before: "case before of None \<Rightarrow> True | Some b \<Rightarrow> int b \<le> i64_max"
    and W: "filter (\<lambda>e. case before of None \<Rightarrow> True | Some b \<Rightarrow> en_seq e < int b) V = drop p V"
  shows "\<exists>k page. assemble_page lib actor (q\<lparr>lq_cursor := c\<rparr>) spec thread_candidate KeySeq
        (thread_bodies td (the (sp_thread_id spec))) (\<lambda>b. b) (thread_hit (the (sp_thread_id spec)))
        ''immutable_upper_bound'' last_seq before
        (thread_candidates td (the (sp_thread_id spec)) (sp_window spec) last_seq before) = Inr page \<and>
    lp_hits page = concat (map (entry_result lib spec (the (sp_thread_id spec))) (take k (drop p V))) \<and>
    (case lp_next_cursor page of
       None \<Rightarrow> length V \<le> p + k
     | Some t \<Rightarrow> 0 < k \<and> p + k \<le> length V \<and> thread_stands (lib, db, td, actor, q) (Some t) (p + k))"
proof -
  let ?R = "map entry_candidate (drop p V)"
  let ?tid = "the (sp_thread_id spec)"
  let ?full = "\<lambda>k. thread_bodies td ?tid [k] k"
  note f = thread_ready_facts [OF ready, folded V_def]
  note facts = f(3,5-8) f(9)
  have cands: "thread_candidates td ?tid (sp_window spec) last_seq before = take FETCH_LIMIT ?R"
    using visible_entries_below [OF facts(3,4) before] W by (simp add: facts(5) take_map)
  have key: "cd_key (thread_candidate (entry_candidate e)) = nat (en_seq e)" for e
    by (simp add: thread_candidate_def entry_candidate_def)
  have enc: "\<exists>t. encode_cursor lib (search_cursor lib actor (q\<lparr>lq_cursor := c\<rparr>) spec (KeySeq last_seq)
      (KeySeq (cd_key (thread_candidate rr)))) = Inr t" if rr: "rr \<in> set ?R" for rr
  proof -
    obtain e where "e \<in> set V" "rr = entry_candidate e" using rr by (auto dest: in_set_dropD)
    thus ?thesis using facts(6) by (simp add: key encode_cursor_faithful)
  qed
  have load: "thread_bodies td ?tid ks k = ?full k" if "k \<in> set ks" for ks k
    using that by (simp add: thread_bodies_def)
  from assemble_page_step [of spec ?R lib actor "q\<lparr>lq_cursor := c\<rparr>" KeySeq last_seq thread_candidate
      "thread_bodies td ?tid" ?full "\<lambda>b. b" "thread_hit ?tid" "''immutable_upper_bound''" before,
      OF validate_search_spec(1) [OF ready(2)] enc load]
  obtain k page where step: "assemble_page lib actor (q\<lparr>lq_cursor := c\<rparr>) spec thread_candidate KeySeq
      (thread_bodies td ?tid) (\<lambda>b. b) (thread_hit ?tid) ''immutable_upper_bound'' last_seq before (take FETCH_LIMIT ?R) =
      Inr page"
    and page: "lp_hits page = concat (map (row_result lib spec thread_candidate ?full (\<lambda>b. b) (thread_hit ?tid)) (take k ?R))"
    "case lp_next_cursor page of None \<Rightarrow> length ?R \<le> k
     | Some t \<Rightarrow> 0 < k \<and> k \<le> length ?R \<and> encode_cursor lib (search_cursor lib actor q spec
         (KeySeq last_seq) (KeySeq (cd_key (thread_candidate (?R ! (k - 1)))))) = Inr t"
    unfolding search_cursor_cursor by blast
  have "map (row_result lib spec thread_candidate ?full (\<lambda>b. b) (thread_hit ?tid)) (take k ?R) =
      map (entry_result lib spec ?tid) (take k (drop p V))"
    unfolding take_map map_map
  proof (rule map_cong [OF refl])
    fix e assume "e \<in> set (take k (drop p V))"
    hence "e \<in> set (visible_entries td ?tid (sp_window spec) last_seq)"
      unfolding facts(5) by (auto dest!: in_set_takeD in_set_dropD)
    from entry_row_result [OF facts(2,3) this facts(1)]
    show "(row_result lib spec thread_candidate ?full (\<lambda>b. b) (thread_hit ?tid) \<circ> entry_candidate) e =
        entry_result lib spec ?tid e"
      by (simp only: o_def)
  qed
  hence hits: "lp_hits page = concat (map (entry_result lib spec ?tid) (take k (drop p V)))"
    using page(1) by argo
  show ?thesis
    using step cands page(2) hits ready(2,3)
    by (intro exI [of _ k] exI [of _ page])
      (auto simp: thread_stands_def V_def [symmetric] key split: option.splits)
qed

lemma thread_resume:
  assumes ready: "thread_ready (lib, db, td, actor, q)" "validate_search lib q = Inr spec"
      "load_thread_for_member td (the (sp_thread_id spec)) actor = Some last_seq"
    and stands: "thread_stands (lib, db, td, actor, q) (Some t) p"
  defines "V \<equiv> thread_items (lib, db, td, actor, q)"
  shows "decode_cursor lib t actor (q\<lparr>lq_cursor := Some t\<rparr>) =
      Inr (search_cursor lib actor q spec (KeySeq last_seq) (KeySeq (nat (en_seq (V ! (p - 1))))))"
    "0 < last_seq" "0 < p" "p \<le> length V" "0 < en_seq (V ! (p - 1))" "en_seq (V ! (p - 1)) < i64_max"
proof -
  let ?b = "nat (en_seq (V ! (p - 1)))"
  let ?c = "search_cursor lib actor q spec (KeySeq last_seq) (KeySeq ?b)"
  from stands ready(2,3) have p: "0 < p" "p \<le> length V" "encode_cursor lib ?c = Inr t"
    by (auto simp: thread_stands_def V_def)
  have mem: "V ! (p - 1) \<in> set V" using p by simp
  note f = thread_ready_facts [OF ready, folded V_def]
  note facts = f(1,2) f(9) [OF mem] f(10) [OF mem]
  have pos: "0 < ?b" "?b \<le> last_seq" "0 < last_seq" using facts(4) by auto
  show "decode_cursor lib t actor (q\<lparr>lq_cursor := Some t\<rparr>) = Inr ?c"
    using decode_encoded_cursor [OF facts(3) p(3)] facts(1,2) pos
    by (simp add: decode_cursor_def search_cursor_def)
  show "0 < last_seq" "0 < p" "p \<le> length V" "0 < en_seq (V ! (p - 1))" "en_seq (V ! (p - 1)) < i64_max"
    using pos p facts(4) by auto
qed

lemma thread_advance:
  assumes s: "s = (lib, db, td, actor, q)" "thread_ready s" "thread_stands s c p"
  shows "\<exists>k next. search_page s c = Inr (concat (map (thread_result s) (take k (drop p (thread_items s)))), next) \<and>
    (case next of None \<Rightarrow> length (thread_items s) \<le> p + k
     | Some c' \<Rightarrow> 0 < k \<and> p + k \<le> length (thread_items s) \<and> thread_stands s (Some c') (p + k))"
proof -
  note ready = s(2) [unfolded s(1)]
  from thread_readyE [OF ready] obtain spec last_seq where
    spec: "validate_search lib q = Inr spec" "load_thread_for_member td (the (sp_thread_id spec)) actor = Some last_seq" .
  define V where "V = thread_items s"
  note f = thread_ready_facts [OF ready spec, folded s(1) V_def]
  note facts = f(2,4,5,8) and seqs = f(10) and items = V_def [symmetric] f(11)
  have page: "search_page s c = map_sum (\<lambda>e. e) (\<lambda>p. (lp_hits p, lp_next_cursor p))
      (search_thread lib td actor (q\<lparr>lq_cursor := c\<rparr>) spec)"
    by (simp add: s search_page_def search_on_def spec facts)
  define before where "before = (case c of None \<Rightarrow> None | Some _ \<Rightarrow> Some (nat (en_seq (V ! (p - 1)))))"
  have resume: "decode_cursor lib t actor (q\<lparr>lq_cursor := Some t\<rparr>) =
        Inr (search_cursor lib actor q spec (KeySeq last_seq) (KeySeq (nat (en_seq (V ! (p - 1))))))"
      "0 < last_seq" "0 < p" "p \<le> length V" "0 < en_seq (V ! (p - 1))" "en_seq (V ! (p - 1)) < i64_max"
    if "c = Some t" for t
    using thread_resume [OF ready spec, of t p] s(3) that items(1) by (simp_all add: s(1))
  show ?thesis
  proof (cases "last_seq = 0")
    case True
    hence c: "c = None" "p = 0" using resume s(3) by (cases c; simp add: thread_stands_def s(1))+
    have "V = []" using seqs True by (cases V) force+
    thus ?thesis
      using True c spec facts items
      by (intro exI [of _ 0] exI [of _ None]) (simp add: page [unfolded c] search_thread_def finish_page_def new_builder_def)
  next
    case False
    have step: "search_thread lib td actor (q\<lparr>lq_cursor := c\<rparr>) spec =
        assemble_page lib actor (q\<lparr>lq_cursor := c\<rparr>) spec thread_candidate KeySeq
        (thread_bodies td (the (sp_thread_id spec))) (\<lambda>b. b) (thread_hit (the (sp_thread_id spec)))
        ''immutable_upper_bound'' last_seq before
        (thread_candidates td (the (sp_thread_id spec)) (sp_window spec) last_seq before)"
      using False spec facts resume(1)
      by (cases c) (simp_all add: search_thread_def before_def search_cursor_def Let_def)
    have W: "filter (\<lambda>e. case before of None \<Rightarrow> True | Some b \<Rightarrow> en_seq e < int b) V = drop p V"
    proof (cases c)
      case None
      thus ?thesis using s(3) by (simp add: before_def thread_stands_def s(1))
    next
      case (Some t)
      have "descending en_seq V" unfolding facts(4) by (rule visible_entries_descending [OF facts(3)])
      from descending_under [OF this resume(3,4) [OF Some]] show ?thesis
        using resume(5) [OF Some] Some by (simp add: before_def)
    qed
    have "case before of None \<Rightarrow> True | Some b \<Rightarrow> int b \<le> i64_max"
      using resume(5,6) by (cases c) (force simp: before_def)+
    from thread_page_from [OF ready spec this, of p c] W obtain k pg where
      "search_thread lib td actor (q\<lparr>lq_cursor := c\<rparr>) spec = Inr pg"
      "lp_hits pg = concat (map (entry_result lib spec (the (sp_thread_id spec))) (take k (drop p V)))"
      "case lp_next_cursor pg of None \<Rightarrow> length V \<le> p + k
       | Some t \<Rightarrow> 0 < k \<and> p + k \<le> length V \<and> thread_stands s (Some t) (p + k)"
      unfolding step items(1) [unfolded s(1)] s(1) by blast
    thus ?thesis
      unfolding page items by (intro exI [of _ k] exI [of _ "lp_next_cursor pg"]) (auto split: option.splits)
  qed
qed

interpretation thread_pages: paged_source search_page thread_items thread_result thread_ready thread_stands
proof
  show "thread_stands s None 0" for s by (cases s) (simp add: thread_stands_def)
next
  fix s c p
  assume a: "thread_ready s" "thread_stands s c p" "p \<le> length (thread_items s)"
  obtain lib db td actor q where s: "s = (lib, db, td, actor, q)" by (cases s)
  show "\<exists>k next. search_page s c = Inr (concat (map (thread_result s) (take k (drop p (thread_items s)))), next) \<and>
        (case next of None \<Rightarrow> length (thread_items s) \<le> p + k
         | Some c' \<Rightarrow> 0 < k \<and> p + k \<le> length (thread_items s) \<and> thread_stands s (Some c') (p + k))"
    by (rule thread_advance [OF s a(1,2)])
qed

section \<open>Properties\<close>

definition search_ready :: "search_source \<Rightarrow> bool" where
  "search_ready s = (case s of (lib, db, td, actor, q) \<Rightarrow>
     case lq_source q of SourceMessages \<Rightarrow> messages_ready s | SourceThread \<Rightarrow> thread_ready s)"

text \<open>What a search should find: the matching exchanges of the actor, or entries of the thread, newest first.\<close>

definition search_results :: "search_source \<Rightarrow> LedgerSearchHit list" where
  "search_results s = (case s of (lib, db, td, actor, q) \<Rightarrow>
     case lq_source q of
       SourceMessages \<Rightarrow> concat (map (messages_result s) (messages_items s))
     | SourceThread \<Rightarrow> concat (map (thread_result s) (thread_items s)))"

definition search_fuel :: "search_source \<Rightarrow> nat" where
  "search_fuel s = (case s of (lib, db, td, actor, q) \<Rightarrow>
     case lq_source q of
       SourceMessages \<Rightarrow> Suc (length (messages_items s))
     | SourceThread \<Rightarrow> Suc (length (thread_items s)))"

definition demo_key :: "char \<Rightarrow> MessageKey" where
  "demo_key a = (if a = CHR ''1'' then \<lparr>mk_ts = 10, mk_id = ''1'', mk_target = ''bob''\<rparr>
     else \<lparr>mk_ts = 20, mk_id = ''2'', mk_target = ''ann''\<rparr>)"

definition demo_digest :: string where
  "demo_digest = replicate 64 CHR ''0''"

definition demo_lib :: SearchLib where
  "demo_lib =
     \<lparr>sl_cursor_json = (\<lambda>c. case (cv_upper c, cv_before c) of
        (KeyMessage u, KeyMessage b) \<Rightarrow> mk_id u @ mk_id b | _ \<Rightarrow> []),
      sl_cursor_parse = (\<lambda>t. case t of
        [a, b] \<Rightarrow> Some \<lparr>cv_v = 1, cv_actor = ''ann'', cv_fingerprint = demo_digest, cv_source = SourceMessages,
                     cv_upper = KeyMessage (demo_key a), cv_before = KeyMessage (demo_key b)\<rparr>
      | _ \<Rightarrow> None),
      sl_fingerprint_json = (\<lambda>_ _ _ _ _ _ _. []), sl_hit_size = (\<lambda>_. 0), sl_page_size = (\<lambda>_ _. 0),
      sl_sha256_hex = (\<lambda>_. demo_digest), sl_uuid = Some, sl_lowercase = (\<lambda>ch. ch)\<rparr>"

definition demo_request :: LedgerSearchRequest where
  "demo_request = \<lparr>lq_source = SourceMessages, lq_query = ''tea'', lq_author = None, lq_peer = None,
     lq_since = None, lq_until = None, lq_limit = Some 1, lq_cursor = None, lq_thread_id = None\<rparr>"

definition demo_threads :: ThreadTables where
  "demo_threads = \<lparr>td_ready = True, td_threads = [], td_members = [], td_entries = []\<rparr>"

definition demo_ledger :: "LedgerRow list" where
  "demo_ledger =
     [\<lparr>lg_id = ''1'', lg_ts = 10, lg_sender = ''ann'', lg_target = ''bob'', lg_body = ''tea'', lg_conversation_key = []\<rparr>,
      \<lparr>lg_id = ''2'', lg_ts = 20, lg_sender = ''bob'', lg_target = ''ann'', lg_body = ''a tea'', lg_conversation_key = []\<rparr>]"

named_theorems search_eval

declare demo_lib_def [search_eval] demo_request_def [search_eval] validate_search_def [search_eval]
  Let_def [search_eval] uuid_param_def [search_eval] split_whitespace_def [search_eval]
  trim_def [search_eval] trim_start_chars_def [search_eval] trim_end_chars_def [search_eval]
  is_continuation_def [search_eval] byte_def [search_eval]
  code_point_def [search_eval] is_whitespace_def [search_eval] fold_for_search_def [search_eval]
  fold_char_def [search_eval] MAX_QUERY_BYTES_def [search_eval] MAX_TERMS_def [search_eval]
  MAX_LIMIT_def [search_eval] i64_max_def [search_eval] MAX_METADATA_BYTES_def [search_eval]
  key_admissible_def [search_eval] ledger_key_def [search_eval] cursor_faithful_def [search_eval]
  search_cursor_def [search_eval] fingerprint_def [search_eval] demo_key_def [search_eval]
  CURSOR_MAX_BYTES_def [search_eval] locate_terms_def [search_eval] excerpt_def [search_eval]
  starts_with_def [search_eval] folded_len_def [search_eval] EXCERPT_BYTES_def [search_eval]
  floor_char_boundary_def [search_eval] is_char_boundary_def [search_eval] MAX_BODY_BYTES_def [search_eval]

definition demo_search :: search_source where
  "demo_search = (demo_lib, db_empty\<lparr>db_ledger := demo_ledger\<rparr>, demo_threads, ''ann'', demo_request)"

lemma demo_source: "lq_source demo_request = SourceMessages"
  by (simp add: demo_request_def)

lemma demo_validate:
  "validate_search demo_lib demo_request = Inr \<lparr>sp_source = SourceMessages, sp_terms = [''tea''], sp_author = None,
     sp_peer = None, sp_window = \<lparr>dw_since = 0, dw_until = i64_max\<rparr>, sp_limit = 1, sp_thread_id = None\<rparr>"
  by (simp add: search_eval)

lemma demo_visible:
  "visible_messages (db_empty\<lparr>db_ledger := demo_ledger\<rparr>) ''ann'' \<lparr>dw_since = 0, dw_until = i64_max\<rparr> = rev demo_ledger"
  by (simp add: visible_messages_def newest_first_def demo_ledger_def in_date_window_def i64_max_def key_triple_def
      ledger_key_def sort_key_def less_eq_prod_def)

lemma demo_search_ready: "search_ready demo_search"
  unfolding demo_search_def search_ready_def messages_ready_def
  by (simp add: demo_source demo_validate demo_visible Let_def)
    (simp add: demo_request_def demo_ledger_def search_eval)

lemma demo_search_results:
  "search_results demo_search = [HitMessage ''2'' ''ann'' ''bob'' 20 ''tea'' 2 demo_digest 5,
     HitMessage ''1'' ''bob'' ''ann'' 10 ''tea'' 0 demo_digest 3]"
  unfolding demo_search_def search_results_def messages_items_def messages_result_def
  by (simp add: demo_source demo_validate demo_visible)
    (simp add: demo_request_def demo_ledger_def message_result_def text_result_def search_eval)

text \<open>
  C13. Following the cursors of a search on an unchanged database ends, after at most one page
  more than there are candidates, and the results received are exactly the matching exchanges
  that the actor sent or received in the window (or the matching entries of the thread), each
  once and newest first, whatever the limits on the results, on the scanned bytes and on the
  size of a response cut into pages.
\<close>

theorem search_pages_are_complete:
  assumes "search_ready s"
  shows "follow_pages (search_page s) (search_fuel s) None = Some (Inr (search_results s))"
proof (cases s)
  case (fields lib db td actor q)
  thus ?thesis
    using assms message_pages.follow_all [of s] thread_pages.follow_all [of s]
    by (cases "lq_source q") (simp_all add: search_ready_def search_fuel_def search_results_def del: follow_pages.simps)
qed

theorem search_pages_are_complete_witness:
  "search_ready demo_search \<and> follow_pages (search_page demo_search) 3 None =
     Some (Inr [HitMessage ''2'' ''ann'' ''bob'' 20 ''tea'' 2 demo_digest 5,
       HitMessage ''1'' ''bob'' ''ann'' 10 ''tea'' 0 demo_digest 3])"
proof -
  have "search_fuel demo_search = 3"
    by (simp add: search_fuel_def demo_search_def messages_items_def demo_source demo_validate demo_visible)
      (simp add: demo_request_def demo_ledger_def)
  thus ?thesis
    using search_pages_are_complete [OF demo_search_ready] demo_search_ready demo_search_results
    by (simp del: follow_pages.simps)
qed

text \<open>
  C23. A message of at most 16 MiB that the actor may see is read back exactly: asking for the
  next offset with the digest received ends, and the fragments put together are the body, although
  no fragment cuts a character.
\<close>

theorem fragments_restore_body:
  assumes "read_ready (lib, db, actor, mid, target)"
  shows "\<exists>bdy. message_body db actor mid target = Some bdy \<and>
    follow_pages (read_page (lib, db, actor, mid, target)) (Suc (length bdy)) None = Some (Inr bdy)"
proof -
  obtain bdy where bdy: "message_body db actor mid target = Some bdy"
    using assms by (auto simp: read_ready_def split: option.splits)
  have one: "concat (map (\<lambda>c. [c]) xs) = xs" for xs :: string by (induction xs) auto
  show ?thesis
    using fragments.follow_all [OF assms] bdy
    by (simp add: read_items_def one del: follow_pages.simps)
qed

theorem fragments_restore_body_witness:
  "read_ready (demo_lib, db_empty\<lparr>db_ledger := demo_ledger\<rparr>, ''ann'', ''2'', ''ann'') \<and>
   (\<exists>bdy. message_body (db_empty\<lparr>db_ledger := demo_ledger\<rparr>) ''ann'' ''2'' ''ann'' = Some bdy \<and>
     follow_pages (read_page (demo_lib, db_empty\<lparr>db_ledger := demo_ledger\<rparr>, ''ann'', ''2'', ''ann'')) (Suc (length bdy)) None =
       Some (Inr bdy))"
proof -
  have "message_body (db_empty\<lparr>db_ledger := demo_ledger\<rparr>) ''ann'' ''2'' ''ann'' = Some ''a tea''"
    by (simp add: message_body_def demo_ledger_def sql_row_def participant_row_def)
  hence "read_ready (demo_lib, db_empty\<lparr>db_ledger := demo_ledger\<rparr>, ''ann'', ''2'', ''ann'')"
    by (simp add: read_ready_def search_eval demo_digest_def is_lower_hex_def list_all_iff)
  thus ?thesis using fragments_restore_body by blast
qed

end
