(* ===== verification/Reminders.thy ===== *)
theory Reminders
  imports Daemon_Properties
begin

text \<open>
  The reminders of \<open>crates/bridget-daemon/src/daemon.rs\<close>: one tick of
  \<open>collect_reminder_actions\<close> over the replies that are awaited, from the sets it derives of the
  presences to the timeouts it claims in the store. The two parts of that function that do not
  touch the awaited replies, the release of held messages before the loop and their sweep after
  it, are left out, and so is the wake-up of the waiters of a delegation.

  An \<open>Instant\<close> is a number of nanoseconds. What the tick asks of the native delegation
  (\<open>request_frozen_secs\<close> with the quota of the mission, \<open>remote_result_suppresses_reminders\<close>)
  and of the agent tracking (\<open>dormant\<close>) is an argument. The products and sums of \<open>u64\<close> wrap,
  as in a release build. An \<open>Err\<close> of the frozen time is \<open>Inl\<close>.
\<close>

section \<open>State\<close>

record Presence =
  pn_name :: string
  pn_agent_type :: string
  pn_transport :: string
  pn_state :: string
  pn_dnd_until :: "nat option"

record PendingReply =
  pe_msg_id :: string
  pe_from :: string
  pe_from_conn :: string
  pe_to :: string
  pe_target_conn :: string
  pe_timeout_secs :: nat
  pe_created_at :: nat
  pe_frozen_secs :: nat
  pe_escalation_level :: nat
  pe_deferred_level :: "nat option"

datatype ReminderAction =
    RGentle string string string string
  | RFirm string string string string
  | RTimeout string string string string nat "string option"
  | RDeferred string string string nat
  | RPushDeferred string

record ReminderState =
  rs_presences :: "(string \<times> Presence) list"
  rs_conn_instances :: "(string \<times> string) list"
  rs_held_ids :: "string list"
  rs_pending_replies :: "PendingReply list"
  rs_store :: Db

text \<open>What one tick reads outside this state: the clocks and the answers of other components.\<close>

record TickInput =
  ti_now :: nat
  ti_instant :: nat
  ti_now_secs :: int
  ti_dormant :: "string \<Rightarrow> bool"
  ti_frozen :: "string \<Rightarrow> string + (nat \<times> bool) option"
  ti_remote_result :: "string \<Rightarrow> bool"

definition TIMEOUT_GRACE_PERIOD :: nat where "TIMEOUT_GRACE_PERIOD = 30"
definition HUMAN_REPLY_TIMEOUT_SECS :: nat where "HUMAN_REPLY_TIMEOUT_SECS = 24 * 60 * 60"
definition UI_HUMAN_AGENT_ID :: string where "UI_HUMAN_AGENT_ID = ''550e8400-e29b-41d4-a716-4466554400f0''"
definition UI_HUMAN_SENDER :: string where "UI_HUMAN_SENDER = ''humain''"

section \<open>Decisions\<close>

definition effective_reply_timeout :: "nat \<Rightarrow> bool \<Rightarrow> nat" where
  "effective_reply_timeout timeout_secs implique_humain =
     (if implique_humain then max timeout_secs HUMAN_REPLY_TIMEOUT_SECS else timeout_secs)"

definition should_remind :: "bool \<Rightarrow> nat \<Rightarrow> bool" where
  "should_remind target_is_undisturbed escalation_level \<longleftrightarrow> \<not> target_is_undisturbed \<or> 2 \<le> escalation_level"

definition two_thirds :: "nat \<Rightarrow> nat" where
  "two_thirds timeout_secs = (timeout_secs * 2) mod 2 ^ 64 div 3"

definition deferred_reminder_level :: "bool \<Rightarrow> nat \<Rightarrow> nat \<Rightarrow> nat option" where
  "deferred_reminder_level target_is_busy elapsed_secs timeout_secs =
     (if \<not> target_is_busy then None
      else if two_thirds timeout_secs \<le> elapsed_secs then Some 2
      else if timeout_secs div 3 \<le> elapsed_secs then Some 1
      else None)"

definition is_dnd :: "nat \<Rightarrow> Presence \<Rightarrow> bool" where
  "is_dnd instant p \<longleftrightarrow> (case pn_dnd_until p of Some until \<Rightarrow> instant < until | None \<Rightarrow> False)"

text \<open>The presence of a connection satisfies \<open>P\<close>.\<close>

definition conn_presence :: "(Presence \<Rightarrow> bool) \<Rightarrow> ReminderState \<Rightarrow> string \<Rightarrow> bool" where
  "conn_presence P s conn \<longleftrightarrow> list_ex (\<lambda>(c, instance_id). c = conn \<and>
     (case map_of (rs_presences s) instance_id of Some p \<Rightarrow> P p | None \<Rightarrow> False)) (rs_conn_instances s)"

definition t3_connection :: "ReminderState \<Rightarrow> string \<Rightarrow> bool" where
  "t3_connection = conn_presence (\<lambda>p. pn_transport p = ''t3code'')"

definition busy_connection :: "ReminderState \<Rightarrow> string \<Rightarrow> bool" where
  "busy_connection = conn_presence (\<lambda>p. pn_state p = ''busy'')"

definition undisturbed :: "TickInput \<Rightarrow> ReminderState \<Rightarrow> string \<Rightarrow> bool" where
  "undisturbed i s agent \<longleftrightarrow> list_ex (\<lambda>(_, p). pn_name p = agent \<and>
     (is_dnd (ti_instant i) p \<or> ti_dormant i (pn_name p))) (rs_presences s)"

definition reminders_paused :: "ReminderState \<Rightarrow> bool" where
  "reminders_paused s \<longleftrightarrow>
     (case admit_autonomous_effect ReminderNudge (control_read (db_control (rs_store s))) of
        Deferred _ \<Rightarrow> True | Admitted \<Rightarrow> False)"

definition ui_agent :: "ReminderState \<Rightarrow> string \<Rightarrow> bool" where
  "ui_agent s agent \<longleftrightarrow> list_ex (\<lambda>(_, p). pn_agent_type p = ''ui'' \<and> pn_name p = agent) (rs_presences s)"

definition humain :: "ReminderState \<Rightarrow> string \<Rightarrow> bool" where
  "humain s agent \<longleftrightarrow> ui_agent s agent \<or> ui_agent s UI_HUMAN_AGENT_ID \<and> agent = UI_HUMAN_SENDER"

definition as_secs :: "nat \<Rightarrow> nat" where
  "as_secs nanos = nanos div 1000000000"

definition elapsed_secs :: "TickInput \<Rightarrow> PendingReply \<Rightarrow> nat" where
  "elapsed_secs i p = as_secs (ti_now i - pe_created_at p) - pe_frozen_secs p"

definition reply_timeout :: "ReminderState \<Rightarrow> PendingReply \<Rightarrow> nat" where
  "reply_timeout s p = effective_reply_timeout (pe_timeout_secs p) (humain s (pe_to p) \<or> humain s (pe_from p))"

section \<open>One reply\<close>

text \<open>What one iteration of the loop adds to the four lists it fills.\<close>

record TickOutput =
  to_state_updates :: "(string \<times> nat) list"
  to_timeout_candidates :: "(string \<times> string \<times> string \<times> string \<times> nat \<times> string option) list"
  to_deferred_events :: "(string \<times> nat) list"
  to_actions :: "ReminderAction list"

definition no_output :: TickOutput where
  "no_output = \<lparr>to_state_updates = [], to_timeout_candidates = [], to_deferred_events = [], to_actions = []\<rparr>"

definition reminder_of :: "nat \<Rightarrow> PendingReply \<Rightarrow> ReminderAction" where
  "reminder_of level p =
     (if level = 1 then RGentle (pe_to p) (pe_from p) (pe_msg_id p) (pe_target_conn p)
      else RFirm (pe_to p) (pe_from p) (pe_msg_id p) (pe_target_conn p))"

definition escalate :: "nat \<Rightarrow> PendingReply \<Rightarrow> PendingReply \<times> TickOutput" where
  "escalate level p =
     (p\<lparr>pe_escalation_level := level\<rparr>,
      no_output\<lparr>to_state_updates := [(pe_msg_id p, level)], to_actions := [reminder_of level p]\<rparr>)"

text \<open>The rest of the iteration, once the frozen time is known.\<close>

definition remind_pending :: "TickInput \<Rightarrow> ReminderState \<Rightarrow> PendingReply \<Rightarrow> PendingReply \<times> TickOutput" where
  "remind_pending i s p =
     (let elapsed = elapsed_secs i p; timeout = reply_timeout s p
      in if timeout \<le> elapsed then
           (p\<lparr>pe_escalation_level := 3\<rparr>,
            no_output\<lparr>to_timeout_candidates := [(pe_to p, pe_from p, pe_msg_id p, pe_from_conn p, timeout,
              if t3_connection s (pe_target_conn p) then Some (pe_target_conn p) else None)]\<rparr>)
         else if pe_msg_id p \<in> set (rs_held_ids s) then (p, no_output)
         else if t3_connection s (pe_target_conn p) then (p, no_output)
         else if \<not> should_remind (undisturbed i s (pe_to p)) (pe_escalation_level p) then (p, no_output)
         else case deferred_reminder_level (reminders_paused s \<or> busy_connection s (pe_target_conn p)) elapsed timeout of
           Some level \<Rightarrow>
             if pe_deferred_level p \<noteq> Some level then
               (p\<lparr>pe_deferred_level := Some level\<rparr>,
                no_output\<lparr>to_deferred_events := [(pe_msg_id p, level)],
                  to_actions := [RDeferred (pe_to p) (pe_msg_id p)
                    (if reminders_paused s then ''pause'' else ''tour en cours'') level]\<rparr>)
             else (p, no_output)
         | None \<Rightarrow>
             (case pe_deferred_level p of
                Some level \<Rightarrow> escalate level (p\<lparr>pe_deferred_level := None\<rparr>)
              | None \<Rightarrow>
                  if pe_escalation_level p = 0 \<and> timeout div 3 \<le> elapsed then escalate 1 p
                  else if pe_escalation_level p = 1 \<and> two_thirds timeout \<le> elapsed then escalate 2 p
                  else (p, no_output)))"

definition tick_pending :: "TickInput \<Rightarrow> ReminderState \<Rightarrow> PendingReply \<Rightarrow> PendingReply \<times> TickOutput" where
  "tick_pending i s p =
     (if ti_remote_result i (pe_msg_id p) then (p, no_output)
      else case ti_frozen i (pe_msg_id p) of
        Inr (Some (secs, waiting)) \<Rightarrow>
          (let p = p\<lparr>pe_frozen_secs := secs\<rparr>
           in if reminders_paused s \<or> waiting then (p, no_output) else remind_pending i s p)
      | Inl _ \<Rightarrow> (p, no_output)
      | Inr None \<Rightarrow> remind_pending i s p)"

section \<open>One tick\<close>

definition retained :: "TickInput \<Rightarrow> ReminderState \<Rightarrow> PendingReply \<Rightarrow> bool" where
  "retained i s p \<longleftrightarrow> pe_msg_id p \<in> set (rs_held_ids s) \<or> pe_escalation_level p < 3 \<or>
     as_secs (ti_now i - pe_created_at p) < (pe_timeout_secs p + TIMEOUT_GRACE_PERIOD) mod 2 ^ 64"

text \<open>A write whose result is ignored.\<close>

definition ignore_result :: "'e + 'r \<times> Db \<Rightarrow> Db \<Rightarrow> Db" where
  "ignore_result r db = (case r of Inl _ \<Rightarrow> db | Inr (_, db') \<Rightarrow> db')"

fun apply_updates :: "(string \<times> nat) list \<Rightarrow> Db \<Rightarrow> Db" where
  "apply_updates [] db = db"
| "apply_updates ((rid, level) # us) db = apply_updates us (ignore_result (set_escalation_level rid level db) db)"

fun record_deferred :: "int \<Rightarrow> (string \<times> nat) list \<Rightarrow> Db \<Rightarrow> Db" where
  "record_deferred ts [] db = db"
| "record_deferred ts ((rid, level) # es) db =
     record_deferred ts es (ignore_result (record_deferred_reminder rid level ts db) db)"

definition claim_timeout :: "int \<Rightarrow> string \<Rightarrow> Db \<Rightarrow> bool \<times> Db" where
  "claim_timeout ts rid db = (case mark_timed_out rid ts db of Inl _ \<Rightarrow> (False, db) | Inr (claimed, db') \<Rightarrow> (claimed, db'))"

fun claim_timeouts ::
  "int \<Rightarrow> (string \<times> string \<times> string \<times> string \<times> nat \<times> string option) list \<Rightarrow> Db \<Rightarrow> ReminderAction list \<times> Db" where
  "claim_timeouts ts [] db = ([], db)"
| "claim_timeouts ts ((to, sender, rid, from_conn, timeout_secs, cancel_target) # cs) db =
     (case claim_timeout ts rid db of
        (claimed, db1) \<Rightarrow>
          (case claim_timeouts ts cs db1 of
             (acts, db2) \<Rightarrow>
               (if claimed then RTimeout to sender rid from_conn timeout_secs cancel_target # acts else acts, db2)))"

definition collect_reminder_actions :: "TickInput \<Rightarrow> ReminderState \<Rightarrow> ReminderAction list \<times> ReminderState" where
  "collect_reminder_actions i s =
     (let results = map (tick_pending i s) (rs_pending_replies s);
          outputs = map snd results;
          db1 = apply_updates (concat (map to_state_updates outputs)) (rs_store s);
          db2 = record_deferred (ti_now_secs i) (concat (map to_deferred_events outputs)) db1
      in case claim_timeouts (ti_now_secs i) (concat (map to_timeout_candidates outputs)) db2 of
           (timeouts, db3) \<Rightarrow>
             (concat (map to_actions outputs) @ timeouts,
              s\<lparr>rs_pending_replies := filter (retained i s) (map fst results), rs_store := db3\<rparr>))"

section \<open>Who is reminded\<close>

fun reminded :: "ReminderAction \<Rightarrow> (string \<times> string \<times> string) option" where
  "reminded (RGentle to sender rid conn) = Some (rid, to, conn)"
| "reminded (RFirm to sender rid conn) = Some (rid, to, conn)"
| "reminded _ = None"

fun timed_out_id :: "ReminderAction \<Rightarrow> string option" where
  "timed_out_id (RTimeout to sender rid from_conn timeout cancel) = Some rid"
| "timed_out_id _ = None"

text \<open>
  A reminder is never sent for a message that is still held, over a connection of t3code, nor
  after the result of a remote mission; over a busy connection or during a pause only one that
  had been deferred is; and an undisturbed agent receives one only when it had received the
  firm one already.
\<close>

lemma reminder_spares_target:
  assumes "a \<in> set (to_actions (snd (tick_pending i s p)))" "reminded a = Some (rid, agent, conn)"
  shows "rid = pe_msg_id p" "agent = pe_to p" "conn = pe_target_conn p" "rid \<notin> set (rs_held_ids s)"
    "\<not> t3_connection s conn" "\<not> ti_remote_result i rid"
    "undisturbed i s agent \<Longrightarrow> 2 \<le> pe_escalation_level p"
    "reminders_paused s \<or> busy_connection s conn \<Longrightarrow> pe_deferred_level p \<noteq> None"
  using assms
  by (auto simp: tick_pending_def remind_pending_def escalate_def reminder_of_def no_output_def should_remind_def
      deferred_reminder_level_def Let_def split: sum.splits option.splits if_splits)

section \<open>Timeouts\<close>

lemma set_escalation_exec: "daemon_exec codec attests (DSetEscalation rid level) db =
    Inr (RepUnit, ignore_result (set_escalation_level rid level db) db)"
  by (simp add: relabel_def set_escalation_level_def ignore_result_def)

lemma record_deferred_exec: "daemon_exec codec attests (DDeferred rid level ts) db =
    Inr (RepUnit, ignore_result (record_deferred_reminder rid level ts db) db)"
  by (simp add: relabel_def record_deferred_reminder_def ignore_result_def)

lemma claim_timeout_exec: "daemon_exec codec attests (DMarkTimedOut rid ts) db =
    Inr (RepBool (fst (claim_timeout ts rid db)), snd (claim_timeout ts rid db))"
  by (simp add: relabel_def mark_timed_out_def claim_timeout_def Let_def)

lemma apply_updates_ops:
  "apply_updates us db = run_ops (daemon_exec codec attests) (map (\<lambda>(rid, level). DSetEscalation rid level) us) db"
  by (induction us db rule: apply_updates.induct) (simp_all add: set_escalation_exec del: daemon_exec.simps)

lemma record_deferred_ops:
  "record_deferred ts es db = run_ops (daemon_exec codec attests) (map (\<lambda>(rid, level). DDeferred rid level ts) es) db"
  by (induction ts es db rule: record_deferred.induct) (simp_all add: record_deferred_exec del: daemon_exec.simps)

lemma claim_timeout_closes:
  assumes "daemon_inv db" "fst (claim_timeout ts rid db)"
  shows "\<exists>v. closed_request rid (snd (claim_timeout ts rid db)) = Some v \<and> tq_state v = ReqTimedOut"
    "closed_request rid db = None"
proof -
  show pending: "closed_request rid db = None"
  proof (cases "closed_request rid db")
    case (Some v)
    from closed_request_refuses(1) [OF assms(1) this] assms(2) show ?thesis by (simp add: claim_timeout_def)
  qed
  let ?rows = "sql_update (open_row rid) (\<lambda>q. q\<lparr>tq_state := ReqTimedOut, tq_completed_at := Some ts\<rparr>) (db_requests db)"
  have one: "sql_matches (open_row rid) (db_requests db) = 1"
    using assms(2) by (simp add: claim_timeout_def mark_timed_out_def Let_def)
  have rows: "db_requests (snd (claim_timeout ts rid db)) = ?rows"
    using one by (simp add: claim_timeout_def mark_timed_out_def Let_def)
  have "sql_matches (open_row rid) (db_requests db) \<noteq> 0" using one by simp
  then obtain q where "q \<in> set (db_requests db)" "tq_id q = rid"
    unfolding sql_matches_0_iff by (auto simp: open_row_def)
  then obtain q0 where q0: "sql_row (\<lambda>q. tq_id q = rid) (db_requests db) = Some q0"
    by (cases "sql_row (\<lambda>q. tq_id q = rid) (db_requests db)") (auto simp: sql_row_None_iff)
  hence "open_row rid q0"
    using sql_row_SomeD [OF q0] pending
    by (auto simp: closed_request_def open_row_def split: if_splits)
  moreover have "sql_row (\<lambda>q. tq_id q = rid) ?rows = map_option (\<lambda>q. if open_row rid q
      then q\<lparr>tq_state := ReqTimedOut, tq_completed_at := Some ts\<rparr> else q) (Some q0)"
    unfolding q0 [symmetric] by (rule sql_row_update) simp
  ultimately show "\<exists>v. closed_request rid (snd (claim_timeout ts rid db)) = Some v \<and> tq_state v = ReqTimedOut"
    by (simp add: closed_request_def rows nameless_def)
qed

text \<open>Over the claims of one tick, a request is notified at most once, and is closed from then on.\<close>

lemma claim_timeouts_once:
  fixes rid :: string
  assumes "daemon_inv db" "claim_timeouts ts cs db = (acts, db')"
  defines "n \<equiv> length (filter (\<lambda>a. timed_out_id a = Some rid) acts)"
  shows "daemon_inv db'" "closed_request rid db = Some v \<Longrightarrow> closed_request rid db' = Some v \<and> n = 0" "n \<le> 1"
    "n = 1 \<Longrightarrow> \<exists>v. closed_request rid db' = Some v \<and> tq_state v = ReqTimedOut"
proof -
  have "daemon_inv db' \<and> (\<forall>v. closed_request rid db = Some v \<longrightarrow> closed_request rid db' = Some v \<and> n = 0) \<and> n \<le> 1 \<and>
      (n = 1 \<longrightarrow> (\<exists>v. closed_request rid db' = Some v \<and> tq_state v = ReqTimedOut))"
    unfolding n_def using assms(1,2)
  proof (induction ts cs db arbitrary: acts rule: claim_timeouts.induct)
    case (1 ts db)
    thus ?case by simp
  next
    case (2 ts to sender r from_conn timeout_secs cancel_target cs db)
    obtain claimed db1 where c: "claim_timeout ts r db = (claimed, db1)" by fastforce
    obtain acts1 db2 where cs: "claim_timeouts ts cs db1 = (acts1, db2)" by fastforce
    have ex: "daemon_exec codec attests (DMarkTimedOut r ts) db = Inr (RepBool claimed, db1)" for codec attests
      by (simp only: claim_timeout_exec c fst_conv snd_conv)
    have inv: "daemon_inv db1" by (rule requests.exec_inv [OF "2.prems"(1) ex])
    have keep: "closed_request rid db = Some v \<Longrightarrow> closed_request rid db1 = Some v" for v
      by (rule requests.fact_stable [OF "2.prems"(1) _ ex]) simp_all
    have out: "acts = (if claimed then RTimeout to sender r from_conn timeout_secs cancel_target # acts1 else acts1)" "db' = db2"
      using "2.prems"(2) c cs by auto
    have ih: "daemon_inv db2" "\<forall>v. closed_request rid db1 = Some v \<longrightarrow> closed_request rid db2 = Some v \<and>
        length (filter (\<lambda>a. timed_out_id a = Some rid) acts1) = 0"
      "length (filter (\<lambda>a. timed_out_id a = Some rid) acts1) \<le> 1"
      "length (filter (\<lambda>a. timed_out_id a = Some rid) acts1) = 1 \<longrightarrow>
        (\<exists>v. closed_request rid db2 = Some v \<and> tq_state v = ReqTimedOut)"
      using "2.IH" [OF c [symmetric] inv, of acts1] cs out(2) by auto
    have first: "(\<exists>v. closed_request rid db1 = Some v \<and> tq_state v = ReqTimedOut) \<and> closed_request rid db = None" if "claimed" "r = rid"
      using claim_timeout_closes [OF "2.prems"(1), of ts r] c that by simp
    show ?case
    proof (cases "claimed \<and> r = rid")
      case True
      thus ?thesis using first ih out by auto
    next
      case False
      thus ?thesis using keep ih out by auto
    qed
  qed
  thus "daemon_inv db'" "closed_request rid db = Some v \<Longrightarrow> closed_request rid db' = Some v \<and> n = 0" "n \<le> 1"
    "n = 1 \<Longrightarrow> \<exists>v. closed_request rid db' = Some v \<and> tq_state v = ReqTimedOut" by blast+
qed

section \<open>Runs\<close>

text \<open>
  Ticks between the operations of the store; \<open>Rest\<close> is whatever other handlers do to the
  presences, the connections, the held ids and the awaited replies.
\<close>

datatype reminder_event =
    Tick TickInput
  | Op daemon_op
  | Rest "(string \<times> Presence) list" "(string \<times> string) list" "string list" "PendingReply list"

fun reminder_step ::
  "Codec \<Rightarrow> (string \<Rightarrow> bool) \<Rightarrow> reminder_event \<Rightarrow> ReminderState \<Rightarrow> ReminderAction list \<times> ReminderState" where
  "reminder_step codec attests (Tick i) s = collect_reminder_actions i s"
| "reminder_step codec attests (Op x) s =
     ([], s\<lparr>rs_store := run_ops (daemon_exec codec attests) [x] (rs_store s)\<rparr>)"
| "reminder_step codec attests (Rest presences conns held pending) s =
     ([], s\<lparr>rs_presences := presences, rs_conn_instances := conns, rs_held_ids := held, rs_pending_replies := pending\<rparr>)"

fun reminder_run ::
  "Codec \<Rightarrow> (string \<Rightarrow> bool) \<Rightarrow> reminder_event list \<Rightarrow> ReminderState \<Rightarrow> ReminderAction list \<times> ReminderState" where
  "reminder_run codec attests [] s = ([], s)"
| "reminder_run codec attests (e # es) s =
     (case reminder_step codec attests e s of
        (acts, s1) \<Rightarrow> (case reminder_run codec attests es s1 of (acts', s2) \<Rightarrow> (acts @ acts', s2)))"

text \<open>No event of the run purges the request.\<close>

fun keeps_request :: "Codec \<Rightarrow> (string \<Rightarrow> bool) \<Rightarrow> string \<Rightarrow> reminder_event list \<Rightarrow> ReminderState \<Rightarrow> bool" where
  "keeps_request codec attests rid [] s = True"
| "keeps_request codec attests rid (e # es) s =
     ((case e of Op x \<Rightarrow> \<not> purges_request x rid (rs_store s) | _ \<Rightarrow> True) \<and>
      keeps_request codec attests rid es (snd (reminder_step codec attests e s)))"

abbreviation timeouts_of :: "string \<Rightarrow> ReminderAction list \<Rightarrow> nat" where
  "timeouts_of rid acts \<equiv> length (filter (\<lambda>a. timed_out_id a = Some rid) acts)"

lemma tick_actions_no_timeout: "a \<in> set (to_actions (snd (tick_pending i s p))) \<Longrightarrow> timed_out_id a = None"
  by (cases a) (auto simp: tick_pending_def remind_pending_def escalate_def reminder_of_def no_output_def Let_def
      split: sum.splits option.splits if_splits)

lemma timeouts_once_step:
  assumes "daemon_inv (rs_store s)" "reminder_step codec attests e s = (acts, s')"
    "case e of Op x \<Rightarrow> \<not> purges_request x rid (rs_store s) | _ \<Rightarrow> True"
  shows "daemon_inv (rs_store s') \<and>
    (\<forall>v. closed_request rid (rs_store s) = Some v \<longrightarrow> closed_request rid (rs_store s') = Some v \<and> timeouts_of rid acts = 0) \<and>
    timeouts_of rid acts \<le> 1 \<and>
    (timeouts_of rid acts = 1 \<longrightarrow> (\<exists>v. closed_request rid (rs_store s') = Some v \<and> tq_state v = ReqTimedOut))"
proof (cases e)
  case (Tick i)
  define outs where "outs = map snd (map (tick_pending i s) (rs_pending_replies s))"
  define ops where "ops = map (\<lambda>(rid, level). DSetEscalation rid level) (concat (map to_state_updates outs)) @
    map (\<lambda>(rid, level). DDeferred rid level (ti_now_secs i)) (concat (map to_deferred_events outs))"
  define db2 where "db2 = run_ops (daemon_exec codec attests) ops (rs_store s)"
  have db2: "record_deferred (ti_now_secs i) (concat (map to_deferred_events outs))
      (apply_updates (concat (map to_state_updates outs)) (rs_store s)) = db2"
    by (simp add: db2_def ops_def run_ops_append apply_updates_ops [of _ _ codec attests]
        record_deferred_ops [of _ _ _ codec attests])
  have kept: "kept_ops (daemon_exec codec attests) purges_request rid ops db" for db
  proof -
    have "\<forall>x \<in> set ops. \<forall>db. \<not> purges_request x rid db" by (auto simp: ops_def)
    thus ?thesis by (induction ops arbitrary: db) auto
  qed
  obtain timeouts db3 where claims:
    "claim_timeouts (ti_now_secs i) (concat (map to_timeout_candidates outs)) db2 = (timeouts, db3)" by fastforce
  have acts: "acts = concat (map to_actions outs) @ timeouts" "rs_store s' = db3"
    using assms(2) [unfolded Tick reminder_step.simps collect_reminder_actions_def Let_def, folded outs_def,
        unfolded db2 claims prod.case] by auto
  have inv: "daemon_inv db2" unfolding db2_def by (rule requests.run_inv [OF assms(1)])
  have closed: "closed_request rid db2 = Some v" if "closed_request rid (rs_store s) = Some v" for v
    unfolding db2_def by (rule requests.run_fact [OF assms(1) that kept])
  have "filter (\<lambda>a. timed_out_id a = Some rid) (concat (map to_actions outs)) = []"
    by (auto simp: filter_empty_conv outs_def dest: tick_actions_no_timeout)
  hence "timeouts_of rid acts = timeouts_of rid timeouts" by (simp add: acts)
  thus ?thesis
    using claim_timeouts_once(1) [OF inv claims] claim_timeouts_once(2-4) [OF inv claims, where rid = rid] closed
    by (auto simp: acts)
next
  case (Op x)
  hence "\<not> purges_request x rid (rs_store s)" using assms(3) by simp
  hence "kept_ops (daemon_exec codec attests) purges_request rid [x] (rs_store s)" by simp
  from requests.run_fact [OF assms(1) _ this] requests.run_inv [OF assms(1), of codec attests "[x]"]
  show ?thesis using assms(2) by (auto simp: Op simp del: run_ops.simps)
next
  case (Rest presences conns held pending)
  thus ?thesis using assms by auto
qed

lemma timeouts_once_run:
  assumes "daemon_inv (rs_store s)" "reminder_run codec attests es s = (acts, s')" "keeps_request codec attests rid es s"
  shows "(\<forall>v. closed_request rid (rs_store s) = Some v \<longrightarrow> closed_request rid (rs_store s') = Some v \<and> timeouts_of rid acts = 0) \<and>
    timeouts_of rid acts \<le> 1 \<and>
    (timeouts_of rid acts = 1 \<longrightarrow> (\<exists>v. closed_request rid (rs_store s') = Some v \<and> tq_state v = ReqTimedOut))"
  using assms
proof (induction es arbitrary: s acts)
  case Nil
  thus ?case by simp
next
  case (Cons e es)
  obtain a1 s1 where e: "reminder_step codec attests e s = (a1, s1)" by fastforce
  obtain a2 s2 where es: "reminder_run codec attests es s1 = (a2, s2)" by fastforce
  have out: "acts = a1 @ a2" "s' = s2" using Cons.prems(2) e es by auto
  note step = timeouts_once_step [OF Cons.prems(1) e, of rid]
  have ih: "daemon_inv (rs_store s1) \<Longrightarrow> (\<forall>v. closed_request rid (rs_store s1) = Some v \<longrightarrow>
      closed_request rid (rs_store s2) = Some v \<and> timeouts_of rid a2 = 0) \<and> timeouts_of rid a2 \<le> 1 \<and>
      (timeouts_of rid a2 = 1 \<longrightarrow> (\<exists>v. closed_request rid (rs_store s2) = Some v \<and> tq_state v = ReqTimedOut))"
    using Cons.IH [of s1 a2] es Cons.prems(3) e out by simp
  show ?case
    using step ih Cons.prems(3) unfolding out by (cases "timeouts_of rid a1 = 1") auto
qed

section \<open>Repeated reminders\<close>

definition second :: nat where "second = 1000000000"

definition demo_input :: "nat \<Rightarrow> TickInput" where
  "demo_input secs = \<lparr>ti_now = secs * second, ti_instant = secs * second, ti_now_secs = int secs,
     ti_dormant = (\<lambda>_. False), ti_frozen = (\<lambda>_. Inr None), ti_remote_result = (\<lambda>_. False)\<rparr>"

definition demo_presence :: "string \<Rightarrow> nat option \<Rightarrow> Presence" where
  "demo_presence st dnd = \<lparr>pn_name = ''bob'', pn_agent_type = ''codex'', pn_transport = ''acp'', pn_state = st,
     pn_dnd_until = dnd\<rparr>"

definition demo_pending :: PendingReply where
  "demo_pending = \<lparr>pe_msg_id = ''r'', pe_from = ''a'', pe_from_conn = ''ca'', pe_to = ''bob'', pe_target_conn = ''cb'',
     pe_timeout_secs = 60, pe_created_at = 0, pe_frozen_secs = 0, pe_escalation_level = 0, pe_deferred_level = None\<rparr>"

definition demo_state :: ReminderState where
  "demo_state = \<lparr>rs_presences = [(''i'', demo_presence ''connected'' None)], rs_conn_instances = [(''cb'', ''i'')],
     rs_held_ids = [], rs_pending_replies = [demo_pending],
     rs_store = daemon_reached echo_codec (\<lambda>_. True) [DCreateRequest ''r'' ''a'' ''bob'' 60 0]\<rparr>"

text \<open>The presence of bob becomes this one, as a turn starts or ends.\<close>

definition bob_becomes :: "string \<Rightarrow> nat option \<Rightarrow> ReminderState \<Rightarrow> ReminderState" where
  "bob_becomes st dnd s = s\<lparr>rs_presences := [(''i'', demo_presence st dnd)]\<rparr>"

definition after_firm :: "ReminderState \<Rightarrow> ReminderState" where
  "after_firm s = snd (collect_reminder_actions (demo_input 41) (snd (collect_reminder_actions (demo_input 20) s)))"

lemmas tick_eval = collect_reminder_actions_def tick_pending_def remind_pending_def escalate_def reminder_of_def
  no_output_def should_remind_def deferred_reminder_level_def elapsed_secs_def reply_timeout_def
  effective_reply_timeout_def humain_def ui_agent_def undisturbed_def busy_connection_def t3_connection_def
  conn_presence_def reminders_paused_def two_thirds_def as_secs_def retained_def is_dnd_def Let_def
  demo_input_def demo_presence_def demo_pending_def demo_state_def bob_becomes_def after_firm_def second_def
  ignore_result_def set_escalation_level_def record_deferred_reminder_def claim_timeout_def UI_HUMAN_AGENT_ID_def
  control_read_def control_initial_def db_empty_def create_request_def relabel_def sql_exists_def

text \<open>A firm reminder that was sent is sent again after the next turn of its target.\<close>

theorem firm_reminder_repeats:
  "fst (collect_reminder_actions (demo_input 41) (snd (collect_reminder_actions (demo_input 20) demo_state))) =
     [RFirm ''bob'' ''a'' ''r'' ''cb''] \<and>
   fst (collect_reminder_actions (demo_input 50) (bob_becomes ''connected'' None
     (snd (collect_reminder_actions (demo_input 45) (bob_becomes ''busy'' None (after_firm demo_state)))))) =
     [RFirm ''bob'' ''a'' ''r'' ''cb'']"
  by (simp add: tick_eval)

text \<open>It is so even to a target that is not to be disturbed.\<close>

theorem firm_reminder_disturbs:
  "undisturbed (demo_input 50) (bob_becomes ''connected'' (Some (90 * second)) demo_state) ''bob'' \<and>
   fst (collect_reminder_actions (demo_input 50) (bob_becomes ''connected'' (Some (90 * second))
     (snd (collect_reminder_actions (demo_input 45) (bob_becomes ''busy'' (Some (90 * second)) (after_firm demo_state)))))) =
     [RFirm ''bob'' ''a'' ''r'' ''cb'']"
  by (simp add: tick_eval)

text \<open>
  C12. Whatever the daemon does in between, the sender of a request is told at most once that the
  time for its answer is over: over any run of reminder ticks, operations of the store and
  changes of the presences and of the awaited replies in which the request is not purged, and
  if it was told, the request ends as timed out and nothing answers or cancels it any more.
\<close>

theorem timeout_notified_once:
  assumes "rs_store s = daemon_reached codec attests past"
    and "keeps_request codec attests rid events s"
  defines "acts \<equiv> fst (reminder_run codec attests events s)"
  shows "timeouts_of rid acts \<le> 1 \<and>
    (timeouts_of rid acts = 1 \<longrightarrow>
      (\<exists>req. get_request rid (rs_store (snd (reminder_run codec attests events s))) = Some req \<and> tr_state req = ReqTimedOut))"
proof -
  let ?db = "rs_store (snd (reminder_run codec attests events s))"
  have "daemon_inv (rs_store s)" unfolding assms(1) by (rule daemon_reached_inv)
  from timeouts_once_run [OF this prod.collapse [symmetric] assms(2)]
  have once: "timeouts_of rid acts \<le> 1" "timeouts_of rid acts = 1 \<Longrightarrow>
      \<exists>v. closed_request rid ?db = Some v \<and> tq_state v = ReqTimedOut" unfolding acts_def by auto
  have "\<exists>req. get_request rid ?db = Some req \<and> tr_state req = ReqTimedOut"
    if "closed_request rid ?db = Some v" "tq_state v = ReqTimedOut" for v
    using that by (auto simp: closed_request_def get_request_def tracked_request_from_row_def nameless_def
        split: option.splits if_splits)
  thus ?thesis using once by blast
qed

theorem timeout_notified_once_witness:
  "keeps_request echo_codec (\<lambda>_. True) ''r'' [Tick (demo_input 61), Tick (demo_input 62)] demo_state \<and>
   timeouts_of ''r'' (fst (reminder_run echo_codec (\<lambda>_. True) [Tick (demo_input 61), Tick (demo_input 62)] demo_state)) = 1 \<and>
   (\<exists>req. get_request ''r'' (rs_store (snd (reminder_run echo_codec (\<lambda>_. True)
      [Tick (demo_input 61), Tick (demo_input 62)] demo_state))) = Some req \<and> tr_state req = ReqTimedOut)"
proof -
  have kept: "keeps_request echo_codec (\<lambda>_. True) ''r'' [Tick (demo_input 61), Tick (demo_input 62)] demo_state" by simp
  have start: "rs_store demo_state = daemon_reached echo_codec (\<lambda>_. True) [DCreateRequest ''r'' ''a'' ''bob'' 60 0]"
    by (simp add: demo_state_def)
  have "collect_reminder_actions (demo_input 61) demo_state = (RTimeout ''bob'' ''a'' ''r'' ''ca'' 60 None # [], s)
      \<Longrightarrow> RTimeout ''bob'' ''a'' ''r'' ''ca'' 60 None \<in> set (fst (reminder_run echo_codec (\<lambda>_. True)
        [Tick (demo_input 61), Tick (demo_input 62)] demo_state))" for s
    by (simp split: prod.splits)
  moreover have "fst (collect_reminder_actions (demo_input 61) demo_state) = [RTimeout ''bob'' ''a'' ''r'' ''ca'' 60 None]"
    by (simp add: tick_eval mark_timed_out_def sql_matches_def open_row_def)
  ultimately have "RTimeout ''bob'' ''a'' ''r'' ''ca'' 60 None \<in> set (fst (reminder_run echo_codec (\<lambda>_. True)
      [Tick (demo_input 61), Tick (demo_input 62)] demo_state))"
    by (metis prod.collapse)
  hence "0 < timeouts_of ''r'' (fst (reminder_run echo_codec (\<lambda>_. True)
      [Tick (demo_input 61), Tick (demo_input 62)] demo_state))"
    by (intro length_pos_if_in_set [of "RTimeout ''bob'' ''a'' ''r'' ''ca'' 60 None"]) (simp del: reminder_run.simps)
  moreover note once = timeout_notified_once [OF start kept]
  ultimately have "timeouts_of ''r'' (fst (reminder_run echo_codec (\<lambda>_. True)
      [Tick (demo_input 61), Tick (demo_input 62)] demo_state)) = 1"
    by linarith
  thus ?thesis using once kept by blast
qed

end
